(* ===== verification/Prelude.thy ===== *)
theory Prelude
  imports Main
begin

text \<open>
  Shared vocabulary of the development: the panics a Rust program can raise, the result type
  of an operation that may panic and its sequencing, fixed-width unsigned and signed arithmetic
  under the two build profiles of \<^verbatim>\<open>Cargo.toml\<close>, and generic facts on lists that several
  components use.

  Unsigned machine integers are \<open>nat\<close> and signed ones \<open>int\<close>; the width is written out in each
  operation. With overflow checks (profile \<open>Debug\<close>, Cargo's \<^verbatim>\<open>[profile.dev]\<close>) an operation
  that leaves the range panics, without them (\<open>Release\<close>) it wraps around.
\<close>

subsection \<open>Fact collections\<close>

named_theorems rust_simps \<open>evaluation of the Rust result type and its arithmetic\<close>
named_theorems rust_splits \<open>inversion of successful computations\<close>

subsection \<open>Panics and results\<close>

datatype panic =
    Arithmetic_overflow
  | Index_out_of_bounds
  | Explicit_panic string
  | Unwrap_failed string

type_synonym 'a rust = "panic + 'a"

definition bind_rust :: "'a rust \<Rightarrow> ('a \<Rightarrow> 'b rust) \<Rightarrow> 'b rust" where
  "bind_rust m f = (case m of Inl e \<Rightarrow> Inl e | Inr x \<Rightarrow> f x)"

lemma bind_rust_Inl [simp, rust_simps]: "bind_rust (Inl e) f = Inl e"
  by (simp add: bind_rust_def)

lemma bind_rust_Inr [simp, rust_simps]: "bind_rust (Inr x) f = f x"
  by (simp add: bind_rust_def)

lemma bind_rust_eq_Inr [rust_splits]:
  "bind_rust m f = Inr y \<longleftrightarrow> (\<exists>x. m = Inr x \<and> f x = Inr y)"
  by (cases m) auto

lemma bind_rust_eq_Inl:
  "bind_rust m f = Inl e \<longleftrightarrow> m = Inl e \<or> (\<exists>x. m = Inr x \<and> f x = Inl e)"
  by (cases m) auto

text \<open>Inversion of a case distinction on a result, for use where a split meets bound variables.\<close>

lemma case_sum_eq [rust_splits]:
  "case_sum f g r = c \<longleftrightarrow> (\<exists>e. r = Inl e \<and> f e = c) \<or> (\<exists>v. r = Inr v \<and> g v = c)"
  by (cases r) auto

lemma case_option_eq [rust_splits]:
  "case_option a f x = c \<longleftrightarrow> (x = None \<and> a = c) \<or> (\<exists>v. x = Some v \<and> f v = c)"
  by (cases x) auto

lemma bind_rust_assoc: "bind_rust (bind_rust m f) g = bind_rust m (\<lambda>x. bind_rust (f x) g)"
  by (cases m) auto

lemma bind_rust_cong [fundef_cong]:
  "m = m' \<Longrightarrow> (\<And>x. m' = Inr x \<Longrightarrow> f x = f' x) \<Longrightarrow> bind_rust m f = bind_rust m' f'"
  by (cases m') auto

text \<open>\<^verbatim>\<open>Option::ok_or\<close>/\<^verbatim>\<open>expect\<close>: an absent value is the given panic.\<close>

definition expect :: "string \<Rightarrow> 'a option \<Rightarrow> 'a rust" where
  "expect msg x = (case x of None \<Rightarrow> Inl (Unwrap_failed msg) | Some v \<Rightarrow> Inr v)"

lemma expect_simps [simp, rust_simps]:
  "expect msg None = Inl (Unwrap_failed msg)" "expect msg (Some v) = Inr v"
  by (simp_all add: expect_def)

subsection \<open>Console requests\<close>

text \<open>
  The text an operation sends to the serial port and to the screen, in program order: each
  \<^verbatim>\<open>serial_print!\<close> and \<^verbatim>\<open>print!\<close> is one request with its formatted argument.
\<close>

datatype console = Serial string | Vga string

definition serial_println :: "string \<Rightarrow> console" where
  "serial_println s = Serial (s @ [CHR 0x0A])"

definition vga_println :: "string \<Rightarrow> console" where
  "vga_println s = Vga (s @ [CHR 0x0A])"

subsection \<open>Machine arithmetic\<close>

datatype profile = Debug | Release

type_synonym u64 = nat
type_synonym usize = nat
type_synonym i64 = int

definition u64_bound :: nat where
  "u64_bound = 18446744073709551616"

lemma u64_bound_eq: "u64_bound = 2 ^ 64"
  by (simp add: u64_bound_def)

lemma u64_bound_pos [simp]: "0 < u64_bound"
  by (simp add: u64_bound_def)

text \<open>A result that leaves the range panics under \<open>Debug\<close> and wraps under \<open>Release\<close>.\<close>

definition u64_add :: "profile \<Rightarrow> u64 \<Rightarrow> u64 \<Rightarrow> u64 rust" where
  "u64_add p a b =
     (if a + b < u64_bound then Inr (a + b)
      else if p = Debug then Inl Arithmetic_overflow
      else Inr ((a + b) mod u64_bound))"

definition u64_sub :: "profile \<Rightarrow> u64 \<Rightarrow> u64 \<Rightarrow> u64 rust" where
  "u64_sub p a b =
     (if b \<le> a then Inr (a - b)
      else if p = Debug then Inl Arithmetic_overflow
      else Inr ((a + u64_bound - b) mod u64_bound))"

definition u64_mul :: "profile \<Rightarrow> u64 \<Rightarrow> u64 \<Rightarrow> u64 rust" where
  "u64_mul p a b =
     (if a * b < u64_bound then Inr (a * b)
      else if p = Debug then Inl Arithmetic_overflow
      else Inr ((a * b) mod u64_bound))"

definition saturating_sub :: "usize \<Rightarrow> usize \<Rightarrow> usize" where
  "saturating_sub a b = (if b \<le> a then a - b else 0)"

lemma u64_add_in_range [simp, rust_simps]: "a + b < u64_bound \<Longrightarrow> u64_add p a b = Inr (a + b)"
  by (simp add: u64_add_def)

lemma u64_sub_in_range [simp, rust_simps]: "b \<le> a \<Longrightarrow> u64_sub p a b = Inr (a - b)"
  by (simp add: u64_sub_def)

lemma u64_mul_in_range [simp, rust_simps]: "a * b < u64_bound \<Longrightarrow> u64_mul p a b = Inr (a * b)"
  by (simp add: u64_mul_def)

lemma u64_add_Debug_Inr: "u64_add Debug a b = Inr c \<longleftrightarrow> a + b < u64_bound \<and> c = a + b"
  by (auto simp: u64_add_def)

lemma u64_add_bounded: "u64_add p a b = Inr c \<Longrightarrow> c < u64_bound"
  by (auto simp: u64_add_def split: if_splits)

lemma saturating_sub_eq [simp]: "saturating_sub a b = a - b"
  by (simp add: saturating_sub_def)

text \<open>Signed 64-bit arithmetic: two's complement wrap-around and truncating division.\<close>

definition i64_min :: int where "i64_min = - 9223372036854775808"
definition i64_max :: int where "i64_max = 9223372036854775807"

definition in_i64 :: "int \<Rightarrow> bool" where
  "in_i64 x \<longleftrightarrow> i64_min \<le> x \<and> x \<le> i64_max"

definition wrap_i64 :: "int \<Rightarrow> i64" where
  "wrap_i64 x = (x + 9223372036854775808) mod 18446744073709551616 - 9223372036854775808"

definition i64_result :: "profile \<Rightarrow> int \<Rightarrow> i64 rust" where
  "i64_result p x =
     (if in_i64 x then Inr x
      else if p = Debug then Inl Arithmetic_overflow
      else Inr (wrap_i64 x))"

definition quot_to_zero :: "int \<Rightarrow> int \<Rightarrow> int" where
  "quot_to_zero a b = (if (a < 0) = (b < 0) then \<bar>a\<bar> div \<bar>b\<bar> else - (\<bar>a\<bar> div \<bar>b\<bar>))"

text \<open>
  \<^verbatim>\<open>a / b\<close> on \<^verbatim>\<open>i64\<close> for a divisor that is not zero: the one quotient out of range,
  \<^verbatim>\<open>i64::MIN / -1\<close>, panics under both profiles.
\<close>

definition i64_div :: "i64 \<Rightarrow> i64 \<Rightarrow> i64 rust" where
  "i64_div a b = (if in_i64 (quot_to_zero a b) then Inr (quot_to_zero a b) else Inl Arithmetic_overflow)"

lemma wrap_i64_in_range: "in_i64 (wrap_i64 x)"
  using pos_mod_bound [of 18446744073709551616 "x + 9223372036854775808"]
    pos_mod_sign [of 18446744073709551616 "x + 9223372036854775808"]
  by (simp add: in_i64_def wrap_i64_def i64_min_def i64_max_def)

lemma wrap_i64_id: "in_i64 x \<Longrightarrow> wrap_i64 x = x"
  by (simp add: in_i64_def wrap_i64_def i64_min_def i64_max_def)

lemma i64_result_in_range [simp, rust_simps]: "in_i64 x \<Longrightarrow> i64_result p x = Inr x"
  by (simp add: i64_result_def)

lemma i64_result_Inr_in_range: "i64_result p x = Inr y \<Longrightarrow> in_i64 y"
  by (auto simp: i64_result_def wrap_i64_in_range split: if_splits)

lemma i64_result_Release: "i64_result Release x = Inr (wrap_i64 x)"
  by (auto simp: i64_result_def wrap_i64_id)

lemma quot_to_zero_abs_le: "\<bar>quot_to_zero a b\<bar> \<le> \<bar>a\<bar>"
proof -
  have "\<bar>a\<bar> div \<bar>b\<bar> \<le> \<bar>a\<bar>"
    using zdiv_mono2 [of "\<bar>a\<bar>" 1 "\<bar>b\<bar>"] by (cases "b = 0") auto
  moreover have "0 \<le> \<bar>a\<bar> div \<bar>b\<bar>"
    by (cases "b = 0") (simp_all add: pos_imp_zdiv_nonneg_iff)
  ultimately show ?thesis
    by (auto simp: quot_to_zero_def)
qed

subsection \<open>Lists\<close>

text \<open>\<^verbatim>\<open>Iterator::position\<close>: the index of the first element that satisfies a predicate.\<close>

fun position :: "('a \<Rightarrow> bool) \<Rightarrow> 'a list \<Rightarrow> nat option" where
  "position P [] = None"
| "position P (x # xs) = (if P x then Some 0 else map_option Suc (position P xs))"

lemma position_None: "position P xs = None \<longleftrightarrow> (\<forall>x \<in> set xs. \<not> P x)"
  by (induction xs) auto

lemma position_Some:
  "position P xs = Some i \<longleftrightarrow>
     i < length xs \<and> P (xs ! i) \<and> (\<forall>x \<in> set (take i xs). \<not> P x)"
proof (induction xs arbitrary: i)
  case (Cons x xs)
  then show ?case by (cases i) auto
qed simp

text \<open>Removal by index, as \<^verbatim>\<open>VecDeque::remove\<close> does it.\<close>

definition remove_at :: "nat \<Rightarrow> 'a list \<Rightarrow> ('a \<times> 'a list) option" where
  "remove_at i xs =
     (if i < length xs then Some (xs ! i, take i xs @ drop (Suc i) xs) else None)"

lemma position_split:
  "position P xs = Some i \<longleftrightarrow>
     (\<exists>ys y zs. xs = ys @ y # zs \<and> i = length ys \<and> P y \<and> (\<forall>x \<in> set ys. \<not> P x))"
proof
  assume "position P xs = Some i"
  then have "i < length xs" "P (xs ! i)" "\<forall>x \<in> set (take i xs). \<not> P x"
    by (simp_all add: position_Some)
  then show "\<exists>ys y zs. xs = ys @ y # zs \<and> i = length ys \<and> P y \<and> (\<forall>x \<in> set ys. \<not> P x)"
    using id_take_nth_drop [of i xs]
    by (intro exI [of _ "take i xs"] exI [of _ "xs ! i"] exI [of _ "drop (Suc i) xs"]) auto
qed (auto simp: position_Some)

lemma remove_at_split [simp]: "remove_at (length ys) (ys @ y # zs) = Some (y, ys @ zs)"
  by (simp add: remove_at_def)

subsection \<open>Sequences of operations\<close>

text \<open>
  A component with a state and operations that may panic, run over a list of inputs: the first
  panic ends the run. The interface that invariant proofs use is the locale \<open>step_system\<close>.
\<close>

fun run_steps :: "('i \<Rightarrow> 's \<Rightarrow> ('o \<times> 's) rust) \<Rightarrow> 'i list \<Rightarrow> 's \<Rightarrow> ('o list \<times> 's) rust" where
  "run_steps f [] s = Inr ([], s)"
| "run_steps f (i # is) s =
     bind_rust (f i s) (\<lambda>(r, s1). bind_rust (run_steps f is s1) (\<lambda>(rs, s2). Inr (r # rs, s2)))"

lemma run_steps_Cons_Inr:
  "run_steps f (i # is) s = Inr (os, s') \<longleftrightarrow>
     (\<exists>r s1 rs. f i s = Inr (r, s1) \<and> run_steps f is s1 = Inr (rs, s') \<and> os = r # rs)"
  by (auto simp: bind_rust_eq_Inr split: prod.splits)

lemma run_steps_append:
  "run_steps f (is @ js) s =
     bind_rust (run_steps f is s) (\<lambda>(rs, s1). bind_rust (run_steps f js s1) (\<lambda>(rs', s2). Inr (rs @ rs', s2)))"
  by (induction "is" arbitrary: s)
    (auto simp: bind_rust_def split: sum.splits)

locale step_system =
  fixes step :: "'i \<Rightarrow> 's \<Rightarrow> ('o \<times> 's) rust"
    and inv :: "'s \<Rightarrow> bool"
    and good :: "'i \<Rightarrow> 's \<Rightarrow> 'o \<Rightarrow> 's \<Rightarrow> bool"
  assumes step_inv: "inv s \<Longrightarrow> step i s = Inr (r, s') \<Longrightarrow> inv s'"
    and step_good: "inv s \<Longrightarrow> step i s = Inr (r, s') \<Longrightarrow> good i s r s'"
begin

lemma run_inv: "inv s \<Longrightarrow> run_steps step is s = Inr (os, s') \<Longrightarrow> inv s'"
  by (induction "is" arbitrary: s os) (auto simp: run_steps_Cons_Inr simp del: run_steps.simps(2) dest: step_inv)

lemma run_length: "run_steps step is s = Inr (os, s') \<Longrightarrow> length os = length is"
  by (induction "is" arbitrary: s os) (auto simp: run_steps_Cons_Inr simp del: run_steps.simps(2))

lemma run_good:
  assumes "inv s" and "run_steps step is s = Inr (os, s')" and "n < length is"
  shows "\<exists>s1 s2. inv s1 \<and> step (is ! n) s1 = Inr (os ! n, s2) \<and> good (is ! n) s1 (os ! n) s2"
  using assms
proof (induction "is" arbitrary: s os n)
  case (Cons i "is")
  then obtain r s1 rs where r: "step i s = Inr (r, s1)" "run_steps step is s1 = Inr (rs, s')" "os = r # rs"
    by (auto simp: run_steps_Cons_Inr simp del: run_steps.simps(2))
  show ?case
  proof (cases n)
    case 0
    then show ?thesis using r Cons.prems(1) step_good by auto
  next
    case (Suc m)
    then show ?thesis
      using Cons.IH [OF step_inv [OF Cons.prems(1) r(1)] r(2), of m] Cons.prems(3) r(3) by auto
  qed
qed simp

end

end
