(* ===== verification/RustStr.thy ===== *)
theory RustStr
  imports Prelude "HOL-Library.Char_ord" "HOL-Library.List_Lexorder"
begin

text \<open>
  Strings of the program. A Rust \<^verbatim>\<open>str\<close> is its UTF-8 encoding, so it is modelled as the list
  of its bytes (\<open>string\<close>, a list of 8-bit characters) and \<^verbatim>\<open>str::len\<close> is \<open>length\<close>.
  Operations that look at Unicode scalar values (\<^verbatim>\<open>trim\<close>, \<^verbatim>\<open>split_whitespace\<close>) first cut
  the bytes into encoded characters (\<open>chars\<close>).

  The theory models the parts of the standard library the program calls on strings: whitespace
  trimming and splitting, \<^verbatim>\<open>splitn\<close>, integer parsing and printing, and \<^verbatim>\<open>Debug\<close> printing.
  Its main lemmas are the round trip of integer printing and parsing and the behaviour of
  \<^verbatim>\<open>split_whitespace\<close> on words separated by single spaces.
\<close>

subsection \<open>Encoded characters\<close>

abbreviation byte :: "char \<Rightarrow> nat" where
  "byte c \<equiv> of_char c"

definition utf8_width :: "char \<Rightarrow> nat" where
  "utf8_width c =
     (if byte c < 128 then 1 else if byte c < 224 then 2 else if byte c < 240 then 3 else 4)"

lemma utf8_width_pos [simp]: "0 < utf8_width c"
  by (simp add: utf8_width_def)

fun chars :: "string \<Rightarrow> string list" where
  "chars [] = []"
| "chars (c # cs) = (c # take (utf8_width c - 1) cs) # chars (drop (utf8_width c - 1) cs)"

lemma concat_chars [simp]: "concat (chars s) = s"
  by (induction s rule: chars.induct) auto

definition ascii :: "string \<Rightarrow> bool" where
  "ascii s \<longleftrightarrow> (\<forall>c \<in> set s. byte c < 128)"

lemma chars_ascii: "ascii s \<Longrightarrow> chars (s @ t) = map (\<lambda>c. [c]) s @ chars t"
  by (induction s) (auto simp: ascii_def utf8_width_def)

text \<open>A string is well formed when no encoded character is cut short.\<close>

definition utf8_char :: "string \<Rightarrow> bool" where
  "utf8_char c \<longleftrightarrow> c \<noteq> [] \<and> length c = utf8_width (hd c)"

definition well_formed :: "string \<Rightarrow> bool" where
  "well_formed s \<longleftrightarrow> (\<forall>c \<in> set (chars s). utf8_char c)"

lemma chars_Cons_char: "utf8_char c \<Longrightarrow> chars (c @ s) = c # chars s"
  by (cases c) (auto simp: utf8_char_def)

lemma chars_concat: "(\<forall>c \<in> set cs. utf8_char c) \<Longrightarrow> chars (concat cs) = cs"
  by (induction cs) (auto simp: chars_Cons_char)

subsection \<open>Whitespace\<close>

text \<open>The \<^verbatim>\<open>White_Space\<close> property of \<^verbatim>\<open>char::is_whitespace\<close>, on the encoded character.\<close>

definition is_whitespace :: "string \<Rightarrow> bool" where
  "is_whitespace c =
     (case map byte c of
        [a] \<Rightarrow> (9 \<le> a \<and> a \<le> 13) \<or> a = 32
      | [a, b] \<Rightarrow> a = 194 \<and> (b = 133 \<or> b = 160)
      | [a, b, d] \<Rightarrow>
          (a = 225 \<and> b = 154 \<and> d = 128) \<or>
          (a = 226 \<and> b = 128 \<and> (128 \<le> d \<and> d \<le> 138 \<or> d = 168 \<or> d = 169 \<or> d = 175)) \<or>
          (a = 226 \<and> b = 129 \<and> d = 159) \<or>
          (a = 227 \<and> b = 128 \<and> d = 128)
      | _ \<Rightarrow> False)"

definition trim_list :: "('a \<Rightarrow> bool) \<Rightarrow> 'a list \<Rightarrow> 'a list" where
  "trim_list P xs = rev (dropWhile P (rev (dropWhile P xs)))"

definition trim :: "string \<Rightarrow> string" where
  "trim s = concat (trim_list is_whitespace (chars s))"

text \<open>Maximal runs of elements that do not satisfy \<open>P\<close>; the accumulator is reversed.\<close>

fun split_runs :: "('a \<Rightarrow> bool) \<Rightarrow> 'a list \<Rightarrow> 'a list \<Rightarrow> 'a list list" where
  "split_runs P acc [] = (if acc = [] then [] else [rev acc])"
| "split_runs P acc (x # xs) =
     (if P x then (if acc = [] then [] else [rev acc]) @ split_runs P [] xs
      else split_runs P (x # acc) xs)"

definition split_whitespace :: "string \<Rightarrow> string list" where
  "split_whitespace s = map concat (split_runs is_whitespace [] (chars s))"

lemma split_runs_dropWhile: "split_runs P [] (dropWhile P xs) = split_runs P [] xs"
  by (induction xs) auto

lemma split_runs_all: "(\<forall>x \<in> set ys. P x) \<Longrightarrow> split_runs P acc (xs @ ys) = split_runs P acc xs"
proof (induction xs arbitrary: acc)
  case Nil
  then have "split_runs P [] ys = []" by (induction ys) auto
  with Nil show ?case by (cases ys) auto
qed auto

lemma split_runs_trim: "split_runs P [] (trim_list P xs) = split_runs P [] xs"
proof -
  let ?ys = "dropWhile P xs"
  have "?ys = trim_list P xs @ rev (takeWhile P (rev ?ys))"
    unfolding trim_list_def
    by (metis rev_append rev_rev_ident takeWhile_dropWhile_id)
  moreover have "\<forall>x \<in> set (rev (takeWhile P (rev ?ys))). P x"
    by (auto dest: set_takeWhileD)
  ultimately have "split_runs P [] ?ys = split_runs P [] (trim_list P xs)"
    by (metis split_runs_all)
  then show ?thesis by (simp add: split_runs_dropWhile)
qed

lemma set_trim_list: "set (trim_list P xs) \<subseteq> set xs"
  unfolding trim_list_def by (auto dest!: set_dropWhileD)

lemma chars_trim: "well_formed s \<Longrightarrow> chars (trim s) = trim_list is_whitespace (chars s)"
  unfolding trim_def well_formed_def
  by (rule chars_concat) (use set_trim_list in fastforce)

lemma dropWhile_idem: "dropWhile P (dropWhile P xs) = dropWhile P xs"
  by (induction xs) auto

lemma trim_list_hd: "trim_list P xs \<noteq> [] \<Longrightarrow> \<not> P (hd (trim_list P xs))"
proof -
  assume ne: "trim_list P xs \<noteq> []"
  let ?ys = "dropWhile P xs"
  obtain zs where "?ys = trim_list P xs @ zs"
    unfolding trim_list_def by (metis rev_append rev_rev_ident takeWhile_dropWhile_id)
  then show ?thesis
    using ne hd_dropWhile [of P xs] by (metis append_is_Nil_conv hd_append2)
qed

lemma trim_list_idem: "trim_list P (trim_list P xs) = trim_list P xs"
proof -
  have "dropWhile P (trim_list P xs) = trim_list P xs"
    using trim_list_hd [of P xs] by (cases "trim_list P xs") auto
  then show ?thesis
    by (simp add: trim_list_def dropWhile_idem)
qed

lemma trim_idem: "well_formed s \<Longrightarrow> trim (trim s) = trim s"
  using chars_trim [of s] by (simp add: trim_def trim_list_idem)

lemma split_whitespace_trim: "well_formed s \<Longrightarrow> split_whitespace (trim s) = split_whitespace s"
  by (simp add: split_whitespace_def chars_trim split_runs_trim)

lemma split_runs_run:
  "(\<forall>x \<in> set xs. \<not> P x) \<Longrightarrow> split_runs P acc (xs @ ys) = split_runs P (rev xs @ acc) ys"
  by (induction xs arbitrary: acc) auto

text \<open>A word: visible ASCII characters only, at least one.\<close>

definition word_char :: "char \<Rightarrow> bool" where
  "word_char c \<longleftrightarrow> 32 < byte c \<and> byte c < 127"

definition word :: "string \<Rightarrow> bool" where
  "word w \<longleftrightarrow> w \<noteq> [] \<and> (\<forall>c \<in> set w. word_char c)"

lemma word_char_not_space: "word_char c \<Longrightarrow> \<not> is_whitespace [c]"
  by (auto simp: word_char_def is_whitespace_def)

lemma space_whitespace [simp]: "is_whitespace '' ''"
  by (simp add: is_whitespace_def)

lemma word_ascii: "word w \<Longrightarrow> ascii w"
  by (auto simp: word_def ascii_def word_char_def)

lemma concat_singletons [simp]: "concat (map (\<lambda>c. [c]) s) = s"
  by (induction s) auto

lemma split_whitespace_word: "word w \<Longrightarrow> split_whitespace w = [w]"
  using chars_ascii [of w "[]"] split_runs_run [of "map (\<lambda>c. [c]) w" is_whitespace "[]" "[]"]
  by (auto simp: split_whitespace_def word_ascii word_def word_char_not_space)

lemma chars_space: "chars (CHR '' '' # s) = '' '' # chars s"
  by (simp add: utf8_width_def)

lemma split_whitespace_word_space:
  assumes "word w"
  shows "split_whitespace (w @ CHR '' '' # s) = w # split_whitespace s"
proof -
  have "\<forall>x \<in> set (map (\<lambda>c. [c]) w). \<not> is_whitespace x"
    using assms by (auto simp: word_def word_char_not_space)
  then have "split_runs is_whitespace [] (map (\<lambda>c. [c]) w @ '' '' # chars s) =
      map (\<lambda>c. [c]) w # split_runs is_whitespace [] (chars s)"
    using assms by (simp add: split_runs_run word_def)
  then show ?thesis
    using assms by (simp add: split_whitespace_def chars_ascii word_ascii chars_space del: chars.simps)
qed

subsection \<open>Splitting at the first space\<close>

text \<open>\<^verbatim>\<open>s.splitn(2, ' ').collect()\<close>: the separator is one ASCII byte.\<close>

fun splitn2 :: "char \<Rightarrow> string \<Rightarrow> string list" where
  "splitn2 c [] = [[]]"
| "splitn2 c (x # xs) =
     (if x = c then [[], xs]
      else case splitn2 c xs of [] \<Rightarrow> [[x]] | a # rest \<Rightarrow> (x # a) # rest)"

lemma splitn2_none: "c \<notin> set s \<Longrightarrow> splitn2 c s = [s]"
  by (induction s) auto

lemma splitn2_first: "c \<notin> set a \<Longrightarrow> splitn2 c (a @ c # b) = [a, b]"
  by (induction a) auto

lemma splitn2_cases:
  obtains "c \<notin> set s" "splitn2 c s = [s]"
  | a b where "s = a @ c # b" "c \<notin> set a" "splitn2 c s = [a, b]"
proof (cases "c \<in> set s")
  case True
  then obtain a b where "s = a @ c # b" "c \<notin> set a"
    by (meson split_list_first)
  then show ?thesis using that(2) splitn2_first by blast
next
  case False
  then show ?thesis using that(1) splitn2_none by blast
qed

subsection \<open>Integers as text\<close>

definition digit_char :: "nat \<Rightarrow> char" where
  "digit_char d = char_of (48 + d)"

definition is_digit :: "char \<Rightarrow> bool" where
  "is_digit c \<longleftrightarrow> 48 \<le> byte c \<and> byte c \<le> 57"

fun show_nat :: "nat \<Rightarrow> string" where
  "show_nat n = (if n < 10 then [digit_char n] else show_nat (n div 10) @ [digit_char (n mod 10)])"

declare show_nat.simps [simp del]

definition show_int :: "int \<Rightarrow> string" where
  "show_int i = (if i < 0 then CHR ''-'' # show_nat (nat (- i)) else show_nat (nat i))"

definition digits_value :: "string \<Rightarrow> nat" where
  "digits_value s = foldl (\<lambda>v c. 10 * v + (byte c - 48)) 0 s"

text \<open>
  \<^verbatim>\<open>str::parse::<i64>\<close>: an optional sign, then at least one decimal digit and nothing else; a
  value outside the type's range is an error as well.
\<close>

definition strip_sign :: "string \<Rightarrow> bool \<times> string" where
  "strip_sign s =
     (case s of
        [] \<Rightarrow> (False, [])
      | c # cs \<Rightarrow> if c = CHR ''-'' then (True, cs) else if c = CHR ''+'' then (False, cs) else (False, s))"

definition parse_i64 :: "string \<Rightarrow> i64 option" where
  "parse_i64 s =
     (let (neg, ds) = strip_sign s;
          v = (if neg then - int (digits_value ds) else int (digits_value ds))
      in if ds \<noteq> [] \<and> list_all is_digit ds \<and> in_i64 v then Some v else None)"

lemma byte_digit_char: "d < 10 \<Longrightarrow> byte (digit_char d) = 48 + d"
  by (simp add: digit_char_def)

lemma is_digit_digit_char: "d < 10 \<Longrightarrow> is_digit (digit_char d)"
  by (simp add: is_digit_def byte_digit_char)

lemma show_nat_digits: "list_all is_digit (show_nat n)"
proof (induction n rule: show_nat.induct)
  case (1 n)
  then show ?case by (subst show_nat.simps) (auto simp: is_digit_digit_char)
qed

lemma show_nat_nonempty [simp]: "show_nat n \<noteq> []"
  by (subst show_nat.simps) simp

lemma digits_value_show_nat: "digits_value (show_nat n) = n"
proof (induction n rule: show_nat.induct)
  case (1 n)
  then show ?case
    by (subst show_nat.simps) (auto simp: digits_value_def byte_digit_char)
qed

lemma is_digit_not_sign: "is_digit c \<Longrightarrow> c \<noteq> CHR ''-'' \<and> c \<noteq> CHR ''+''"
  by (auto simp: is_digit_def)

lemma strip_sign_show_int: "strip_sign (show_int i) = (i < 0, show_nat (nat \<bar>i\<bar>))"
proof -
  obtain c cs where eq: "show_nat (nat i) = c # cs"
    using show_nat_nonempty by (meson neq_Nil_conv)
  then have "is_digit c"
    using show_nat_digits [of "nat i"] by simp
  then show ?thesis
    by (auto simp: show_int_def strip_sign_def eq dest: is_digit_not_sign)
qed

theorem parse_show_i64: "parse_i64 (show_int i) = (if in_i64 i then Some i else None)"
  by (auto simp: parse_i64_def strip_sign_show_int show_nat_digits digits_value_show_nat)

lemma parse_i64_in_range: "parse_i64 s = Some v \<Longrightarrow> in_i64 v"
  by (auto simp: parse_i64_def Let_def split: prod.splits if_splits)

lemma digit_word_char: "is_digit c \<Longrightarrow> word_char c"
  by (auto simp: is_digit_def word_char_def)

lemma word_show_nat: "word (show_nat n)"
  using show_nat_digits [of n] by (auto simp: word_def list_all_iff intro: digit_word_char)

lemma word_Cons: "word_char c \<Longrightarrow> word w \<Longrightarrow> word (c # w)"
  by (simp add: word_def)

lemma word_show_int: "word (show_int i)"
  by (auto simp: show_int_def word_show_nat word_char_def intro: word_Cons)

subsection \<open>Debug printing\<close>

text \<open>
  \<^verbatim>\<open>{:?}\<close> of a \<^verbatim>\<open>str\<close>: quotes, and the escapes of \<^verbatim>\<open>char::escape_debug\<close> for ASCII;
  bytes of other characters are passed through (the program only prints its four tool names
  this way). \<^verbatim>\<open>{:?}\<close> of a \<^verbatim>\<open>Vec\<close>: brackets and a comma between the elements.
\<close>

definition hex_char :: "nat \<Rightarrow> char" where
  "hex_char d = (if d < 10 then char_of (48 + d) else char_of (87 + d))"

definition escape_debug :: "char \<Rightarrow> string" where
  "escape_debug c =
     (if byte c = 0 then [CHR 0x5C, CHR ''0'']
      else if byte c = 9 then [CHR 0x5C, CHR ''t'']
      else if byte c = 10 then [CHR 0x5C, CHR ''n'']
      else if byte c = 13 then [CHR 0x5C, CHR ''r'']
      else if byte c = 34 \<or> byte c = 92 then [CHR 0x5C, c]
      else if byte c < 32 \<or> byte c = 127
      then [CHR 0x5C, CHR ''u'', CHR ''{''] @ (if byte c < 16 then [] else [hex_char (byte c div 16)])
             @ [hex_char (byte c mod 16)] @ ''}''
      else [c])"

definition debug_str :: "string \<Rightarrow> string" where
  "debug_str s = [CHR 0x22] @ concat (map escape_debug s) @ [CHR 0x22]"

fun join :: "string \<Rightarrow> string list \<Rightarrow> string" where
  "join sep [] = []"
| "join sep [x] = x"
| "join sep (x # y # xs) = x @ sep @ join sep (y # xs)"

definition debug_list :: "string list \<Rightarrow> string" where
  "debug_list xs = ''['' @ join '', '' (map debug_str xs) @ '']''"

end
