(* ===== verification/FloatFmt.thy ===== *)
theory FloatFmt
  imports RustStr
begin

text \<open>
  The floating-point percentage of \<^verbatim>\<open>ContextWindow::status\<close>. A finite non-negative
  \<^verbatim>\<open>f64\<close> is the fraction it denotes; every operation computes the exact fraction and rounds it
  to 53 significant bits, half to even, as IEEE 754 requires. The operands are unsigned 64-bit
  integers, their quotients and 100, so neither subnormal numbers nor overflow to infinity occur
  apart from division by zero. \<^verbatim>\<open>{:.1}\<close> rounds the exact decimal expansion half to even.
\<close>

type_synonym f64 = "nat \<times> nat"

definition round_half_even :: "nat \<Rightarrow> nat \<Rightarrow> nat" where
  "round_half_even a b =
     (let q = a div b; r = a mod b
      in if 2 * r < b \<or> (2 * r = b \<and> even q) then q else Suc q)"

fun ilog2 :: "nat \<Rightarrow> nat" where
  "ilog2 n = (if n < 2 then 0 else Suc (ilog2 (n div 2)))"

declare ilog2.simps [simp del]

definition scale :: "nat \<Rightarrow> nat \<Rightarrow> int \<Rightarrow> nat \<times> nat" where
  "scale a b k = (if 0 \<le> k then (a * 2 ^ nat k, b) else (a, b * 2 ^ nat (- k)))"

definition mantissa_exp :: "nat \<Rightarrow> nat \<Rightarrow> int" where
  "mantissa_exp a b =
     (let k = 52 + int (ilog2 b) - int (ilog2 a); (x, y) = scale a b k
      in if x < 2 ^ 52 * y then k + 1 else k)"

definition round_f64 :: "nat \<Rightarrow> nat \<Rightarrow> f64" where
  "round_f64 a b =
     (if a = 0 then (0, 1)
      else let k = mantissa_exp a b; (x, y) = scale a b k; m = round_half_even x y
        in if 0 \<le> k then (m, 2 ^ nat k) else (m * 2 ^ nat (- k), 1))"

definition f64_of_usize :: "usize \<Rightarrow> f64" where
  "f64_of_usize n = round_f64 n 1"

definition f64_div :: "f64 \<Rightarrow> f64 \<Rightarrow> f64" where
  "f64_div x y = round_f64 (fst x * snd y) (snd x * fst y)"

definition f64_mul :: "f64 \<Rightarrow> f64 \<Rightarrow> f64" where
  "f64_mul x y = round_f64 (fst x * fst y) (snd x * snd y)"

definition show_f64_1 :: "f64 \<Rightarrow> string" where
  "show_f64_1 x =
     (let t = round_half_even (10 * fst x) (snd x)
      in show_nat (t div 10) @ ''.'' @ show_nat (t mod 10))"

text \<open>\<^verbatim>\<open>{:.1}\<close> of \<^verbatim>\<open>(cur as f64 / max as f64) * 100.0\<close>.\<close>

definition show_percent :: "usize \<Rightarrow> usize \<Rightarrow> string" where
  "show_percent cur mx =
     (if mx = 0 then (if cur = 0 then ''NaN'' else ''inf'')
      else show_f64_1 (f64_mul (f64_div (f64_of_usize cur) (f64_of_usize mx)) (100, 1)))"

end
