(* ===== verification/Context.thy ===== *)
theory Context
  imports FloatFmt
begin

text \<open>
  The context window of \<^verbatim>\<open>src/agent/context.rs\<close>: a bounded sequence of messages from which
  the oldest messages that are not system prompts are evicted to make room for a new one.

  The abstract view is \<open>drop_oldest\<close>, which removes the first \<open>k\<close> non-system messages; the
  lemmas show that the eviction loop computes it for the least sufficient \<open>k\<close>, that it always
  terminates, keeps the token counter equal to the sum over the messages, and never touches a
  system message.
\<close>

subsection \<open>Data\<close>

datatype role = System | User | Assistant | Tool

fun role_as_str :: "role \<Rightarrow> string" where
  "role_as_str System = ''system''"
| "role_as_str User = ''user''"
| "role_as_str Assistant = ''assistant''"
| "role_as_str Tool = ''tool''"

record message =
  role :: role
  content :: string
  token_count :: usize

record context_window =
  messages :: "message list"
  max_tokens :: usize
  current_tokens :: usize
  total_evicted :: usize

subsection \<open>Operations\<close>

definition context_new :: "usize \<Rightarrow> context_window" where
  "context_new mx = \<lparr>messages = [], max_tokens = mx, current_tokens = 0, total_evicted = 0\<rparr>"

definition estimate_tokens :: "string \<Rightarrow> usize" where
  "estimate_tokens body = (let count = length body div 4 in if count = 0 then 1 else count)"

definition evict_oldest :: "context_window \<Rightarrow> (message \<times> context_window) option" where
  "evict_oldest cw =
     (case position (\<lambda>m. role m \<noteq> System) (messages cw) of
        None \<Rightarrow> None
      | Some idx \<Rightarrow>
          (case remove_at idx (messages cw) of
             None \<Rightarrow> None
           | Some (msg, rest) \<Rightarrow>
               Some (msg, cw\<lparr>messages := rest,
                             current_tokens := saturating_sub (current_tokens cw) (token_count msg)\<rparr>)))"

definition eviction_line :: "message \<Rightarrow> usize \<Rightarrow> console" where
  "eviction_line m evicted_so_far =
     serial_println (''[context] Evicted '' @ role_as_str (role m) @ '' message ('' @
       show_nat (token_count m) @ '' tokens). Total evicted: '' @ show_nat evicted_so_far)"

lemma evict_oldest_shrinks:
  "evict_oldest cw = Some (m, cw') \<Longrightarrow> length (messages cw') < length (messages cw)"
  by (auto simp: evict_oldest_def remove_at_def split: option.splits if_splits)

text \<open>The \<^verbatim>\<open>while\<close> loop of \<^verbatim>\<open>push_message\<close>, with the lines it logs.\<close>

function evict_loop ::
  "profile \<Rightarrow> usize \<Rightarrow> context_window \<Rightarrow> console list \<Rightarrow> (context_window \<times> console list) rust" where
  "evict_loop p tc cw out =
     bind_rust (u64_add p (current_tokens cw) tc) (\<lambda>needed.
       if max_tokens cw < needed
       then case evict_oldest cw of
              Some (evicted, cw') \<Rightarrow>
                bind_rust (u64_add p (total_evicted cw') 1) (\<lambda>n.
                  evict_loop p tc (cw'\<lparr>total_evicted := n\<rparr>) (out @ [eviction_line evicted n]))
            | None \<Rightarrow> Inr (cw, out)
       else Inr (cw, out))"
  by pat_completeness auto
termination
  by (relation "measure (\<lambda>(p, tc, cw, out). length (messages cw))")
    (auto dest: evict_oldest_shrinks)

declare evict_loop.simps [simp del]

definition push_message ::
  "profile \<Rightarrow> role \<Rightarrow> string \<Rightarrow> context_window \<Rightarrow> (context_window \<times> console list) rust" where
  "push_message p r body cw =
     (let tc = estimate_tokens body
      in bind_rust (evict_loop p tc cw []) (\<lambda>(cw, out).
           bind_rust (u64_add p (current_tokens cw) tc) (\<lambda>cur.
             Inr (cw\<lparr>current_tokens := cur,
                     messages := messages cw @ [\<lparr>role = r, content = body, token_count = tc\<rparr>]\<rparr>, out))))"

definition message_count :: "context_window \<Rightarrow> usize" where
  "message_count cw = length (messages cw)"

definition status :: "context_window \<Rightarrow> string" where
  "status cw =
     ''Context Window Status:'' @ [CHR 0x0A] @
     ''Tokens: '' @ show_nat (current_tokens cw) @ ''/'' @ show_nat (max_tokens cw) @
     '' ('' @ show_percent (current_tokens cw) (max_tokens cw) @ ''% full)'' @ [CHR 0x0A] @
     ''Messages: '' @ show_nat (message_count cw) @ [CHR 0x0A] @
     ''Evicted: '' @ show_nat (total_evicted cw)"

subsection \<open>Invariant and abstract view\<close>

definition tokens :: "message list \<Rightarrow> nat" where
  "tokens ms = sum_list (map token_count ms)"

definition evictable :: "message \<Rightarrow> bool" where
  "evictable m \<longleftrightarrow> role m \<noteq> System"

definition window_inv :: "context_window \<Rightarrow> bool" where
  "window_inv cw \<longleftrightarrow>
     current_tokens cw = tokens (messages cw) \<and>
     (\<forall>m \<in> set (messages cw). token_count m = estimate_tokens (content m))"

fun drop_oldest :: "nat \<Rightarrow> message list \<Rightarrow> message list" where
  "drop_oldest 0 ms = ms"
| "drop_oldest (Suc k) [] = []"
| "drop_oldest (Suc k) (m # ms) =
     (if evictable m then drop_oldest k ms else m # drop_oldest (Suc k) ms)"

lemma tokens_simps [simp]:
  "tokens [] = 0" "tokens (m # ms) = token_count m + tokens ms"
  "tokens (ms @ ns) = tokens ms + tokens ns"
  by (simp_all add: tokens_def)

lemma drop_oldest_Suc: "drop_oldest (Suc k) ms = drop_oldest k (drop_oldest 1 ms)"
proof (induction ms)
  case (Cons m ms)
  then show ?case by (cases k) auto
qed (cases k, auto)

lemma drop_oldest_evictable: "filter evictable (drop_oldest k ms) = drop k (filter evictable ms)"
  by (induction k ms rule: drop_oldest.induct) auto

lemma drop_oldest_system:
  "filter (\<lambda>m. \<not> evictable m) (drop_oldest k ms) = filter (\<lambda>m. \<not> evictable m) ms"
  by (induction k ms rule: drop_oldest.induct) auto

lemma drop_oldest_all:
  assumes "filter evictable (drop_oldest k ms) = []"
  shows "drop_oldest k ms = filter (\<lambda>m. role m = System) ms"
proof -
  have "filter (\<lambda>m. \<not> evictable m) (drop_oldest k ms) = drop_oldest k ms"
    using assms by (simp add: filter_empty_conv filter_id_conv)
  then show ?thesis
    using drop_oldest_system [of k ms] by (simp add: evictable_def)
qed

lemma drop_oldest_tokens: "tokens (drop_oldest k ms) \<le> tokens ms"
  by (induction k ms rule: drop_oldest.induct) auto

lemma drop_oldest_length: "length (drop_oldest k ms) \<le> length ms"
  by (induction k ms rule: drop_oldest.induct) auto

lemma drop_oldest_set: "set (drop_oldest k ms) \<subseteq> set ms"
  by (induction k ms rule: drop_oldest.induct) auto

lemma drop_oldest_split:
  "(\<forall>x \<in> set xs. \<not> evictable x) \<Longrightarrow> evictable m \<Longrightarrow> drop_oldest 1 (xs @ m # ys) = xs @ ys"
  by (induction xs) auto

subsection \<open>The eviction loop\<close>

lemma evict_oldest_None: "evict_oldest cw = None \<longleftrightarrow> filter evictable (messages cw) = []"
  by (auto simp: evict_oldest_def remove_at_def position_None position_Some filter_empty_conv
      evictable_def split: option.splits)

lemma evict_oldest_Some:
  assumes "evict_oldest cw = Some (m, cw')" and "window_inv cw"
  shows "cw' = cw\<lparr>messages := drop_oldest 1 (messages cw),
                   current_tokens := tokens (drop_oldest 1 (messages cw))\<rparr>"
    and "filter evictable (messages cw) = m # filter evictable (messages cw')"
    and "window_inv cw'"
proof -
  from assms(1) obtain xs ys where ms: "messages cw = xs @ m # ys" "evictable m"
      "\<forall>x \<in> set xs. \<not> evictable x"
    and cw': "cw' = cw\<lparr>messages := xs @ ys, current_tokens := current_tokens cw - token_count m\<rparr>"
    by (auto simp: evict_oldest_def position_split evictable_def split: option.splits)
  have drop: "drop_oldest 1 (messages cw) = xs @ ys"
    using drop_oldest_split ms by metis
  show "cw' = cw\<lparr>messages := drop_oldest 1 (messages cw),
                  current_tokens := tokens (drop_oldest 1 (messages cw))\<rparr>"
    using assms(2) unfolding drop by (simp add: cw' window_inv_def ms)
  show "filter evictable (messages cw) = m # filter evictable (messages cw')"
    using ms by (simp add: cw')
  show "window_inv cw'"
    using assms(2) by (auto simp: cw' window_inv_def ms)
qed

text \<open>The lines logged when the first \<open>k\<close> of the evictable messages go.\<close>

definition eviction_log :: "context_window \<Rightarrow> nat \<Rightarrow> console list" where
  "eviction_log cw k =
     map (\<lambda>i. eviction_line (filter evictable (messages cw) ! i) (total_evicted cw + i + 1)) [0..<k]"

definition evicted_window :: "context_window \<Rightarrow> nat \<Rightarrow> context_window" where
  "evicted_window cw k =
     cw\<lparr>messages := drop_oldest k (messages cw),
        current_tokens := tokens (drop_oldest k (messages cw)),
        total_evicted := total_evicted cw + k\<rparr>"

text \<open>\<open>k\<close> evictions are exactly what a message of \<open>tc\<close> tokens needs.\<close>

definition least_evictions :: "context_window \<Rightarrow> usize \<Rightarrow> nat \<Rightarrow> bool" where
  "least_evictions cw tc k \<longleftrightarrow>
     k \<le> length (filter evictable (messages cw)) \<and>
     (\<forall>j < k. max_tokens cw < tokens (drop_oldest j (messages cw)) + tc) \<and>
     (tokens (drop_oldest k (messages cw)) + tc \<le> max_tokens cw \<or>
      filter evictable (drop_oldest k (messages cw)) = [])"

lemma least_evictions_Suc:
  assumes "max_tokens cw < tokens (messages cw) + tc"
    and "filter evictable (messages cw) = m # ns"
    and "messages cw' = drop_oldest 1 (messages cw)" and "max_tokens cw' = max_tokens cw"
    and "least_evictions cw' tc k"
  shows "least_evictions cw tc (Suc k)"
proof -
  have "max_tokens cw < tokens (drop_oldest j (messages cw)) + tc" if "j < Suc k" for j
  proof (cases j)
    case (Suc i)
    with assms(3-5) that show ?thesis
      unfolding Suc drop_oldest_Suc [of i] by (simp add: least_evictions_def)
  qed (use assms(1) in simp)
  moreover have "filter evictable (drop_oldest 1 (messages cw)) = ns"
    using assms(2) by (simp add: drop_oldest_evictable)
  ultimately show ?thesis
    using assms(2-5) unfolding least_evictions_def drop_oldest_Suc [of k] by simp
qed

lemma eviction_log_Suc:
  assumes "filter evictable (messages cw) = m # filter evictable (messages cw')"
    and "total_evicted cw' = Suc (total_evicted cw)"
  shows "eviction_log cw (Suc k) = eviction_line m (Suc (total_evicted cw)) # eviction_log cw' k"
proof -
  have "[0..<Suc k] = 0 # map Suc [0..<k]"
    by (simp add: map_Suc_upt upt_conv_Cons del: upt_Suc)
  then show ?thesis
    using assms unfolding eviction_log_def by (simp del: upt_Suc)
qed

text \<open>
  The arithmetic of the loop stays in range: either the counters leave room, or the run with
  overflow checks is known to succeed. Both profiles then behave alike.
\<close>

definition window_room :: "usize \<Rightarrow> context_window \<Rightarrow> bool" where
  "window_room tc cw \<longleftrightarrow>
     tokens (messages cw) + tc < u64_bound \<and>
     total_evicted cw + length (messages cw) < u64_bound"

lemma evict_loop_step:
  assumes "evict_oldest cw = Some (m, cw1)" and "window_inv cw"
    and "max_tokens cw < tokens (messages cw) + tc"
    and "window_room tc cw \<or> (\<exists>r. evict_loop Debug tc cw out = Inr r)"
  defines "cw2 \<equiv> cw1\<lparr>total_evicted := Suc (total_evicted cw)\<rparr>"
    and "out2 \<equiv> out @ [eviction_line m (Suc (total_evicted cw))]"
  shows "tokens (messages cw) + tc < u64_bound" and "Suc (total_evicted cw) < u64_bound"
    and "evict_loop p tc cw out = evict_loop p tc cw2 out2"
    and "window_room tc cw2 \<or> (\<exists>r. evict_loop Debug tc cw2 out2 = Inr r)"
proof -
  note cw1 = evict_oldest_Some [OF assms(1,2)]
  have cur: "current_tokens cw = tokens (messages cw)" "total_evicted cw1 = total_evicted cw"
    using assms(2) cw1(1) by (simp_all add: window_inv_def)
  have len: "length (messages cw1) < length (messages cw)"
    by (rule evict_oldest_shrinks [OF assms(1)])
  show fits: "tokens (messages cw) + tc < u64_bound" and total: "Suc (total_evicted cw) < u64_bound"
    using assms(1,3,4) len cur
    by (auto simp: window_room_def evict_loop.simps [of Debug tc cw out] bind_rust_eq_Inr u64_add_Debug_Inr)
  have eq: "evict_loop p tc cw out = evict_loop p tc cw2 out2" for p
    using assms(1,3) fits total cur
    by (simp add: evict_loop.simps [of p tc cw out] cw2_def out2_def)
  then show "evict_loop p tc cw out = evict_loop p tc cw2 out2" .
  have "tokens (messages cw1) \<le> tokens (messages cw)"
    using cw1(1) drop_oldest_tokens by simp
  then have "window_room tc cw2" if "window_room tc cw"
    using that len by (simp add: window_room_def cw2_def)
  then show "window_room tc cw2 \<or> (\<exists>r. evict_loop Debug tc cw2 out2 = Inr r)"
    using assms(4) eq by auto
qed

lemma evict_loop_correct:
  assumes "window_inv cw" and "window_room tc cw \<or> (\<exists>r. evict_loop Debug tc cw out = Inr r)"
  shows "tokens (messages cw) + tc < u64_bound \<and>
         (\<exists>k. least_evictions cw tc k \<and>
           evict_loop p tc cw out = Inr (evicted_window cw k, out @ eviction_log cw k))"
  using assms
proof (induction "length (messages cw)" arbitrary: cw out rule: less_induct)
  case less
  note unfold = evict_loop.simps [of p tc cw out]
  have cur: "current_tokens cw = tokens (messages cw)"
    using less.prems(1) by (simp add: window_inv_def)
  have fits: "tokens (messages cw) + tc < u64_bound"
    using less.prems(2) cur
    by (auto simp: window_room_def evict_loop.simps [of Debug tc cw out] bind_rust_eq_Inr u64_add_Debug_Inr)
  have stop: "evicted_window cw 0 = cw" "eviction_log cw 0 = []"
    using cur by (simp_all add: evicted_window_def eviction_log_def)
  show ?case
  proof (cases "max_tokens cw < tokens (messages cw) + tc \<and> evict_oldest cw \<noteq> None")
    case False
    then show ?thesis
      using fits by (intro conjI exI [of _ 0])
        (auto simp: unfold cur stop least_evictions_def evict_oldest_None [symmetric]
          simp del: not_None_eq split: option.split)
  next
    case True
    then obtain m cw1 where full: "max_tokens cw < tokens (messages cw) + tc"
      and e: "evict_oldest cw = Some (m, cw1)" by auto
    define cw2 where "cw2 = cw1\<lparr>total_evicted := Suc (total_evicted cw)\<rparr>"
    note cw1 = evict_oldest_Some [OF e less.prems(1)]
    note step = evict_loop_step [OF e less.prems(1) full less.prems(2), folded cw2_def]
    have cw2: "messages cw2 = drop_oldest 1 (messages cw)" "max_tokens cw2 = max_tokens cw"
        "window_inv cw2" "length (messages cw2) < length (messages cw)"
      using cw1 evict_oldest_shrinks [OF e] by (simp_all add: cw2_def window_inv_def)
    obtain k where k: "least_evictions cw2 tc k"
        "evict_loop p tc cw out = Inr (evicted_window cw2 k,
           (out @ [eviction_line m (Suc (total_evicted cw))]) @ eviction_log cw2 k)"
      using less.hyps [OF cw2(4,3) step(4)] step(3) by auto
    have "least_evictions cw tc (Suc k)"
      using least_evictions_Suc full cw1(2) cw2(1,2) k(1) by blast
    moreover have "evicted_window cw2 k = evicted_window cw (Suc k)"
      using cw1(1) unfolding evicted_window_def drop_oldest_Suc [of k] by (simp add: cw2_def)
    moreover have "eviction_log cw (Suc k) =
        eviction_line m (Suc (total_evicted cw)) # eviction_log cw2 k"
      using cw1(2) by (intro eviction_log_Suc) (simp_all add: cw2_def)
    ultimately show ?thesis
      using fits k(2) by auto
  qed
qed

subsection \<open>Pushing a message\<close>

definition new_message :: "role \<Rightarrow> string \<Rightarrow> message" where
  "new_message r body = \<lparr>role = r, content = body, token_count = estimate_tokens body\<rparr>"

text \<open>What a push does, as a relation between the window before and after it.\<close>

definition pushed :: "role \<Rightarrow> string \<Rightarrow> context_window \<Rightarrow> nat \<Rightarrow> context_window \<Rightarrow> bool" where
  "pushed r body cw k cw' \<longleftrightarrow>
     least_evictions cw (estimate_tokens body) k \<and>
     messages cw' = drop_oldest k (messages cw) @ [new_message r body] \<and>
     max_tokens cw' = max_tokens cw \<and>
     total_evicted cw' = total_evicted cw + k \<and>
     window_inv cw'"

lemma push_message_pushed:
  assumes "window_inv cw"
    and "window_room (estimate_tokens body) cw \<or> (\<exists>r'. push_message Debug r body cw = Inr r')"
  shows "\<exists>k cw'. push_message p r body cw = Inr (cw', eviction_log cw k) \<and> pushed r body cw k cw'"
proof -
  let ?tc = "estimate_tokens body"
  have "window_room ?tc cw \<or> (\<exists>r'. evict_loop Debug ?tc cw [] = Inr r')"
    using assms(2) by (auto simp: push_message_def Let_def bind_rust_eq_Inr)
  then obtain k where fits: "tokens (messages cw) + ?tc < u64_bound"
    and k: "least_evictions cw ?tc k" "evict_loop p ?tc cw [] = Inr (evicted_window cw k, eviction_log cw k)"
    using evict_loop_correct [OF assms(1), of ?tc "[]" p] by auto
  have "tokens (drop_oldest k (messages cw)) + ?tc < u64_bound"
    using fits drop_oldest_tokens [of k "messages cw"] by simp
  then show ?thesis
    using k assms(1) drop_oldest_set [of k "messages cw"]
    by (intro exI [of _ k])
      (auto simp: pushed_def push_message_def Let_def evicted_window_def new_message_def window_inv_def)
qed

lemma least_evictions_unique:
  assumes "least_evictions cw tc j" and "least_evictions cw tc k"
  shows "j = k"
proof -
  have "\<not> j < k" if "least_evictions cw tc j" "least_evictions cw tc k" for j k
    using that by (force simp: least_evictions_def drop_oldest_evictable)
  then show ?thesis using assms by (metis linorder_neq_iff)
qed

lemma pushed_unique: "pushed r body cw j cw1 \<Longrightarrow> pushed r body cw k cw2 \<Longrightarrow> j = k \<and> cw1 = cw2"
  by (auto simp: pushed_def window_inv_def dest: least_evictions_unique)

lemma push_message_Debug:
  assumes "window_inv cw" and "push_message Debug r body cw = Inr (cw', out)"
  obtains k where "pushed r body cw k cw'" and "out = eviction_log cw k"
    and "\<And>p. push_message p r body cw = Inr (cw', out)"
proof -
  have fits: "window_room (estimate_tokens body) cw \<or> (\<exists>r'. push_message Debug r body cw = Inr r')"
    using assms(2) by blast
  then obtain k where k: "out = eviction_log cw k" "pushed r body cw k cw'"
    using push_message_pushed [OF assms(1), of body r Debug] assms(2) by auto
  moreover have "push_message p r body cw = Inr (cw', out)" for p
    using push_message_pushed [OF assms(1) fits, of p] k pushed_unique by blast
  ultimately show ?thesis using that by blast
qed

lemma pushed_evictable:
  "pushed r body cw k cw' \<Longrightarrow>
   filter evictable (messages cw') =
     drop k (filter evictable (messages cw)) @ filter evictable [new_message r body]"
  by (simp add: pushed_def drop_oldest_evictable)

lemma pushed_system:
  "pushed r body cw k cw' \<Longrightarrow>
   filter (\<lambda>m. \<not> evictable m) (messages cw') =
     filter (\<lambda>m. \<not> evictable m) (messages cw) @ filter (\<lambda>m. \<not> evictable m) [new_message r body]"
  by (simp add: pushed_def drop_oldest_system)

lemma pushed_bounded:
  "pushed r body cw k cw' \<Longrightarrow>
   current_tokens cw' \<le> max_tokens cw' \<or> filter evictable (butlast (messages cw')) = []"
  by (auto simp: pushed_def least_evictions_def window_inv_def new_message_def)

lemma window_inv_new [simp]: "window_inv (context_new mx)"
  by (simp add: window_inv_def context_new_def)

text \<open>Room for \<open>n\<close> more pushes of \<open>t\<close> tokens together.\<close>

definition room_for :: "nat \<Rightarrow> nat \<Rightarrow> context_window \<Rightarrow> bool" where
  "room_for t n cw \<longleftrightarrow>
     tokens (messages cw) + t < u64_bound \<and> total_evicted cw + length (messages cw) + n \<le> u64_bound"

lemma room_for_mono: "room_for t n cw \<Longrightarrow> t' \<le> t \<Longrightarrow> n' \<le> n \<Longrightarrow> room_for t' n' cw"
  by (auto simp: room_for_def)

lemma estimate_tokens_le: "estimate_tokens body \<le> length body + 1"
  using div_le_dividend [of "length body" 4] by (auto simp: estimate_tokens_def Let_def)

lemma drop_oldest_length_eq:
  "k \<le> length (filter evictable ms) \<Longrightarrow> length (drop_oldest k ms) + k = length ms"
  by (induction k ms rule: drop_oldest.induct) auto

lemma push_room:
  assumes "window_inv cw" and "room_for (estimate_tokens body + t) (Suc n) cw"
  obtains k cw' where "push_message p r body cw = Inr (cw', eviction_log cw k)"
    and "pushed r body cw k cw'" and "room_for t n cw'"
proof -
  have "window_room (estimate_tokens body) cw"
    using assms(2) by (simp add: room_for_def window_room_def)
  then obtain k cw' where k: "push_message p r body cw = Inr (cw', eviction_log cw k)" "pushed r body cw k cw'"
    using push_message_pushed [OF assms(1)] by blast
  have "length (drop_oldest k (messages cw)) + k = length (messages cw)"
    using k(2) by (intro drop_oldest_length_eq) (simp add: pushed_def least_evictions_def)
  then have "room_for t n cw'"
    using k(2) assms(2) drop_oldest_tokens [of k "messages cw"]
    by (simp add: room_for_def pushed_def new_message_def)
  with k that show ?thesis by blast
qed

subsection \<open>Properties\<close>

text \<open>
  C2: Pushing a message succeeds whenever the counters stay within 64 bits, evicts the oldest
  non-system messages only, exactly as many as needed (the least number after which the new message fits, or all of
  them when it never fits), logs one line per eviction, appends the new message and keeps the
  token counter equal to the sum over the messages.
\<close>

theorem push_message_evicts_least:
  assumes "window_inv cw" and "window_room (estimate_tokens body) cw"
  shows "\<exists>k cw'. push_message p r body cw = Inr (cw', eviction_log cw k) \<and>
    k \<le> length (filter evictable (messages cw)) \<and>
    (\<forall>j < k. max_tokens cw < tokens (drop_oldest j (messages cw)) + estimate_tokens body) \<and>
    (tokens (drop_oldest k (messages cw)) + estimate_tokens body \<le> max_tokens cw \<or>
     k = length (filter evictable (messages cw))) \<and>
    messages cw' = drop_oldest k (messages cw) @ [\<lparr>role = r, content = body, token_count = estimate_tokens body\<rparr>] \<and>
    max_tokens cw' = max_tokens cw \<and> total_evicted cw' = total_evicted cw + k \<and>
    current_tokens cw' = tokens (messages cw')"
  using push_message_pushed [of cw body r p] assms
  by (fastforce simp: pushed_def least_evictions_def window_inv_def new_message_def drop_oldest_evictable)

definition example_window :: context_window where
  "example_window =
     \<lparr>messages = [new_message System ''prompt'', new_message User ''hello, agent'', new_message Assistant ''hi''],
      max_tokens = 6, current_tokens = 5, total_evicted = 0\<rparr>"

lemmas example_window_simps =
  example_window_def new_message_def estimate_tokens_def window_inv_def window_room_def u64_bound_def

theorem push_message_evicts_least_witness:
  "\<exists>k cw'. push_message Release User ''how are you?'' example_window = Inr (cw', eviction_log example_window k) \<and>
    messages cw' = drop_oldest k (messages example_window) @
      [\<lparr>role = User, content = ''how are you?'', token_count = 3\<rparr>]"
proof -
  have "window_inv example_window" and "window_room (estimate_tokens ''how are you?'') example_window"
    by (simp_all add: example_window_simps)
  from push_message_evicts_least [OF this, of Release User] show ?thesis
    by (auto simp: estimate_tokens_def)
qed

text \<open>
  C11: System messages are never evicted and the others leave in first-in first-out order: the
  system messages before a push are a prefix of those after it, and the non-system messages
  after a push are a suffix of those before it followed by the new one.
\<close>

theorem push_message_keeps_system:
  assumes "window_inv cw" and "push_message Debug r body cw = Inr (cw', out)"
  shows "filter (\<lambda>m. role m = System) (messages cw') =
      filter (\<lambda>m. role m = System) (messages cw) @ (if r = System then [new_message r body] else []) \<and>
    (\<exists>k. filter (\<lambda>m. role m \<noteq> System) (messages cw') =
      drop k (filter (\<lambda>m. role m \<noteq> System) (messages cw)) @ (if r = System then [] else [new_message r body]))"
proof -
  obtain k where k: "pushed r body cw k cw'"
    using assms by (rule push_message_Debug)
  have "filter (\<lambda>m. role m = System) (messages cw') =
      filter (\<lambda>m. role m = System) (messages cw) @ (if r = System then [new_message r body] else [])"
    using pushed_system [OF k] by (simp add: evictable_def new_message_def)
  moreover have "\<exists>k. filter (\<lambda>m. role m \<noteq> System) (messages cw') =
      drop k (filter (\<lambda>m. role m \<noteq> System) (messages cw)) @ (if r = System then [] else [new_message r body])"
    using pushed_evictable [OF k] unfolding evictable_def
    by (intro exI [of _ k]) (simp add: new_message_def)
  ultimately show ?thesis by blast
qed

theorem push_message_keeps_system_witness:
  "\<exists>cw' out. push_message Debug User ''how are you?'' example_window = Inr (cw', out) \<and>
     filter (\<lambda>m. role m = System) (messages cw') = [new_message System ''prompt'']"
proof -
  have inv: "window_inv example_window" and room: "window_room (estimate_tokens ''how are you?'') example_window"
    by (simp_all add: example_window_simps)
  then obtain cw' out where push: "push_message Debug User ''how are you?'' example_window = Inr (cw', out)"
    using push_message_pushed by blast
  show ?thesis
    using push push_message_keeps_system [OF inv push] by (auto simp: example_window_simps)
qed

text \<open>
  C12: After a push the token counter is within the limit, unless every message but the new one
  is a system message; in particular a window whose system messages and new message fit together
  never exceeds its limit.
\<close>

theorem push_message_bounded:
  assumes "window_inv cw" and "push_message Debug r body cw = Inr (cw', out)"
    and "tokens (filter (\<lambda>m. role m = System) (messages cw)) + estimate_tokens body \<le> max_tokens cw"
  shows "current_tokens cw' \<le> max_tokens cw' \<and> max_tokens cw' = max_tokens cw"
proof -
  obtain k where k: "pushed r body cw k cw'"
    using assms(1,2) by (rule push_message_Debug)
  have "messages cw' = drop_oldest k (messages cw) @ [new_message r body]"
    using k by (simp add: pushed_def)
  then show ?thesis
    using pushed_bounded [OF k] k assms(3) drop_oldest_all [of k "messages cw"]
    by (auto simp: pushed_def window_inv_def new_message_def)
qed

theorem push_message_bounded_witness:
  "\<exists>cw' out. push_message Debug User ''how are you?'' example_window = Inr (cw', out) \<and>
     current_tokens cw' \<le> 6"
proof -
  have inv: "window_inv example_window" and room: "window_room (estimate_tokens ''how are you?'') example_window"
    by (simp_all add: example_window_simps)
  then obtain cw' out where push: "push_message Debug User ''how are you?'' example_window = Inr (cw', out)"
    using push_message_pushed by blast
  have "tokens (filter (\<lambda>m. role m = System) (messages example_window)) + estimate_tokens ''how are you?''
      \<le> max_tokens example_window"
    by (simp add: example_window_simps)
  from push_message_bounded [OF inv push this] push show ?thesis
    by (auto simp: example_window_def)
qed

text \<open>
  C25: A message larger than the whole window is stored nevertheless: it evicts every other
  non-system message and leaves the token counter above the limit, so the window is not bounded
  by its limit.
\<close>

theorem push_message_oversize:
  assumes "window_inv cw" and "push_message Debug r body cw = Inr (cw', out)"
    and "max_tokens cw < estimate_tokens body"
  shows "messages cw' = filter (\<lambda>m. role m = System) (messages cw) @ [new_message r body] \<and>
    max_tokens cw' < current_tokens cw'"
proof -
  obtain k where k: "pushed r body cw k cw'"
    using assms(1,2) by (rule push_message_Debug)
  then have "filter evictable (drop_oldest k (messages cw)) = []"
    using assms(3) by (auto simp: pushed_def least_evictions_def)
  then have "drop_oldest k (messages cw) = filter (\<lambda>m. role m = System) (messages cw)"
    by (rule drop_oldest_all)
  then show ?thesis
    using k assms(3) by (simp add: pushed_def window_inv_def new_message_def)
qed

theorem push_message_oversize_witness:
  "\<exists>cw' out. push_message Debug User (replicate 40 (CHR ''a'')) example_window = Inr (cw', out) \<and>
     max_tokens cw' < current_tokens cw'"
proof -
  have inv: "window_inv example_window"
    and room: "window_room (estimate_tokens (replicate 40 (CHR ''a''))) example_window"
    by (simp_all add: example_window_simps)
  then obtain cw' out where push: "push_message Debug User (replicate 40 (CHR ''a'')) example_window = Inr (cw', out)"
    using push_message_pushed by blast
  have "max_tokens example_window < estimate_tokens (replicate 40 (CHR ''a''))"
    by (simp add: example_window_simps)
  from push push_message_oversize [OF inv push this] show ?thesis by blast
qed

end
