(* ===== verification/OrdMap.thy ===== *)
theory OrdMap
  imports RustStr
begin

text \<open>
  \<^verbatim>\<open>alloc::collections::BTreeMap\<close> as the tool registry uses it: \<^verbatim>\<open>new\<close>, \<^verbatim>\<open>insert\<close>,
  \<^verbatim>\<open>get\<close>, \<^verbatim>\<open>len\<close> and the in-order \<^verbatim>\<open>keys\<close>. The map is the list of its entries in key
  order (for \<^verbatim>\<open>String\<close> keys the byte-wise lexicographic order of \<open>List_Lexorder\<close>).

  The interface the registry relies on is the locale \<open>ordered_map\<close>; its lemmas are proved
  from the laws alone and reach the registry through the interpretation \<open>btm\<close>.
\<close>

locale ordered_map =
  fixes empty :: "'m"
    and insert :: "'k :: linorder \<Rightarrow> 'v \<Rightarrow> 'm \<Rightarrow> 'm"
    and get :: "'m \<Rightarrow> 'k \<Rightarrow> 'v option"
    and keys :: "'m \<Rightarrow> 'k list"
    and invar :: "'m \<Rightarrow> bool"
  assumes get_empty: "get empty k = None"
    and get_insert: "invar m \<Longrightarrow> get (insert k v m) = (get m)(k \<mapsto> v)"
    and keys_dom: "invar m \<Longrightarrow> set (keys m) = dom (get m)"
    and keys_ascending: "invar m \<Longrightarrow> sorted_wrt (<) (keys m)"
    and invar_empty: "invar empty"
    and invar_insert: "invar m \<Longrightarrow> invar (insert k v m)"
begin

lemma keys_eq: "invar m \<Longrightarrow> keys m = sorted_list_of_set (dom (get m))"
  using keys_ascending [of m] keys_dom [of m]
  by (metis strict_sorted_equal sorted_list_of_set.strict_sorted_key_list_of_set
      List.finite_set sorted_list_of_set.set_sorted_key_list_of_set)

lemma keys_insert: "invar m \<Longrightarrow> keys (insert k v m) = sorted_list_of_set (Set.insert k (dom (get m)))"
  by (simp add: keys_eq invar_insert get_insert)

lemma length_keys: "invar m \<Longrightarrow> length (keys m) = card (dom (get m))"
  by (simp add: keys_eq)

lemma keys_determined:
  "invar m \<Longrightarrow> invar m' \<Longrightarrow> dom (get m) = dom (get m') \<Longrightarrow> keys m = keys m'"
  by (simp add: keys_eq)

end

type_synonym ('k, 'v) btree = "('k \<times> 'v) list"

fun btree_insert :: "'k :: linorder \<Rightarrow> 'v \<Rightarrow> ('k, 'v) btree \<Rightarrow> ('k, 'v) btree" where
  "btree_insert k v [] = [(k, v)]"
| "btree_insert k v ((k', v') # m) =
     (if k = k' then (k, v) # m
      else if k < k' then (k, v) # (k', v') # m
      else (k', v') # btree_insert k v m)"

definition btree_get :: "('k, 'v) btree \<Rightarrow> 'k \<Rightarrow> 'v option" where
  "btree_get m k = map_of m k"

definition btree_keys :: "('k, 'v) btree \<Rightarrow> 'k list" where
  "btree_keys m = map fst m"

definition btree_len :: "('k, 'v) btree \<Rightarrow> nat" where
  "btree_len m = length m"

definition btree_invar :: "('k :: linorder, 'v) btree \<Rightarrow> bool" where
  "btree_invar m \<longleftrightarrow> sorted_wrt (<) (map fst m)"

lemma map_of_btree_insert: "map_of (btree_insert k v m) = (map_of m)(k \<mapsto> v)"
  by (induction m) auto

lemma keys_btree_insert: "fst ` set (btree_insert k v m) = insert k (fst ` set m)"
proof (induction m)
  case (Cons e m)
  then show ?case by (cases e) (simp add: insert_commute)
qed simp

lemma btree_insert_invar: "btree_invar m \<Longrightarrow> btree_invar (btree_insert k v m)"
  unfolding btree_invar_def
proof (induction m)
  case (Cons e m)
  obtain k' v' where e: "e = (k', v')" by force
  have "\<forall>x \<in> set (map fst (btree_insert k v m)). k' < x" if "k' < k"
    using Cons.prems that by (simp add: keys_btree_insert e)
  then show ?case using Cons by (auto simp: e)
qed simp

interpretation btm: ordered_map "[] :: ('k :: linorder, 'v) btree" btree_insert btree_get btree_keys btree_invar
proof unfold_locales
  fix m :: "('k, 'v) btree" and k :: 'k and v :: 'v
  show "btree_get (btree_insert k v m) = (btree_get m)(k \<mapsto> v)"
    by (rule ext) (simp add: btree_get_def map_of_btree_insert)
  show "set (btree_keys m) = dom (btree_get m)"
    using dom_map_of_conv_image_fst [of m] by (simp add: btree_keys_def btree_get_def [abs_def])
  show "btree_invar m \<Longrightarrow> sorted_wrt (<) (btree_keys m)"
    by (simp add: btree_invar_def btree_keys_def)
  show "btree_invar m \<Longrightarrow> btree_invar (btree_insert k v m)"
    by (rule btree_insert_invar)
qed (simp_all add: btree_get_def btree_invar_def)

lemma btree_len_keys: "btree_len m = length (btree_keys m)"
  by (simp add: btree_len_def btree_keys_def)

end
