(* ===== verification/Tools.thy ===== *)
theory Tools
  imports OrdMap
begin

text \<open>
  The tool registry of \<^verbatim>\<open>src/agent/tools.rs\<close>: a map from tool names to the four built-in
  tools and the key-value memory of the store and recall tools. \<^verbatim>\<open>Result<String, String>\<close> is a
  sum whose left side is the error text; a panic of the calculator (overflow) is outside it.

  The lemmas give each tool's behaviour on every branch, the store/recall round trip with its
  exact condition, and the calculator's result against integer arithmetic.
\<close>

subsection \<open>Data\<close>

datatype builtin_tool = Calculator | MemoryStore | MemoryRecall | Echo

fun tool_name :: "builtin_tool \<Rightarrow> string" where
  "tool_name Calculator = ''calc''"
| "tool_name MemoryStore = ''store''"
| "tool_name MemoryRecall = ''recall''"
| "tool_name Echo = ''echo''"

fun tool_description :: "builtin_tool \<Rightarrow> string" where
  "tool_description Calculator = ''Evaluate arithmetic: /tool calc <expr> (supports +, -, *, /)''"
| "tool_description MemoryStore = ''Store key-value: /tool store <key> <value>''"
| "tool_description MemoryRecall = ''Recall by key: /tool recall <key>''"
| "tool_description Echo = ''Echo input: /tool echo <text>''"

record tool_registry =
  tools :: "(string, builtin_tool) btree"
  memory :: "(string, string) btree"

type_synonym tool_result = "string + string"

subsection \<open>Operations\<close>

definition registry_new :: tool_registry where
  "registry_new = \<lparr>tools = [], memory = []\<rparr>"

definition register :: "builtin_tool \<Rightarrow> tool_registry \<Rightarrow> tool_registry" where
  "register t reg = reg\<lparr>tools := btree_insert (tool_name t) t (tools reg)\<rparr>"

definition tool_count :: "tool_registry \<Rightarrow> usize" where
  "tool_count reg = btree_len (tools reg)"

definition tool_names :: "tool_registry \<Rightarrow> string list" where
  "tool_names reg = btree_keys (tools reg)"

text \<open>The arithmetic of the calculator: the \<^verbatim>\<open>match op\<close> block.\<close>

definition calc_op :: "profile \<Rightarrow> string \<Rightarrow> i64 \<Rightarrow> i64 \<Rightarrow> (string + i64) rust" where
  "calc_op p op a b =
     (if op = ''+'' then map_sum id Inr (i64_result p (a + b))
      else if op = ''-'' then map_sum id Inr (i64_result p (a - b))
      else if op = ''*'' then map_sum id Inr (i64_result p (a * b))
      else if op = ''/'' then
        (if b = 0 then Inr (Inl ''Division by zero'') else map_sum id Inr (i64_div a b))
      else Inr (Inl (''Unknown operator: '' @ op @ '' (use +, -, *, /)'')))"

definition exec_calculator :: "profile \<Rightarrow> string \<Rightarrow> tool_result rust" where
  "exec_calculator p expr =
     (let parts = split_whitespace (trim expr)
      in if length parts \<noteq> 3
         then Inr (Inl ''Usage: /tool calc <num> <op> <num> (e.g., /tool calc 42 + 7)'')
         else case parse_i64 (parts ! 0) of
           None \<Rightarrow> Inr (Inl (''Invalid number: '' @ parts ! 0))
         | Some a \<Rightarrow>
             (case parse_i64 (parts ! 2) of
                None \<Rightarrow> Inr (Inl (''Invalid number: '' @ parts ! 2))
              | Some b \<Rightarrow>
                  bind_rust (calc_op p (parts ! 1) a b) (\<lambda>r.
                    case r of
                      Inl e \<Rightarrow> Inr (Inl e)
                    | Inr v \<Rightarrow>
                        Inr (Inr (show_int a @ '' '' @ parts ! 1 @ '' '' @ show_int b @ '' = '' @ show_int v)))))"

definition exec_memory_store :: "string \<Rightarrow> tool_registry \<Rightarrow> tool_result \<times> tool_registry" where
  "exec_memory_store args reg =
     (let parts = splitn2 (CHR '' '') args
      in if length parts \<noteq> 2 then (Inl ''Usage: /tool store <key> <value>'', reg)
         else let key = parts ! 0; val = parts ! 1
           in (Inr (''Stored: '' @ key @ '' = '' @ val),
               reg\<lparr>memory := btree_insert key val (memory reg)\<rparr>))"

definition exec_memory_recall :: "string \<Rightarrow> tool_registry \<Rightarrow> tool_result" where
  "exec_memory_recall args reg =
     (let key = trim args
      in case btree_get (memory reg) key of
           Some val \<Rightarrow> Inr (key @ '' = '' @ val)
         | None \<Rightarrow> Inl (''Key '' @ [CHR 0x27] @ key @ [CHR 0x27] @ '' not found in memory''))"

definition execute ::
  "profile \<Rightarrow> string \<Rightarrow> string \<Rightarrow> tool_registry \<Rightarrow> (tool_result \<times> tool_registry) rust" where
  "execute p name args reg =
     (case btree_get (tools reg) name of
        None \<Rightarrow>
          Inr (Inl (''Unknown tool '' @ [CHR 0x27] @ name @ [CHR 0x27] @ ''. Available: '' @
                    debug_list (tool_names reg)), reg)
      | Some Calculator \<Rightarrow> bind_rust (exec_calculator p args) (\<lambda>r. Inr (r, reg))
      | Some MemoryStore \<Rightarrow> Inr (exec_memory_store args reg)
      | Some MemoryRecall \<Rightarrow> Inr (exec_memory_recall args reg, reg)
      | Some Echo \<Rightarrow> Inr (Inr (''[echo] '' @ args), reg))"

subsection \<open>Well-formed registries\<close>

definition registry_inv :: "tool_registry \<Rightarrow> bool" where
  "registry_inv reg \<longleftrightarrow>
     btree_invar (tools reg) \<and> btree_invar (memory reg) \<and>
     (\<forall>n t. btree_get (tools reg) n = Some t \<longrightarrow> n = tool_name t)"

definition registered :: "builtin_tool \<Rightarrow> tool_registry \<Rightarrow> bool" where
  "registered t reg \<longleftrightarrow> btree_get (tools reg) (tool_name t) = Some t"

lemma registry_inv_new [simp]: "registry_inv registry_new"
  by (simp add: registry_inv_def registry_new_def btm.invar_empty btm.get_empty)

lemma registry_inv_register: "registry_inv reg \<Longrightarrow> registry_inv (register t reg)"
  by (auto simp: registry_inv_def register_def btm.invar_insert btm.get_insert split: if_splits)

lemma registered_register:
  "registry_inv reg \<Longrightarrow> registered u (register t reg) \<longleftrightarrow> u = t \<or> registered u reg"
  by (cases u; cases t)
    (auto simp: registered_def register_def registry_inv_def btm.get_insert)

lemma memory_store_registry:
  "exec_memory_store args reg = (r, reg') \<Longrightarrow> tools reg' = tools reg \<and> (registry_inv reg \<longrightarrow> registry_inv reg')"
  by (auto simp: exec_memory_store_def registry_inv_def btm.invar_insert Let_def split: if_splits)

lemma execute_error_unchanged: "execute p name args reg = Inr (Inl e, reg') \<Longrightarrow> reg' = reg"
  by (auto simp: execute_def bind_rust_eq_Inr exec_memory_store_def Let_def
      split: option.splits builtin_tool.splits if_splits)

lemma execute_registry:
  assumes "execute p name args reg = Inr (r, reg')"
  shows "tools reg' = tools reg" and "registry_inv reg \<Longrightarrow> registry_inv reg'"
proof -
  have "tools reg' = tools reg \<and> (registry_inv reg \<longrightarrow> registry_inv reg')"
    using assms memory_store_registry [of args reg r reg']
    by (auto simp: execute_def bind_rust_eq_Inr split: option.splits builtin_tool.splits)
  then show "tools reg' = tools reg" and "registry_inv reg \<Longrightarrow> registry_inv reg'"
    by blast+
qed

subsection \<open>Store and recall\<close>

lemma exec_memory_store_split:
  "CHR '' '' \<notin> set key \<Longrightarrow>
   exec_memory_store (key @ CHR '' '' # val) reg =
     (Inr (''Stored: '' @ key @ '' = '' @ val), reg\<lparr>memory := btree_insert key val (memory reg)\<rparr>)"
  by (simp add: exec_memory_store_def splitn2_first)

lemma exec_memory_store_usage:
  "CHR '' '' \<notin> set args \<Longrightarrow>
   exec_memory_store args reg = (Inl ''Usage: /tool store <key> <value>'', reg)"
  by (simp add: exec_memory_store_def splitn2_none)

lemma exec_memory_recall_get:
  "btree_get (memory reg) (trim args) = Some val \<Longrightarrow>
   exec_memory_recall args reg = Inr (trim args @ '' = '' @ val)"
  by (simp add: exec_memory_recall_def)

lemma store_get:
  "registry_inv reg \<Longrightarrow>
   btree_get (memory (reg\<lparr>memory := btree_insert key val (memory reg)\<rparr>)) k =
     (if k = key then Some val else btree_get (memory reg) k)"
  by (simp add: registry_inv_def btm.get_insert)

subsection \<open>The calculator\<close>

lemma calc_op_in_range:
  assumes "calc_op p op a b = Inr (Inr v)"
  shows "in_i64 v"
  using assms i64_result_Inr_in_range
  by (auto simp: calc_op_def i64_div_def map_sum_def split: if_splits sum.splits)

text \<open>The mathematical value of an operator, where it has one.\<close>

definition calc_value :: "string \<Rightarrow> int \<Rightarrow> int \<Rightarrow> int option" where
  "calc_value op a b =
     (if op = ''+'' then Some (a + b)
      else if op = ''-'' then Some (a - b)
      else if op = ''*'' then Some (a * b)
      else if op = ''/'' \<and> b \<noteq> 0 then Some (quot_to_zero a b)
      else None)"

lemma calc_op_value:
  "calc_value op a b = Some v \<Longrightarrow> in_i64 v \<Longrightarrow> calc_op p op a b = Inr (Inr v)"
  by (auto simp: calc_value_def calc_op_def i64_div_def split: if_splits)

lemma calc_op_overflow_Debug:
  "calc_value op a b = Some v \<Longrightarrow> \<not> in_i64 v \<Longrightarrow> calc_op Debug op a b = Inl Arithmetic_overflow"
  by (auto simp: calc_value_def calc_op_def i64_div_def i64_result_def split: if_splits)

lemma calc_op_overflow_Release:
  "calc_value op a b = Some v \<Longrightarrow> \<not> in_i64 v \<Longrightarrow>
   calc_op Release op a b = (if op = ''/'' then Inl Arithmetic_overflow else Inr (Inr (wrap_i64 v)))"
  by (auto simp: calc_value_def calc_op_def i64_div_def i64_result_Release split: if_splits)

lemma calc_op_undefined: "calc_value op a b = None \<Longrightarrow> \<exists>e. calc_op p op a b = Inr (Inl e)"
  by (auto simp: calc_value_def calc_op_def split: if_splits)

definition calc_text :: "int \<Rightarrow> string \<Rightarrow> int \<Rightarrow> string" where
  "calc_text a op b = show_int a @ '' '' @ op @ '' '' @ show_int b"

lemma split_calc_text:
  "word op \<Longrightarrow> split_whitespace (calc_text a op b) = [show_int a, op, show_int b]"
  using split_whitespace_word_space [of "show_int a" "op @ CHR '' '' # show_int b"]
    split_whitespace_word_space [of op "show_int b"]
  by (simp add: calc_text_def word_show_int split_whitespace_word)

lemma well_formed_ascii: "ascii s \<Longrightarrow> well_formed s"
  using chars_ascii [of s "[]"]
  by (auto simp: well_formed_def utf8_char_def ascii_def utf8_width_def)

lemma ascii_calc_text: "word op \<Longrightarrow> ascii (calc_text a op b)"
  using word_ascii [OF word_show_int [of a]] word_ascii [OF word_show_int [of b]] word_ascii [of op]
  by (auto simp: calc_text_def ascii_def)

lemma exec_calculator_calc_text:
  assumes "word op" and "in_i64 a" and "in_i64 b"
  shows "exec_calculator p (calc_text a op b) =
    bind_rust (calc_op p op a b) (\<lambda>r. case r of Inl e \<Rightarrow> Inr (Inl e)
      | Inr v \<Rightarrow> Inr (Inr (calc_text a op b @ '' = '' @ show_int v)))"
proof -
  have "split_whitespace (trim (calc_text a op b)) = [show_int a, op, show_int b]"
    using assms(1) by (simp add: split_whitespace_trim well_formed_ascii ascii_calc_text split_calc_text)
  then show ?thesis
    using assms(2,3)
    by (simp add: exec_calculator_def parse_show_i64 calc_text_def cong: sum.case_cong)
qed

lemma exec_calculator_trim:
  "well_formed expr \<Longrightarrow> well_formed (trim expr) \<Longrightarrow>
   exec_calculator p (trim expr) = exec_calculator p expr"
  by (simp add: exec_calculator_def split_whitespace_trim)

text \<open>The calculator never panics unless the exact value leaves the range of \<^verbatim>\<open>i64\<close>.\<close>

lemma calc_op_panic:
  "calc_op p op a b = Inl e \<Longrightarrow> \<exists>v. calc_value op a b = Some v \<and> \<not> in_i64 v"
  by (auto simp: calc_op_def calc_value_def i64_result_def i64_div_def split: if_splits)

subsection \<open>The full registry\<close>

lemma registered_tool_names:
  assumes "registry_inv reg" and "\<And>t. registered t reg"
  shows "tool_names reg = [''calc'', ''echo'', ''recall'', ''store'']"
proof -
  have "dom (btree_get (tools reg)) = {''calc'', ''echo'', ''recall'', ''store''}" (is "_ = ?N")
  proof
    show "?N \<subseteq> dom (btree_get (tools reg))"
      using assms(2) [of Calculator] assms(2) [of Echo] assms(2) [of MemoryRecall] assms(2) [of MemoryStore]
      by (auto simp: registered_def)
    show "dom (btree_get (tools reg)) \<subseteq> ?N"
    proof
      fix n assume "n \<in> dom (btree_get (tools reg))"
      then obtain t where "n = tool_name t"
        using assms(1) by (auto simp: registry_inv_def)
      then show "n \<in> ?N" by (cases t) auto
    qed
  qed
  moreover have "sorted_wrt (<) [''calc'', ''echo'', ''recall'', ''store'']"
    by (simp add: less_char_def)
  moreover have "btree_invar (tools reg)"
    using assms(1) by (simp add: registry_inv_def)
  ultimately show ?thesis
    unfolding tool_names_def
    using btm.keys_dom [of "tools reg"] btm.keys_ascending [of "tools reg"]
    by (intro strict_sorted_equal) simp_all
qed

definition all_tools :: tool_registry where
  "all_tools = register Echo (register MemoryRecall (register MemoryStore (register Calculator registry_new)))"

lemma all_tools_registered [simp]: "registry_inv all_tools" "registered t all_tools"
  by (cases t; simp add: all_tools_def registry_inv_register registered_register)+

subsection \<open>Properties\<close>

text \<open>
  C17: What the store tool saves, the recall tool returns: for a key without a space that
  trimming leaves unchanged, \<^verbatim>\<open>store key value\<close> reports the pair, a later \<^verbatim>\<open>recall key\<close> answers
  \<^verbatim>\<open>key = value\<close>, and every other key keeps its entry.
\<close>

theorem store_recall_roundtrip:
  assumes "registry_inv reg" and "registered MemoryStore reg" and "registered MemoryRecall reg"
    and "CHR '' '' \<notin> set key" and "trim key = key"
  shows "\<exists>reg'. execute p ''store'' (key @ '' '' @ val) reg = Inr (Inr (''Stored: '' @ key @ '' = '' @ val), reg') \<and>
    execute p ''recall'' key reg' = Inr (Inr (key @ '' = '' @ val), reg') \<and>
    (\<forall>k. k \<noteq> key \<longrightarrow> btree_get (memory reg') k = btree_get (memory reg) k)"
  using assms exec_memory_store_split [of key val reg] store_get [OF assms(1), of key val]
  by (auto simp: execute_def registered_def exec_memory_recall_def)

theorem store_recall_roundtrip_witness:
  "\<exists>reg'. execute Debug ''store'' (''pi'' @ '' '' @ ''3.14 or so'') all_tools =
      Inr (Inr (''Stored: '' @ ''pi'' @ '' = '' @ ''3.14 or so''), reg') \<and>
    execute Debug ''recall'' ''pi'' reg' = Inr (Inr (''pi'' @ '' = '' @ ''3.14 or so''), reg')"
proof -
  have "trim ''pi'' = ''pi''" by code_simp
  then show ?thesis
    using store_recall_roundtrip [of all_tools "''pi''" Debug "''3.14 or so''"] by auto
qed

text \<open>
  A key that trimming changes (for instance one that begins with a tab) can be stored but
  never recalled: after the store, every recall answers what it would have answered before it.
\<close>

lemma store_untrimmed_key_lost:
  assumes "registry_inv reg" and "CHR '' '' \<notin> set key" and "trim key \<noteq> key" and "well_formed args"
  shows "fst (exec_memory_store (key @ '' '' @ val) reg) = Inr (''Stored: '' @ key @ '' = '' @ val) \<and>
    exec_memory_recall args (snd (exec_memory_store (key @ '' '' @ val) reg)) = exec_memory_recall args reg"
proof -
  have "trim args \<noteq> key"
    using assms(3,4) trim_idem by auto
  then show ?thesis
    using exec_memory_store_split [OF assms(2), of val reg] store_get [OF assms(1), of key val "trim args"]
    by (simp add: exec_memory_recall_def)
qed

lemma store_untrimmed_key_lost_witness:
  "exec_memory_recall ''a'' (snd (exec_memory_store ([CHR 0x09, CHR ''a''] @ '' '' @ ''1'') all_tools)) =
   exec_memory_recall ''a'' all_tools"
proof -
  have "trim [CHR 0x09, CHR ''a''] \<noteq> [CHR 0x09, CHR ''a'']" by code_simp
  moreover have "well_formed ''a''" by code_simp
  ultimately show ?thesis
    using store_untrimmed_key_lost [of all_tools "[CHR 0x09, CHR ''a'']" "''a''" "''1''"] by simp
qed

text \<open>
  C20: The calculator computes exact integer arithmetic: on the text of two 64-bit integers and
  an operator it answers the expression and its value (division truncates towards zero), under
  both build profiles, whenever that value fits in 64 bits.
\<close>

theorem calculator_exact:
  assumes "calc_value op a b = Some v" and "in_i64 a" and "in_i64 b" and "in_i64 v"
  shows "exec_calculator p (show_int a @ '' '' @ op @ '' '' @ show_int b) =
    Inr (Inr (show_int a @ '' '' @ op @ '' '' @ show_int b @ '' = '' @ show_int v))"
proof -
  have "word op"
    using assms(1) by (auto simp: calc_value_def word_def word_char_def split: if_splits)
  then show ?thesis
    using exec_calculator_calc_text [of op a b p] assms calc_op_value [OF assms(1,4), of p]
    by (simp add: calc_text_def)
qed

theorem calculator_exact_witness:
  "exec_calculator Debug (show_int (- 7) @ '' '' @ ''/'' @ '' '' @ show_int 2) =
    Inr (Inr (show_int (- 7) @ '' '' @ ''/'' @ '' '' @ show_int 2 @ '' = '' @ show_int (- 3)))"
proof -
  have "calc_value ''/'' (- 7) 2 = Some (- 3)" by (simp add: calc_value_def quot_to_zero_def)
  then show ?thesis
    using calculator_exact [of "''/''" "- 7" 2 "- 3" Debug]
    by (simp add: in_i64_def i64_min_def i64_max_def)
qed

text \<open>
  C26: The calculator panics for no other reason than an exact value outside the range of
  \<^verbatim>\<open>i64\<close>: if it panics, the input has three parts, two of them 64-bit integers and one an
  operator, and their exact result does not fit. Malformed input and division by zero are errors.
\<close>

theorem calculator_panics_only_on_overflow:
  assumes "exec_calculator p expr = Inl e"
  shows "\<exists>x op y a b v. split_whitespace (trim expr) = [x, op, y] \<and> parse_i64 x = Some a \<and>
    parse_i64 y = Some b \<and> calc_value op a b = Some v \<and> \<not> in_i64 v"
proof -
  let ?parts = "split_whitespace (trim expr)"
  obtain a b where ab: "length ?parts = 3" "parse_i64 (?parts ! 0) = Some a" "parse_i64 (?parts ! 2) = Some b"
      "calc_op p (?parts ! 1) a b = Inl e"
    using assms by (auto simp: exec_calculator_def Let_def bind_rust_eq_Inl split: if_splits option.splits sum.splits)
      (metis sum.exhaust)
  then obtain x op y where "?parts = [x, op, y]"
    by (metis (no_types, opaque_lifting) length_0_conv length_Suc_conv numeral_3_eq_3)
  then show ?thesis
    using ab calc_op_panic by fastforce
qed

theorem calculator_panics_only_on_overflow_witness:
  "\<exists>x op y a b v. split_whitespace (trim ''-9223372036854775808 / -1'') = [x, op, y] \<and>
    parse_i64 x = Some a \<and> parse_i64 y = Some b \<and> calc_value op a b = Some v \<and> \<not> in_i64 v"
proof -
  have "exec_calculator Release (calc_text (- 9223372036854775808) ''/'' (- 1)) = Inl Arithmetic_overflow"
    by (subst exec_calculator_calc_text)
      (simp_all add: word_def word_char_def in_i64_def i64_min_def i64_max_def calc_op_def i64_div_def quot_to_zero_def)
  moreover have "calc_text (- 9223372036854775808) ''/'' (- 1) = ''-9223372036854775808 / -1''"
    by (simp add: calc_text_def show_int_def show_nat.simps digit_char_def char_of_def bit_0)
  ultimately show ?thesis
    using calculator_panics_only_on_overflow [of Release "''-9223372036854775808 / -1''" Arithmetic_overflow] by simp
qed

text \<open>
  C27: Overflow in the calculator is not caught: with overflow checks every operation whose
  exact value does not fit panics, and without them the quotient that does not fit still panics
  while the other operations answer the wrapped value.
\<close>

theorem calculator_overflow:
  assumes "calc_value op a b = Some v" and "in_i64 a" and "in_i64 b" and "\<not> in_i64 v"
  shows "exec_calculator Debug (calc_text a op b) = Inl Arithmetic_overflow \<and>
    exec_calculator Release (calc_text a op b) =
      (if op = ''/'' then Inl Arithmetic_overflow
       else Inr (Inr (calc_text a op b @ '' = '' @ show_int (wrap_i64 v))))"
proof -
  have "word op"
    using assms(1) by (auto simp: calc_value_def word_def word_char_def split: if_splits)
  then show ?thesis
    using exec_calculator_calc_text [of op a b] assms
      calc_op_overflow_Debug [OF assms(1,4)] calc_op_overflow_Release [OF assms(1,4)]
    by simp
qed

theorem calculator_overflow_witness:
  "exec_calculator Debug (calc_text 9223372036854775807 ''+'' 1) = Inl Arithmetic_overflow"
proof -
  have "calc_value ''+'' 9223372036854775807 1 = Some 9223372036854775808" by (simp add: calc_value_def)
  then show ?thesis
    using calculator_overflow [of "''+''" 9223372036854775807 1 9223372036854775808]
    by (simp add: in_i64_def i64_min_def i64_max_def)
qed

end
