(* ===== verification/Agent.thy ===== *)
theory Agent
  imports Context Tools
begin

text \<open>
  The agent runtime of \<^verbatim>\<open>src/agent/mod.rs\<close>: the agent owns a context window and a tool
  registry, is booted once and then processes one input after another. Every operation returns
  the console requests it makes besides its result.

  What the agent relies on in the context window is the locale \<open>message_window\<close>; it is
  interpreted by the window of \<open>Context\<close>. The agent's own invariant is carried through a whole
  run by the interpretation of \<open>step_system\<close>.
\<close>

subsection \<open>Data and operations\<close>

record agent =
  ctx :: context_window
  registry :: tool_registry

definition agent_new :: agent where
  "agent_new = \<lparr>ctx = context_new 4096, registry = registry_new\<rparr>"

definition system_prompt :: string where
  "system_prompt =
     ''You are an AI agent running as the sole process on a bare-metal '' @
     ''x86_64 operating system. You have access to tools for calculation, '' @
     ''memory storage, and memory recall. Process user input and respond '' @
     ''helpfully.''"

definition boot :: "profile \<Rightarrow> agent \<Rightarrow> (agent \<times> console list) rust" where
  "boot p ag =
     bind_rust (push_message p System system_prompt (ctx ag)) (\<lambda>(cw, out).
       let reg = register Echo (register MemoryRecall (register MemoryStore
                   (register Calculator (registry ag))))
       in Inr (\<lparr>ctx = cw, registry = reg\<rparr>,
            [serial_println ''[agent] Booting agent...''] @ out @
            [serial_println (''[agent] System prompt loaded ('' @ show_nat (current_tokens cw) @ '' tokens used)''),
             serial_println (''[agent] '' @ show_nat (tool_count reg) @ '' tools registered: '' @ debug_list (tool_names reg)),
             vga_println (''  Tools: '' @ show_nat (tool_count reg)),
             vga_println (''  Context: '' @ show_nat (current_tokens cw) @ ''/'' @ show_nat (max_tokens cw) @ '' tokens'')]))"

text \<open>The first two parts of the call, each defaulting to the empty string.\<close>

definition tool_call_parts :: "string \<Rightarrow> string \<times> string" where
  "tool_call_parts input =
     (let parts = splitn2 (CHR '' '') input
      in (if 0 < length parts then parts ! 0 else '''', if 1 < length parts then parts ! 1 else ''''))"

definition handle_tool_call ::
  "profile \<Rightarrow> string \<Rightarrow> agent \<Rightarrow> ((string \<times> console list) \<times> agent) rust" where
  "handle_tool_call p input ag =
     (let (name, args) = tool_call_parts input
      in bind_rust (execute p name args (registry ag)) (\<lambda>(res, reg).
           case res of
             Inr ok \<Rightarrow>
               bind_rust (push_message p Tool ok (ctx ag)) (\<lambda>(cw, out).
                 Inr ((ok, out), ag\<lparr>registry := reg, ctx := cw\<rparr>))
           | Inl e \<Rightarrow> Inr ((''Tool error: '' @ e, []), ag\<lparr>registry := reg\<rparr>)))"

definition starts_with :: "string \<Rightarrow> string \<Rightarrow> bool" where
  "starts_with pre s \<longleftrightarrow> take (length pre) s = pre"

definition em_dash :: string where
  "em_dash = [CHR 0xE2, CHR 0x80, CHR 0x94]"

definition help_text :: string where
  "help_text =
     ''Available commands:'' @ [CHR 0x0A] @
     ''/tool <name> <args>  '' @ em_dash @ '' invoke a tool'' @ [CHR 0x0A] @
     ''/context             '' @ em_dash @ '' show context window status'' @ [CHR 0x0A] @
     ''/help                '' @ em_dash @ '' show this help'' @ [CHR 0x0A] @
     ''(anything else)      '' @ em_dash @ '' echoed back (LLM inference not yet connected)''"

definition respond :: "profile \<Rightarrow> string \<Rightarrow> agent \<Rightarrow> ((string \<times> console list) \<times> agent) rust" where
  "respond p input ag =
     (if starts_with ''/tool '' input then handle_tool_call p (drop 6 input) ag
      else if starts_with ''/context'' input then Inr ((status (ctx ag), []), ag)
      else if starts_with ''/help'' input then Inr ((help_text, []), ag)
      else Inr ((''[echo] '' @ input, []), ag))"

definition process_input ::
  "profile \<Rightarrow> string \<Rightarrow> agent \<Rightarrow> ((string \<times> console list) \<times> agent) rust" where
  "process_input p input ag =
     bind_rust (push_message p User input (ctx ag)) (\<lambda>(cw, out1).
       bind_rust (respond p input (ag\<lparr>ctx := cw\<rparr>)) (\<lambda>((response, out2), ag2).
         bind_rust (push_message p Assistant response (ctx ag2)) (\<lambda>(cw3, out3).
           Inr ((response, out1 @ [serial_println (''[agent] Processing input: '' @ input)] @ out2 @ out3),
                ag2\<lparr>ctx := cw3\<rparr>))))"

subsection \<open>What the agent needs of a context window\<close>

locale message_window =
  fixes win_inv :: "'w \<Rightarrow> bool"
    and push :: "role \<Rightarrow> string \<Rightarrow> 'w \<Rightarrow> ('w \<times> console list) rust"
    and view :: "'w \<Rightarrow> message list"
  assumes push_inv: "win_inv w \<Longrightarrow> push r body w = Inr (w', out) \<Longrightarrow> win_inv w'"
    and push_view: "win_inv w \<Longrightarrow> push r body w = Inr (w', out) \<Longrightarrow>
        \<exists>k. view w' = drop_oldest k (view w) @ [new_message r body]"
begin

definition prompt_first :: "message \<Rightarrow> 'w \<Rightarrow> bool" where
  "prompt_first prompt w \<longleftrightarrow>
     (\<exists>rest. view w = prompt # rest \<and> (\<forall>m \<in> set rest. evictable m))"

lemma push_prompt_first:
  assumes "win_inv w" and "prompt_first prompt w" and "\<not> evictable prompt" and "r \<noteq> System"
    and "push r body w = Inr (w', out)"
  shows "prompt_first prompt w'"
proof -
  obtain rest where w: "view w = prompt # rest" "\<forall>m \<in> set rest. evictable m"
    using assms(2) by (auto simp: prompt_first_def)
  obtain k where k: "view w' = drop_oldest k (view w) @ [new_message r body]"
    using push_view [OF assms(1,5)] by blast
  have "drop_oldest k (view w) = prompt # drop_oldest k rest"
    using w(1) assms(3) by (cases k) simp_all
  then show ?thesis
    using k w(2) assms(4) drop_oldest_set [of k rest]
    by (auto simp: prompt_first_def evictable_def new_message_def)
qed

lemma push_last: "win_inv w \<Longrightarrow> push r body w = Inr (w', out) \<Longrightarrow> last (view w') = new_message r body"
  using push_view by fastforce

end

interpretation cw: message_window window_inv "push_message Debug" messages
proof unfold_locales
  fix w r body w' out
  assume "window_inv w" and "push_message Debug r body w = Inr (w', out)"
  then obtain k where "pushed r body w k w'"
    by (rule push_message_Debug)
  then show "window_inv w'" and "\<exists>k. messages w' = drop_oldest k (messages w) @ [new_message r body]"
    by (auto simp: pushed_def)
qed

subsection \<open>The agent's invariant\<close>

definition prompt_message :: message where
  "prompt_message = new_message System system_prompt"

definition agent_inv :: "agent \<Rightarrow> bool" where
  "agent_inv ag \<longleftrightarrow>
     window_inv (ctx ag) \<and> max_tokens (ctx ag) = 4096 \<and>
     (\<exists>rest. messages (ctx ag) = prompt_message # rest \<and> (\<forall>m \<in> set rest. evictable m)) \<and>
     registry_inv (registry ag) \<and> (\<forall>t. registered t (registry ag))"

lemma prompt_not_evictable [simp]: "\<not> evictable prompt_message"
  by (simp add: prompt_message_def new_message_def evictable_def)

lemma push_agent_inv:
  assumes "agent_inv ag" and "push_message Debug r body (ctx ag) = Inr (cw', out)" and "r \<noteq> System"
  shows "agent_inv (ag\<lparr>ctx := cw'\<rparr>)" and "last (messages cw') = new_message r body"
    and "push_message p r body (ctx ag) = Inr (cw', out)"
proof -
  have inv: "window_inv (ctx ag)" using assms(1) by (simp add: agent_inv_def)
  obtain k where k: "pushed r body (ctx ag) k cw'" "\<And>p. push_message p r body (ctx ag) = Inr (cw', out)"
    using push_message_Debug [OF inv assms(2)] by metis
  have "cw.prompt_first prompt_message cw'"
    by (rule cw.push_prompt_first [OF inv _ prompt_not_evictable assms(3) assms(2)])
      (use assms(1) in \<open>simp add: cw.prompt_first_def agent_inv_def\<close>)
  then show "agent_inv (ag\<lparr>ctx := cw'\<rparr>)"
    using assms(1) k(1) by (simp add: agent_inv_def cw.prompt_first_def pushed_def)
  show "last (messages cw') = new_message r body"
    using cw.push_last [OF inv assms(2)] .
  show "push_message p r body (ctx ag) = Inr (cw', out)" by (rule k(2))
qed

lemma execute_agent_inv:
  "agent_inv ag \<Longrightarrow> execute p name args (registry ag) = Inr (res, reg) \<Longrightarrow> agent_inv (ag\<lparr>registry := reg\<rparr>)"
  using execute_registry [of p name args "registry ag" res reg]
  by (simp add: agent_inv_def registered_def)

text \<open>With overflow checks passed, the tools answer alike under both profiles.\<close>

lemma calc_op_Debug: "calc_op Debug op a b = Inr r \<Longrightarrow> calc_op p op a b = Inr r"
  by (auto simp: calc_op_def i64_result_def split: if_splits)

lemma exec_calculator_Debug: "exec_calculator Debug expr = Inr r \<Longrightarrow> exec_calculator p expr = Inr r"
  by (auto simp: exec_calculator_def Let_def bind_rust_eq_Inr split: option.splits if_splits
      dest: calc_op_Debug [where p = p])

lemma execute_Debug: "execute Debug name args reg = Inr r \<Longrightarrow> execute p name args reg = Inr r"
  by (auto simp: execute_def bind_rust_eq_Inr split: option.splits builtin_tool.splits
      dest: exec_calculator_Debug [where p = p])

lemma handle_tool_call_Debug:
  assumes "agent_inv ag" and "handle_tool_call Debug input ag = Inr (ro, ag')"
  shows "agent_inv ag'" and "handle_tool_call p input ag = Inr (ro, ag')"
proof -
  obtain name args where call: "tool_call_parts input = (name, args)" by force
  obtain res reg where ex: "execute Debug name args (registry ag) = Inr (res, reg)"
    using assms(2) by (auto simp: handle_tool_call_def call bind_rust_eq_Inr)
  note inv = execute_agent_inv [OF assms(1) ex] and ex' = execute_Debug [OF ex, of p]
  have "agent_inv ag' \<and> handle_tool_call p input ag = Inr (ro, ag')"
  proof (cases res)
    case (Inl e)
    then show ?thesis
      using assms(2) ex ex' inv by (auto simp: handle_tool_call_def call)
  next
    case (Inr ok)
    then obtain cw' out where push: "push_message Debug Tool ok (ctx ag) = Inr (cw', out)"
        "ro = (ok, out)" "ag' = ag\<lparr>registry := reg, ctx := cw'\<rparr>"
      using assms(2) ex by (auto simp: handle_tool_call_def call bind_rust_eq_Inr)
    have "push_message Debug Tool ok (ctx (ag\<lparr>registry := reg\<rparr>)) = Inr (cw', out)"
      using push(1) by simp
    note inv' = push_agent_inv [OF inv this]
    show ?thesis
      using inv'(1,3) push(2,3) Inr ex' by (simp add: handle_tool_call_def call)
  qed
  then show "agent_inv ag'" and "handle_tool_call p input ag = Inr (ro, ag')" by blast+
qed

lemma respond_Debug:
  assumes "agent_inv ag" and "respond Debug input ag = Inr (ro, ag')"
  shows "agent_inv ag'" and "respond p input ag = Inr (ro, ag')"
proof -
  have "agent_inv ag' \<and> respond p input ag = Inr (ro, ag')"
  proof (cases "starts_with ''/tool '' input")
    case True
    then have "handle_tool_call Debug (drop 6 input) ag = Inr (ro, ag')"
      using assms(2) by (simp add: respond_def)
    note inv = handle_tool_call_Debug [OF assms(1) this]
    show ?thesis
      using True inv(1) inv(2) [of p] by (simp add: respond_def)
  next
    case False
    have "respond p input ag = respond Debug input ag"
      using False by (simp add: respond_def)
    moreover have "ag' = ag"
      using False assms(2) unfolding respond_def
      by (cases "starts_with ''/context'' input"; cases "starts_with ''/help'' input") simp_all
    ultimately show ?thesis using assms by simp
  qed
  then show "agent_inv ag'" and "respond p input ag = Inr (ro, ag')" by blast+
qed

definition answered :: "string \<Rightarrow> agent \<Rightarrow> string \<times> console list \<Rightarrow> agent \<Rightarrow> bool" where
  "answered input ag ro ag' \<longleftrightarrow> last (messages (ctx ag')) = new_message Assistant (fst ro)"

lemma process_input_Debug:
  assumes "agent_inv ag" and "process_input Debug input ag = Inr (ro, ag')"
  shows "agent_inv ag'" and "answered input ag ro ag'" and "process_input p input ag = Inr (ro, ag')"
proof -
  obtain cw1 out1 resp out2 ag2 cw3 out3 where
      push1: "push_message Debug User input (ctx ag) = Inr (cw1, out1)" and
      resp: "respond Debug input (ag\<lparr>ctx := cw1\<rparr>) = Inr ((resp, out2), ag2)" and
      push3: "push_message Debug Assistant resp (ctx ag2) = Inr (cw3, out3)" and
      fin: "ro = (resp, out1 @ [serial_println (''[agent] Processing input: '' @ input)] @ out2 @ out3)"
        "ag' = ag2\<lparr>ctx := cw3\<rparr>"
    using assms(2) by (auto simp: process_input_def bind_rust_eq_Inr)
  note inv1 = push_agent_inv [OF assms(1) push1, simplified]
  note inv2 = respond_Debug [OF inv1(1) resp]
  note inv3 = push_agent_inv [OF inv2(1) push3, simplified]
  show "agent_inv ag'" and "answered input ag ro ag'"
    using inv3(1,2) fin by (simp_all add: answered_def)
  show "process_input p input ag = Inr (ro, ag')"
    using inv1(3) [of p] inv2(2) [of p] inv3(3) [of p] fin by (simp add: process_input_def)
qed

interpretation ag: step_system "process_input Debug" agent_inv answered
  by unfold_locales (auto intro: process_input_Debug)

subsection \<open>Booting\<close>

definition booted :: agent where
  "booted =
     \<lparr>ctx = \<lparr>messages = [prompt_message], max_tokens = 4096,
              current_tokens = token_count prompt_message, total_evicted = 0\<rparr>,
      registry = all_tools\<rparr>"

lemma boot_new: "\<exists>out. boot p agent_new = Inr (booted, out)"
proof -
  have tc: "estimate_tokens system_prompt = 51"
    by (simp add: estimate_tokens_def system_prompt_def)
  have "evict_loop p 51 (context_new 4096) [] = Inr (context_new 4096, [])"
    by (subst evict_loop.simps) (simp add: context_new_def u64_bound_def)
  then show ?thesis
    by (simp add: boot_def agent_new_def push_message_def tc prompt_message_def new_message_def
        context_new_def u64_bound_def Let_def booted_def all_tools_def)
qed

lemma agent_inv_booted: "agent_inv booted"
  by (simp add: agent_inv_def booted_def window_inv_def prompt_message_def new_message_def)

lemma agent_inv_boot: "boot p agent_new = Inr (ag, out) \<Longrightarrow> agent_inv ag"
  using boot_new [of p] agent_inv_booted by auto

lemma booted_room: "t + n < 1000000 \<Longrightarrow> room_for t n (ctx booted)"
  by (simp add: room_for_def booted_def prompt_message_def new_message_def estimate_tokens_def
      system_prompt_def u64_bound_def)

subsection \<open>A successful tool call\<close>

lemma tool_call_parts_space:
  "CHR '' '' \<notin> set name \<Longrightarrow> tool_call_parts (name @ CHR '' '' # args) = (name, args)"
  by (simp add: tool_call_parts_def splitn2_first)

lemma starts_with_append: "starts_with pre (pre @ s)"
  by (simp add: starts_with_def)

lemma respond_tool: "respond p (''/tool '' @ call) ag = handle_tool_call p call ag"
  using starts_with_append [of "''/tool ''" call] by (simp add: respond_def)

lemma process_tool_ok:
  assumes "agent_inv ag" and "CHR '' '' \<notin> set name"
    and "execute Debug name args (registry ag) = Inr (Inr ok, reg)"
    and "input = ''/tool '' @ name @ CHR '' '' # args"
    and "room_for (estimate_tokens input + 2 * estimate_tokens ok + t) (n + 3) (ctx ag)"
  obtains out ag' where "\<forall>p. process_input p input ag = Inr ((ok, out), ag')"
    and "registry ag' = reg" and "agent_inv ag'" and "room_for t n (ctx ag')"
proof -
  have room: "room_for (estimate_tokens input + (estimate_tokens ok + (estimate_tokens ok + t)))
      (Suc (Suc (Suc n))) (ctx ag)"
    using assms(5) by (rule room_for_mono) simp_all
  have "window_inv (ctx ag)" using assms(1) by (simp add: agent_inv_def)
  from push_room [OF this room, of Debug User] obtain k1 cw1 where
      p1: "push_message Debug User input (ctx ag) = Inr (cw1, eviction_log (ctx ag) k1)"
    and i1: "pushed User input (ctx ag) k1 cw1"
    and r1: "room_for (estimate_tokens ok + (estimate_tokens ok + t)) (Suc (Suc n)) cw1" .
  from i1 have "window_inv cw1" by (simp add: pushed_def)
  from push_room [OF this r1, of Debug Tool] obtain k2 cw2 where
      p2: "push_message Debug Tool ok cw1 = Inr (cw2, eviction_log cw1 k2)"
    and i2: "pushed Tool ok cw1 k2 cw2"
    and r2: "room_for (estimate_tokens ok + t) (Suc n) cw2" .
  from i2 have "window_inv cw2" by (simp add: pushed_def)
  from push_room [OF this r2, of Debug Assistant] obtain k3 cw3 where
      p3: "push_message Debug Assistant ok cw2 = Inr (cw3, eviction_log cw2 k3)"
    and r3: "room_for t n cw3" .
  have "handle_tool_call Debug (name @ CHR '' '' # args) (ag\<lparr>ctx := cw1\<rparr>) =
      Inr ((ok, eviction_log cw1 k2), ag\<lparr>ctx := cw2, registry := reg\<rparr>)"
    using assms(3) p2 by (simp add: handle_tool_call_def tool_call_parts_space [OF assms(2)])
  then obtain out where run: "process_input Debug input ag = Inr ((ok, out), ag\<lparr>ctx := cw3, registry := reg\<rparr>)"
    using p1 p3 respond_tool [of Debug "name @ CHR '' '' # args"]
    unfolding assms(4) process_input_def by simp
  show ?thesis
    using that [OF allI, OF process_input_Debug(3) [OF assms(1) run]] process_input_Debug(1) [OF assms(1) run] r3
    by simp
qed

lemma booted_echo:
  "\<exists>out ag. \<forall>p. process_input p ''/tool echo hi'' booted = Inr ((''[echo] hi'', out), ag)"
proof -
  have "registered Echo (registry booted)" using agent_inv_booted by (simp add: agent_inv_def)
  then have ex: "execute Debug ''echo'' ''hi'' (registry booted) = Inr (Inr ''[echo] hi'', registry booted)"
    by (simp add: execute_def registered_def)
  have room: "room_for (estimate_tokens ''/tool echo hi'' + 2 * estimate_tokens ''[echo] hi'' + 0) (0 + 3) (ctx booted)"
    by (rule booted_room) (simp add: estimate_tokens_def)
  have call: "''/tool echo hi'' = ''/tool '' @ ''echo'' @ CHR '' '' # ''hi''" and sp: "CHR '' '' \<notin> set ''echo''"
    by simp_all
  obtain out ag where "\<forall>p. process_input p ''/tool echo hi'' booted = Inr ((''[echo] hi'', out), ag)"
      "registry ag = registry booted" "agent_inv ag" "room_for 0 0 (ctx ag)"
    by (rule process_tool_ok [OF agent_inv_booted sp ex call room])
  then show ?thesis by blast
qed

subsection \<open>The window and the whole conversation\<close>













subsection \<open>Properties\<close>

text \<open>
  C4: Along every run of the booted agent the system prompt stays the first message and the
  only system message, the token counter equals the sum over the messages, the limit stays 4096
  and the registry holds exactly the four built-in tools; every input is answered, and the answer
  to the last one is the last message of the window.
\<close>

theorem agent_run_invariant:
  assumes "boot p agent_new = Inr (ag0, out0)"
    and "run_steps (process_input Debug) inputs ag0 = Inr (answers, ag)"
  shows "(\<exists>rest. messages (ctx ag) = new_message System system_prompt # rest \<and> (\<forall>m \<in> set rest. role m \<noteq> System)) \<and>
    current_tokens (ctx ag) = tokens (messages (ctx ag)) \<and> max_tokens (ctx ag) = 4096 \<and>
    tool_names (registry ag) = [''calc'', ''echo'', ''recall'', ''store''] \<and>
    length answers = length inputs \<and>
    (inputs \<noteq> [] \<longrightarrow> last (messages (ctx ag)) = new_message Assistant (fst (last answers)))"
proof -
  have inv0: "agent_inv ag0" using assms(1) by (rule agent_inv_boot)
  have inv: "agent_inv ag" by (rule ag.run_inv [OF inv0 assms(2)])
  have len: "length answers = length inputs" by (rule ag.run_length [OF assms(2)])
  have "last (messages (ctx ag)) = new_message Assistant (fst (last answers))" if "inputs \<noteq> []"
  proof -
    from that obtain ins i where ins: "inputs = ins @ [i]" by (metis rev_exhaust)
    then obtain os1 ag1 r where "run_steps (process_input Debug) ins ag0 = Inr (os1, ag1)"
        "process_input Debug i ag1 = Inr (r, ag)" "answers = os1 @ [r]"
      using assms(2) by (auto simp: run_steps_append bind_rust_eq_Inr)
    then show ?thesis
      using process_input_Debug(2) [OF ag.run_inv [OF inv0]] by (auto simp: answered_def)
  qed
  moreover have "tool_names (registry ag) = [''calc'', ''echo'', ''recall'', ''store'']"
    using inv by (intro registered_tool_names) (simp_all add: agent_inv_def)
  ultimately show ?thesis
    using inv len by (auto simp: agent_inv_def window_inv_def prompt_message_def evictable_def)
qed

theorem agent_run_invariant_witness:
  "\<exists>out0 answers ag. boot Debug agent_new = Inr (booted, out0) \<and>
     run_steps (process_input Debug) [''/tool echo hi''] booted = Inr (answers, ag) \<and>
     last (messages (ctx ag)) = new_message Assistant (fst (last answers))"
proof -
  obtain out0 where b: "boot Debug agent_new = Inr (booted, out0)" using boot_new by blast
  obtain out ag where "\<forall>p. process_input p ''/tool echo hi'' booted = Inr ((''[echo] hi'', out), ag)"
    using booted_echo by blast
  then have r: "run_steps (process_input Debug) [''/tool echo hi''] booted = Inr ([(''[echo] hi'', out)], ag)"
    by simp
  from b r agent_run_invariant [OF b r] show ?thesis by blast
qed



text \<open>
  C29: An erroneous tool call changes nothing but the answer: the text is prefixed with
  \<^verbatim>\<open>Tool error:\<close>, no tool message enters the context window and the registry and its memory
  stay as they were.
\<close>

theorem tool_error_changes_nothing:
  assumes "tool_call_parts call = (name, args)" and "execute p name args (registry ag) = Inr (Inl e, reg)"
  shows "handle_tool_call p call ag = Inr ((''Tool error: '' @ e, []), ag)"
  using assms execute_error_unchanged [OF assms(2)] by (simp add: handle_tool_call_def)

theorem tool_error_changes_nothing_witness:
  "handle_tool_call Debug ''store onlykey'' booted =
     Inr ((''Tool error: '' @ ''Usage: /tool store <key> <value>'', []), booted)"
proof -
  have "tool_call_parts ''store onlykey'' = (''store'', ''onlykey'')"
    by (simp add: tool_call_parts_def)
  moreover have "registered MemoryStore (registry booted)"
    using agent_inv_booted by (simp add: agent_inv_def)
  then have "execute Debug ''store'' ''onlykey'' (registry booted) =
      Inr (Inl ''Usage: /tool store <key> <value>'', registry booted)"
    by (simp add: execute_def registered_def exec_memory_store_usage)
  ultimately show ?thesis by (rule tool_error_changes_nothing)
qed

text \<open>
  C16: What the user stores with \<^verbatim>\<open>/tool store\<close> a later \<^verbatim>\<open>/tool recall\<close> answers, through the
  whole agent and under both build profiles, as long as the counters leave room for the six
  messages of the two inputs.
\<close>

theorem agent_store_recall:
  assumes "agent_inv ag" and "CHR '' '' \<notin> set key" and "trim key = key"
    and "room_for (6 * (length key + length val) + 60) 6 (ctx ag)"
  shows "\<exists>out1 ag1 out2 ag2.
    process_input p (''/tool store '' @ key @ '' '' @ val) ag = Inr ((''Stored: '' @ key @ '' = '' @ val, out1), ag1) \<and>
    process_input p (''/tool recall '' @ key) ag1 = Inr ((key @ '' = '' @ val, out2), ag2)"
proof -
  let ?i1 = "''/tool store '' @ key @ '' '' @ val" and ?ok1 = "''Stored: '' @ key @ '' = '' @ val"
  let ?i2 = "''/tool recall '' @ key" and ?ok2 = "key @ '' = '' @ val"
  have reg: "registry_inv (registry ag)" "\<And>t. registered t (registry ag)"
    using assms(1) by (simp_all add: agent_inv_def)
  obtain reg1 where ex1: "execute Debug ''store'' (key @ CHR '' '' # val) (registry ag) = Inr (Inr ?ok1, reg1)"
    and ex2: "execute Debug ''recall'' key reg1 = Inr (Inr ?ok2, reg1)"
    using exec_memory_store_split [OF assms(2), of val "registry ag"] store_get [OF reg(1), of key val]
      reg(2) [of MemoryStore] reg(2) [of MemoryRecall] assms(3)
    by (auto simp: execute_def registered_def exec_memory_recall_def)
  have "room_for (estimate_tokens ?i1 + 2 * estimate_tokens ?ok1 + (estimate_tokens ?i2 + 2 * estimate_tokens ?ok2))
      (3 + 3) (ctx ag)"
    using assms(4) estimate_tokens_le [of ?i1] estimate_tokens_le [of ?ok1]
      estimate_tokens_le [of ?i2] estimate_tokens_le [of ?ok2]
    by (elim room_for_mono) simp_all
  moreover have "?i1 = ''/tool '' @ ''store'' @ CHR '' '' # (key @ CHR '' '' # val)" and "CHR '' '' \<notin> set ''store''"
    by simp_all
  ultimately obtain out1 ag1 where s1: "\<forall>p. process_input p ?i1 ag = Inr ((?ok1, out1), ag1)"
      and a1: "registry ag1 = reg1" "agent_inv ag1"
        "room_for (estimate_tokens ?i2 + 2 * estimate_tokens ?ok2) 3 (ctx ag1)"
    using process_tool_ok [OF assms(1) _ ex1] by metis
  have "?i2 = ''/tool '' @ ''recall'' @ CHR '' '' # key" and "CHR '' '' \<notin> set ''recall''"
    and "execute Debug ''recall'' key (registry ag1) = Inr (Inr ?ok2, reg1)"
    and "room_for (estimate_tokens ?i2 + 2 * estimate_tokens ?ok2 + 0) (0 + 3) (ctx ag1)"
    using ex2 a1(1,3) by simp_all
  then obtain out2 ag2 where "\<forall>p. process_input p ?i2 ag1 = Inr ((?ok2, out2), ag2)"
    using process_tool_ok [OF a1(2)] by metis
  with s1 show ?thesis by blast
qed

theorem agent_store_recall_witness:
  "\<exists>out1 ag1 out2 ag2.
    process_input Release (''/tool store '' @ ''pi'' @ '' '' @ ''3.14'') booted = Inr ((''Stored: '' @ ''pi'' @ '' = '' @ ''3.14'', out1), ag1) \<and>
    process_input Release (''/tool recall '' @ ''pi'') ag1 = Inr ((''pi'' @ '' = '' @ ''3.14'', out2), ag2)"
proof (rule agent_store_recall [OF agent_inv_booted])
  show "trim ''pi'' = ''pi''" by code_simp
  show "room_for (6 * (length ''pi'' + length ''3.14'') + 60) 6 (ctx booted)"
    by (rule booted_room) simp
qed simp

text \<open>
  Booting a fresh agent always succeeds: the window then holds the system prompt alone (51
  of 4096 tokens, nothing evicted), the four tools are registered and the memory is empty.
\<close>

lemma boot_ready:
  "\<exists>ag out. boot p agent_new = Inr (ag, out) \<and> messages (ctx ag) = [new_message System system_prompt] \<and>
    current_tokens (ctx ag) = 51 \<and> max_tokens (ctx ag) = 4096 \<and> total_evicted (ctx ag) = 0 \<and>
    tool_names (registry ag) = [''calc'', ''echo'', ''recall'', ''store''] \<and> memory (registry ag) = [] \<and>
    agent_inv ag"
proof -
  obtain out where boot: "boot p agent_new = Inr (booted, out)"
    using boot_new [of p] by blast
  have "tool_names (registry booted) = [''calc'', ''echo'', ''recall'', ''store'']"
    using agent_inv_booted by (intro registered_tool_names) (simp_all add: agent_inv_def)
  then show ?thesis
    using boot agent_inv_booted
    by (auto simp: booted_def prompt_message_def new_message_def estimate_tokens_def system_prompt_def
        all_tools_def register_def registry_new_def)
qed

end
