(* ===== verification/MemoryMap.thy ===== *)
theory MemoryMap
  imports Prelude "HOL-Library.Multiset"
begin

text \<open>
  The memory map of \<^verbatim>\<open>bootloader/src/bootinfo/memory_map.rs\<close>: a fixed array of 64 regions of
  physical frames with the number of used slots, kept sorted with the empty regions last.

  \<^verbatim>\<open>sort_unstable_by\<close> of the standard library is the parameter \<open>srt\<close> of the operations that
  sort: it is free to order equal elements as it likes. The standard library only ever asks
  whether the comparator answers \<^verbatim>\<open>Less\<close>; the locale \<open>unstable_sort\<close> states that the result is
  a permutation of the input, in order whenever that question is a strict weak order. The lemmas
  on the map are proved inside it and the locale is interpreted by an insertion sort.

  The abstract view of a map is \<open>owners m f\<close>, the multiset of the types of the regions that hold
  frame \<open>f\<close>: it is insensitive to order and to the empty slots.
\<close>

subsection \<open>Frame ranges\<close>

definition page_size :: u64 where
  "page_size = 4096"

record frame_range =
  start_frame_number :: u64
  end_frame_number :: u64

definition frame_range_new :: "profile \<Rightarrow> u64 \<Rightarrow> u64 \<Rightarrow> frame_range rust" where
  "frame_range_new p start_addr end_addr =
     bind_rust (u64_sub p end_addr 1) (\<lambda>last_byte.
       bind_rust (u64_add p (last_byte div page_size) 1) (\<lambda>e.
         Inr \<lparr>start_frame_number = start_addr div page_size, end_frame_number = e\<rparr>))"

definition is_empty :: "frame_range \<Rightarrow> bool" where
  "is_empty r \<longleftrightarrow> start_frame_number r = end_frame_number r"

definition start_addr :: "profile \<Rightarrow> frame_range \<Rightarrow> u64 rust" where
  "start_addr p r = u64_mul p (start_frame_number r) page_size"

definition end_addr :: "profile \<Rightarrow> frame_range \<Rightarrow> u64 rust" where
  "end_addr p r = u64_mul p (end_frame_number r) page_size"

subsection \<open>Regions\<close>

datatype memory_region_type =
    Usable | InUse | Reserved | AcpiReclaimable | AcpiNvs | BadMemory | Kernel | KernelStack
  | PageTable | Bootloader | FrameZero | Empty | BootInfo | Package | NonExhaustive

record memory_region =
  rng :: frame_range
  region_type :: memory_region_type

definition region_empty :: memory_region where
  "region_empty = \<lparr>rng = \<lparr>start_frame_number = 0, end_frame_number = 0\<rparr>, region_type = Empty\<rparr>"

record e820_memory_region =
  e820_start_addr :: u64
  e820_len :: u64
  e820_region_type :: nat
  e820_acpi_extended_attributes :: nat

definition e820_type :: "nat \<Rightarrow> memory_region_type rust" where
  "e820_type t =
     (if t = 1 then Inr Usable
      else if t = 2 then Inr Reserved
      else if t = 3 then Inr AcpiReclaimable
      else if t = 4 then Inr AcpiNvs
      else if t = 5 then Inr BadMemory
      else Inl (Explicit_panic ''invalid region type''))"

definition region_from_e820 :: "profile \<Rightarrow> e820_memory_region \<Rightarrow> memory_region rust" where
  "region_from_e820 p e =
     bind_rust (e820_type (e820_region_type e)) (\<lambda>t.
       bind_rust (u64_add p (e820_start_addr e) (e820_len e)) (\<lambda>end_addr.
         bind_rust (frame_range_new p (e820_start_addr e) end_addr) (\<lambda>r.
           Inr \<lparr>rng = r, region_type = t\<rparr>)))"

subsection \<open>The comparator and the sort\<close>

datatype ordering = Less | Equal | Greater

definition cmp_u64 :: "u64 \<Rightarrow> u64 \<Rightarrow> ordering" where
  "cmp_u64 a b = (if a < b then Less else if a = b then Equal else Greater)"

definition region_cmp :: "memory_region \<Rightarrow> memory_region \<Rightarrow> ordering" where
  "region_cmp r1 r2 =
     (if is_empty (rng r1) then Greater
      else if is_empty (rng r2) then Less
      else let ordering = cmp_u64 (start_frame_number (rng r1)) (start_frame_number (rng r2))
        in if ordering = Equal
           then cmp_u64 (end_frame_number (rng r1)) (end_frame_number (rng r2))
           else ordering)"

type_synonym 'a sort_by = "('a \<Rightarrow> 'a \<Rightarrow> ordering) \<Rightarrow> 'a list \<Rightarrow> 'a list"

definition strict_weak :: "('a \<Rightarrow> 'a \<Rightarrow> bool) \<Rightarrow> bool" where
  "strict_weak lt \<longleftrightarrow>
     (\<forall>a. \<not> lt a a) \<and> (\<forall>a b c. lt a b \<longrightarrow> lt b c \<longrightarrow> lt a c) \<and>
     (\<forall>a b c. \<not> lt a b \<longrightarrow> \<not> lt b c \<longrightarrow> \<not> lt a c)"

lemma strict_weak_asym: "strict_weak lt \<Longrightarrow> lt a b \<Longrightarrow> \<not> lt b a"
  unfolding strict_weak_def by blast

lemma strict_weak_not_trans: "strict_weak lt \<Longrightarrow> \<not> lt a b \<Longrightarrow> \<not> lt b c \<Longrightarrow> \<not> lt a c"
  unfolding strict_weak_def by blast

subsection \<open>The map\<close>

definition max_memory_map_size :: usize where
  "max_memory_map_size = 64"

record memory_map =
  entries :: "memory_region list"
  next_entry_index :: u64

definition memory_map_new :: memory_map where
  "memory_map_new =
     \<lparr>entries = replicate max_memory_map_size region_empty, next_entry_index = 0\<rparr>"

definition mm_sort :: "memory_region sort_by \<Rightarrow> memory_map \<Rightarrow> memory_map" where
  "mm_sort srt m =
     (let es = srt region_cmp (entries m)
      in case position (\<lambda>r. is_empty (rng r)) es of
           Some first_zero_index \<Rightarrow> \<lparr>entries = es, next_entry_index = first_zero_index\<rparr>
         | None \<Rightarrow> m\<lparr>entries := es\<rparr>)"

definition add_region ::
  "memory_region sort_by \<Rightarrow> profile \<Rightarrow> memory_region \<Rightarrow> memory_map \<Rightarrow> memory_map rust" where
  "add_region srt p region m =
     (if next_entry_index m < max_memory_map_size
      then bind_rust (u64_add p (next_entry_index m) 1) (\<lambda>n.
             Inr (mm_sort srt \<lparr>entries = (entries m)[next_entry_index m := region], next_entry_index = n\<rparr>))
      else Inl (Explicit_panic ''too many memory regions in memory map''))"

text \<open>\<^verbatim>\<open>Deref\<close> and \<^verbatim>\<open>DerefMut\<close>: the used part of the array, and writing it back.\<close>

definition mm_deref :: "memory_map \<Rightarrow> memory_region list" where
  "mm_deref m = take (next_entry_index m) (entries m)"

definition mm_write :: "memory_map \<Rightarrow> memory_region list \<Rightarrow> memory_map" where
  "mm_write m rs = m\<lparr>entries := rs @ drop (next_entry_index m) (entries m)\<rparr>"

subsection \<open>Well-formed maps and the abstract view\<close>

definition holds :: "memory_region \<Rightarrow> u64 \<Rightarrow> bool" where
  "holds r f \<longleftrightarrow> start_frame_number (rng r) \<le> f \<and> f < end_frame_number (rng r)"

definition type_at :: "u64 \<Rightarrow> memory_region \<Rightarrow> memory_region_type multiset" where
  "type_at f r = (if holds r f then {#region_type r#} else {#})"

definition types_at :: "u64 \<Rightarrow> memory_region list \<Rightarrow> memory_region_type multiset" where
  "types_at f rs = mset (map region_type (filter (\<lambda>r. holds r f) rs))"

definition owners :: "memory_map \<Rightarrow> u64 \<Rightarrow> memory_region_type multiset" where
  "owners m f = types_at f (mm_deref m)"

text \<open>
  Physical addresses have 52 bits, so frame numbers are below \<open>2 ^ 40\<close>; the end of a region must
  be a valid frame address as well.
\<close>

definition frame_bound :: u64 where
  "frame_bound = 1099511627776"

definition region_ok :: "memory_region \<Rightarrow> bool" where
  "region_ok r \<longleftrightarrow> start_frame_number (rng r) \<le> end_frame_number (rng r) \<and> end_frame_number (rng r) < frame_bound"

definition mm_wf :: "memory_map \<Rightarrow> bool" where
  "mm_wf m \<longleftrightarrow>
     length (entries m) = max_memory_map_size \<and> next_entry_index m \<le> max_memory_map_size \<and>
     (\<forall>r \<in> set (drop (next_entry_index m) (entries m)). is_empty (rng r)) \<and>
     (\<forall>r \<in> set (entries m). region_ok r)"

definition mm_shape :: "memory_map \<Rightarrow> bool" where
  "mm_shape m \<longleftrightarrow>
     length (entries m) = max_memory_map_size \<and> next_entry_index m \<le> max_memory_map_size \<and>
     (\<forall>r \<in> set (drop (next_entry_index m) (entries m)). is_empty (rng r))"

lemma mm_wf_shape: "mm_wf m \<longleftrightarrow> mm_shape m \<and> (\<forall>r \<in> set (entries m). region_ok r)"
  by (simp add: mm_wf_def mm_shape_def)

lemma types_at_simps [simp]:
  "types_at f [] = {#}"
  "types_at f (r # rs) = type_at f r + types_at f rs"
  "types_at f (rs @ ss) = types_at f rs + types_at f ss"
  by (simp_all add: types_at_def type_at_def)

lemma types_at_empty: "(\<forall>r \<in> set rs. is_empty (rng r)) \<Longrightarrow> types_at f rs = {#}"
  by (induction rs) (auto simp: type_at_def is_empty_def holds_def)

lemma types_at_mset: "mset rs = mset ss \<Longrightarrow> types_at f rs = types_at f ss"
  unfolding types_at_def by (metis mset_filter mset_map)

lemma types_at_member: "t \<in># types_at f rs \<longleftrightarrow> (\<exists>r \<in> set rs. holds r f \<and> region_type r = t)"
  by (auto simp: types_at_def)

lemma owners_entries: "mm_wf m \<Longrightarrow> owners m f = types_at f (entries m)"
  using types_at_empty [of "drop (next_entry_index m) (entries m)" f]
    types_at_simps(3) [of f "take (next_entry_index m) (entries m)" "drop (next_entry_index m) (entries m)"]
  by (simp add: owners_def mm_deref_def mm_wf_def)

lemma region_cmp_less:
  "region_cmp a b = Less \<longleftrightarrow>
     \<not> is_empty (rng a) \<and>
     (is_empty (rng b) \<or> start_frame_number (rng a) < start_frame_number (rng b) \<or>
      start_frame_number (rng a) = start_frame_number (rng b) \<and>
      end_frame_number (rng a) < end_frame_number (rng b))"
  by (auto simp: region_cmp_def cmp_u64_def Let_def)

lemma strict_weak_region_cmp: "strict_weak (\<lambda>a b. region_cmp a b = Less)"
  unfolding strict_weak_def region_cmp_less by (intro conjI allI) auto

subsection \<open>Sorting, from the sort's contract\<close>

text \<open>
  The documentation of \<^verbatim>\<open>sort_unstable_by\<close> asks for a total order, which the comparator of the code is not (two empty
  regions are each greater than the other); it promises a permutation in any case. The contract asks for what a sort
  that only tests for \<^verbatim>\<open>Less\<close>, as the one of the standard library does, needs: that \<^verbatim>\<open>Less\<close> is a strict weak order.
\<close>

locale unstable_sort =
  fixes srt :: "'a sort_by"
  assumes srt_mset: "mset (srt cmp xs) = mset xs"
    and srt_sorted: "strict_weak (\<lambda>a b. cmp a b = Less) \<Longrightarrow>
        sorted_wrt (\<lambda>a b. cmp b a \<noteq> Less) (srt cmp xs)"
begin

lemma length_srt: "length (srt cmp xs) = length xs"
  using srt_mset by (metis size_mset)

lemma set_srt: "set (srt cmp xs) = set xs"
  using srt_mset by (metis set_mset_mset)

end

fun insert_by :: "('a \<Rightarrow> 'a \<Rightarrow> ordering) \<Rightarrow> 'a \<Rightarrow> 'a list \<Rightarrow> 'a list" where
  "insert_by cmp x [] = [x]"
| "insert_by cmp x (y # ys) = (if cmp y x = Less then y # insert_by cmp x ys else x # y # ys)"

definition insertion_sort_by :: "'a sort_by" where
  "insertion_sort_by cmp xs = foldr (insert_by cmp) xs []"

lemma mset_insert_by: "mset (insert_by cmp x ys) = add_mset x (mset ys)"
  by (induction ys) auto

lemma set_insert_by: "set (insert_by cmp x ys) = insert x (set ys)"
  by (induction ys) auto

lemma sorted_insert_by:
  assumes "strict_weak (\<lambda>a b. cmp a b = Less)"
  shows "sorted_wrt (\<lambda>a b. cmp b a \<noteq> Less) ys \<Longrightarrow> sorted_wrt (\<lambda>a b. cmp b a \<noteq> Less) (insert_by cmp x ys)"
proof (induction ys)
  case (Cons y ys)
  have asym: "cmp x y \<noteq> Less" if "cmp y x = Less"
    using strict_weak_asym [OF assms] that by blast
  have trans: "cmp z x \<noteq> Less" if "cmp y x \<noteq> Less" "cmp z y \<noteq> Less" for z
    using strict_weak_not_trans [OF assms] that by blast
  show ?case
    using Cons asym trans by (auto simp: set_insert_by)
qed simp

interpretation ins: unstable_sort "insertion_sort_by :: 'a sort_by"
proof unfold_locales
  fix cmp :: "'a \<Rightarrow> 'a \<Rightarrow> ordering" and xs :: "'a list"
  show "mset (insertion_sort_by cmp xs) = mset xs"
    by (induction xs) (simp_all add: insertion_sort_by_def mset_insert_by)
  show "sorted_wrt (\<lambda>a b. cmp b a \<noteq> Less) (insertion_sort_by cmp xs)"
    if "strict_weak (\<lambda>a b. cmp a b = Less)"
    using that by (induction xs) (simp_all add: insertion_sort_by_def sorted_insert_by)
qed

text \<open>The map's operations under the contract.\<close>

definition region_before :: "memory_region \<Rightarrow> memory_region \<Rightarrow> bool" where
  "region_before a b \<longleftrightarrow>
     start_frame_number (rng a) < start_frame_number (rng b) \<or>
     start_frame_number (rng a) = start_frame_number (rng b) \<and>
     end_frame_number (rng a) \<le> end_frame_number (rng b)"

lemma sorted_split_empty:
  assumes "sorted_wrt (\<lambda>a b. region_cmp b a \<noteq> Less) es"
  shows "\<exists>n \<le> length es. (\<forall>r \<in> set (take n es). \<not> is_empty (rng r)) \<and> (\<forall>r \<in> set (drop n es). is_empty (rng r)) \<and>
    sorted_wrt region_before (take n es)"
  using assms
proof (induction es)
  case (Cons e es)
  show ?case
  proof (cases "is_empty (rng e)")
    case True
    then have "\<forall>r \<in> set (e # es). is_empty (rng r)"
      using Cons.prems by (auto simp: region_cmp_less)
    then show ?thesis by (intro exI [of _ 0]) simp
  next
    case False
    obtain n where n: "n \<le> length es" "\<forall>r \<in> set (take n es). \<not> is_empty (rng r)"
        "\<forall>r \<in> set (drop n es). is_empty (rng r)" "sorted_wrt region_before (take n es)"
      using Cons by auto
    have "region_before e r" if "r \<in> set (take n es)" for r
    proof -
      have "r \<in> set es" and "\<not> is_empty (rng r)"
        using that n(2) by (auto dest: in_set_takeD)
      then have "region_cmp r e \<noteq> Less" using Cons.prems by auto
      with \<open>\<not> is_empty (rng r)\<close> False show ?thesis
        by (auto simp: region_cmp_less region_before_def)
    qed
    then show ?thesis
      using n False by (intro exI [of _ "Suc n"]) auto
  qed
qed simp

lemma types_at_update:
  assumes "i < length rs"
  shows "types_at f (rs[i := r]) + type_at f (rs ! i) = types_at f rs + type_at f r"
  using assms
proof (induction rs arbitrary: i)
  case (Cons x rs)
  show ?case
  proof (cases i)
    case (Suc j)
    with Cons.IH [of j] Cons.prems show ?thesis by (simp add: ac_simps)
  qed (simp add: ac_simps)
qed simp

definition nonempty_count :: "memory_region list \<Rightarrow> nat" where
  "nonempty_count rs = length (filter (\<lambda>r. \<not> is_empty (rng r)) rs)"

lemma nonempty_count_mset: "mset rs = mset ss \<Longrightarrow> nonempty_count rs = nonempty_count ss"
  unfolding nonempty_count_def by (metis mset_filter size_mset)

lemma nonempty_count_split:
  assumes "\<forall>r \<in> set (drop n rs). is_empty (rng r)"
  shows "nonempty_count rs = nonempty_count (take n rs)"
proof -
  have "filter (\<lambda>r. \<not> is_empty (rng r)) (drop n rs) = []"
    using assms by (simp add: filter_empty_conv)
  then show ?thesis
    unfolding nonempty_count_def
    by (metis append.right_neutral append_take_drop_id filter_append)
qed

lemma nonempty_count_bound: "mm_wf m \<Longrightarrow> nonempty_count (entries m) \<le> next_entry_index m"
  using nonempty_count_split [of "next_entry_index m" "entries m"]
  by (simp add: mm_wf_def nonempty_count_def le_trans [OF length_filter_le])

locale region_sort = unstable_sort srt for srt :: "memory_region sort_by"
begin

lemma mm_sort_result:
  assumes "mm_shape m"
  obtains es n where "mm_sort srt m = \<lparr>entries = es, next_entry_index = n\<rparr>"
    and "mset es = mset (entries m)" and "n \<le> length es"
    and "\<forall>r \<in> set (take n es). \<not> is_empty (rng r)" and "\<forall>r \<in> set (drop n es). is_empty (rng r)"
    and "sorted_wrt region_before (take n es)"
proof -
  let ?es = "srt region_cmp (entries m)"
  obtain n where n: "n \<le> length ?es" "\<forall>r \<in> set (take n ?es). \<not> is_empty (rng r)"
      "\<forall>r \<in> set (drop n ?es). is_empty (rng r)" "sorted_wrt region_before (take n ?es)"
    using sorted_split_empty [OF srt_sorted [OF strict_weak_region_cmp]] by blast
  have len: "length ?es = 64" "next_entry_index m \<le> 64"
    using assms by (simp_all add: length_srt mm_shape_def max_memory_map_size_def)
  have "mm_sort srt m = \<lparr>entries = ?es, next_entry_index = n\<rparr>"
  proof (cases "n < length ?es")
    case True
    then have "?es ! n \<in> set (drop n ?es)"
      by (metis Cons_nth_drop_Suc list.set_intros(1))
    then have "position (\<lambda>r. is_empty (rng r)) ?es = Some n"
      using True n(2,3) by (simp add: position_Some)
    then show ?thesis by (simp add: mm_sort_def Let_def)
  next
    case False
    then have none: "\<forall>r \<in> set ?es. \<not> is_empty (rng r)" and "n = 64" using n(1,2) len by auto
    have "r \<notin> set (drop (next_entry_index m) (entries m))" for r
      using none assms in_set_dropD [of r "next_entry_index m" "entries m"]
      by (auto simp: mm_shape_def set_srt)
    then have "drop (next_entry_index m) (entries m) = []"
      by (metis list.set_intros(1) neq_Nil_conv)
    then have "next_entry_index m = 64"
      using assms len by (simp add: mm_shape_def max_memory_map_size_def)
    moreover have "position (\<lambda>r. is_empty (rng r)) ?es = None"
      using none by (simp add: position_None)
    ultimately show ?thesis
      using \<open>n = 64\<close> by (simp add: mm_sort_def Let_def)
  qed
  with n srt_mset that show ?thesis by blast
qed

lemma mm_sort_correct:
  assumes "mm_wf m"
  shows "mm_wf (mm_sort srt m)" and "owners (mm_sort srt m) f = owners m f"
    and "sorted_wrt region_before (mm_deref (mm_sort srt m))"
    and "\<forall>r \<in> set (mm_deref (mm_sort srt m)). \<not> is_empty (rng r)"
    and "next_entry_index (mm_sort srt m) = nonempty_count (entries m)"
proof -
  obtain es n where r: "mm_sort srt m = \<lparr>entries = es, next_entry_index = n\<rparr>"
    "mset es = mset (entries m)" "n \<le> length es"
    "\<forall>r \<in> set (take n es). \<not> is_empty (rng r)" "\<forall>r \<in> set (drop n es). is_empty (rng r)"
    "sorted_wrt region_before (take n es)"
    using mm_sort_result assms unfolding mm_wf_shape by blast
  have "length es = length (entries m)" "set es = set (entries m)"
    using r(2) by (metis size_mset, metis set_mset_mset)
  then show wf: "mm_wf (mm_sort srt m)"
    using assms r(3,5) by (simp add: r(1) mm_wf_def)
  show "owners (mm_sort srt m) f = owners m f"
    using owners_entries [OF wf, of f] owners_entries [OF assms, of f] types_at_mset [OF r(2)]
    by (simp add: r(1))
  show "sorted_wrt region_before (mm_deref (mm_sort srt m))"
    and "\<forall>r \<in> set (mm_deref (mm_sort srt m)). \<not> is_empty (rng r)"
    using r(4,6) by (simp_all add: r(1) mm_deref_def)
  have "nonempty_count (take n es) = n"
    using r(3,4) by (simp add: nonempty_count_def)
  then show "next_entry_index (mm_sort srt m) = nonempty_count (entries m)"
    using nonempty_count_split [OF r(5)] nonempty_count_mset [OF r(2)] by (simp add: r(1))
qed

lemma add_region_correct:
  assumes "mm_wf m" and "region_ok r" and "next_entry_index m < max_memory_map_size"
  obtains m' where "add_region srt p r m = Inr m'" and "mm_wf m'"
    and "\<And>f. owners m' f = owners m f + type_at f r"
    and "sorted_wrt region_before (mm_deref m')" and "next_entry_index m' \<le> next_entry_index m + 1"
proof -
  let ?n = "next_entry_index m"
  define m1 where "m1 = \<lparr>entries = (entries m)[?n := r], next_entry_index = Suc ?n\<rparr>"
  have len: "?n < length (entries m)"
    using assms(1,3) by (simp add: mm_wf_def)
  have "entries m ! ?n \<in> set (drop ?n (entries m))"
    using len by (metis Cons_nth_drop_Suc list.set_intros(1))
  then have slot: "type_at f (entries m ! ?n) = {#}" for f
    using assms(1) by (auto simp: mm_wf_def is_empty_def holds_def type_at_def)
  have wf1: "mm_wf m1"
    using assms len set_update_subset_insert [of "entries m" ?n r]
      set_drop_subset_set_drop [of ?n "Suc ?n" "entries m"]
    by (auto simp: m1_def mm_wf_def drop_update_cancel)
  have own1: "owners m1 f = owners m f + type_at f r" for f
    using types_at_update [OF len, of f r] slot
    by (simp add: owners_entries [OF wf1] owners_entries [OF assms(1)], simp add: m1_def)
  have add: "add_region srt p r m = Inr (mm_sort srt m1)"
    using assms(3) by (simp add: add_region_def m1_def max_memory_map_size_def u64_bound_def)
  show ?thesis
  proof (rule that [OF add])
    show "next_entry_index (mm_sort srt m1) \<le> next_entry_index m + 1"
      using mm_sort_correct(5) [OF wf1] nonempty_count_bound [OF wf1] by (simp add: m1_def)
  qed (use mm_sort_correct [OF wf1] own1 in auto)
qed

lemma add_region_full:
  "\<not> next_entry_index m < max_memory_map_size \<Longrightarrow>
   add_region srt p r m = Inl (Explicit_panic ''too many memory regions in memory map'')"
  by (simp add: add_region_def)

end

interpretation inss: region_sort insertion_sort_by
  by unfold_locales

lemma mm_wf_new: "mm_wf memory_map_new"
  by (simp add: mm_wf_def memory_map_new_def region_empty_def region_ok_def is_empty_def
      max_memory_map_size_def frame_bound_def)

text \<open>The comparator answers \<open>Greater\<close> both ways on two empty regions: it is not a total order.\<close>

lemma region_cmp_empty_both_greater:
  assumes "is_empty (rng a)" and "is_empty (rng b)"
  shows "region_cmp a b = Greater" and "region_cmp b a = Greater"
  using assms by (simp_all add: region_cmp_def)

subsection \<open>Properties\<close>

text \<open>
  \<^verbatim>\<open>FrameRange::new\<close> applied to a byte range that is not empty never panics and yields exactly the
  frames that have a byte in the range.
\<close>

lemma frame_range_new_covers:
  assumes "s < e" and "e < u64_bound"
  shows "\<exists>r. frame_range_new p s e = Inr r \<and>
    (\<forall>f. start_frame_number r \<le> f \<and> f < end_frame_number r \<longleftrightarrow> (\<exists>a. s \<le> a \<and> a < e \<and> a div page_size = f))"
proof -
  let ?r = "\<lparr>start_frame_number = s div page_size, end_frame_number = (e - 1) div page_size + 1\<rparr>"
  have "(e - 1) div page_size + 1 < u64_bound"
    using assms by (simp add: page_size_def u64_bound_def)
  then have "frame_range_new p s e = Inr ?r"
    using assms by (simp add: frame_range_new_def)
  moreover have "s div page_size \<le> f \<and> f < (e - 1) div page_size + 1 \<longleftrightarrow> (\<exists>a. s \<le> a \<and> a < e \<and> a div page_size = f)" for f
  proof
    assume f: "s div page_size \<le> f \<and> f < (e - 1) div page_size + 1"
    show "\<exists>a. s \<le> a \<and> a < e \<and> a div page_size = f"
    proof (cases "s div page_size = f")
      case True
      then show ?thesis using assms(1) by (intro exI [of _ s]) simp
    next
      case False
      then have "s \<le> f * page_size" "f * page_size \<le> e - 1"
        using f by (auto simp: page_size_def)
      then show ?thesis
        using assms(1) by (intro exI [of _ "f * page_size"]) (auto simp: page_size_def)
    qed
  next
    assume "\<exists>a. s \<le> a \<and> a < e \<and> a div page_size = f"
    then obtain a where a: "s \<le> a" "a \<le> e - 1" "f = a div page_size" by auto
    then show "s div page_size \<le> f \<and> f < (e - 1) div page_size + 1"
      using div_le_mono [OF a(1), of page_size] div_le_mono [OF a(2), of page_size] by simp
  qed
  ultimately show ?thesis by auto
qed

lemma frame_range_new_covers_witness:
  "(4095::nat) < 8193 \<and> 8193 < u64_bound \<and>
   (\<exists>r. frame_range_new Debug 4095 8193 = Inr r \<and>
     (\<forall>f. start_frame_number r \<le> f \<and> f < end_frame_number r \<longleftrightarrow> (\<exists>a. 4095 \<le> a \<and> a < 8193 \<and> a div page_size = f)))"
  using frame_range_new_covers [of 4095 8193 Debug] by (simp add: u64_bound_def)

text \<open>
  C31: \<^verbatim>\<open>MemoryMap::sort\<close> on a well-formed map keeps the owners of every frame, leaves a well-formed
  map whose used part holds no empty region and is sorted by start and end, and sets
  \<^verbatim>\<open>next_entry_index\<close> to the number of regions that are not empty.
\<close>

theorem mm_sort_correct_spec:
  assumes "region_sort srt" and "mm_wf m"
  shows "mm_wf (mm_sort srt m) \<and> (\<forall>f. owners (mm_sort srt m) f = owners m f) \<and>
    sorted_wrt region_before (mm_deref (mm_sort srt m)) \<and>
    (\<forall>r \<in> set (mm_deref (mm_sort srt m)). \<not> is_empty (rng r)) \<and>
    next_entry_index (mm_sort srt m) = nonempty_count (entries m)"
  using region_sort.mm_sort_correct [OF assms] by blast

text \<open>Two regions in the wrong order with an empty one between them.\<close>

definition unsorted_map :: memory_map where
  "unsorted_map =
     \<lparr>entries =
        [\<lparr>rng = \<lparr>start_frame_number = 256, end_frame_number = 512\<rparr>, region_type = Usable\<rparr>, region_empty,
         \<lparr>rng = \<lparr>start_frame_number = 0, end_frame_number = 159\<rparr>, region_type = Reserved\<rparr>] @ replicate 61 region_empty,
      next_entry_index = 3\<rparr>"

theorem mm_sort_correct_spec_witness:
  "mm_wf unsorted_map \<and> \<not> sorted_wrt region_before (mm_deref unsorted_map) \<and>
   sorted_wrt region_before (mm_deref (mm_sort insertion_sort_by unsorted_map)) \<and>
   next_entry_index (mm_sort insertion_sort_by unsorted_map) = 2 \<and>
   owners (mm_sort insertion_sort_by unsorted_map) 100 = {#Reserved#} \<and>
   owners (mm_sort insertion_sort_by unsorted_map) 300 = {#Usable#}"
proof -
  have wf: "mm_wf unsorted_map"
    by (simp add: mm_wf_def unsorted_map_def max_memory_map_size_def region_empty_def is_empty_def region_ok_def frame_bound_def)
  have "\<not> sorted_wrt region_before (mm_deref unsorted_map)"
    by (simp add: mm_deref_def unsorted_map_def region_before_def)
  moreover have "owners unsorted_map 100 = {#Reserved#}" "owners unsorted_map 300 = {#Usable#}"
    by (simp_all add: owners_def mm_deref_def unsorted_map_def types_at_def holds_def region_empty_def)
  moreover have "nonempty_count (entries unsorted_map) = 2"
    by (simp add: nonempty_count_def unsorted_map_def region_empty_def is_empty_def)
  ultimately show ?thesis using mm_sort_correct_spec [OF inss.region_sort_axioms wf] wf by simp
qed

text \<open>
  C21: \<^verbatim>\<open>MemoryMap::add_region\<close> on a well-formed map with a free slot returns a well-formed, sorted map
  in which every frame of the region has gained the region's type and nothing else changed; on a map
  whose 64 slots are counted as used it panics.
\<close>

theorem add_region_correct_spec:
  assumes "region_sort srt" and "mm_wf m" and "region_ok r"
  shows "if next_entry_index m < max_memory_map_size
    then \<exists>m'. add_region srt p r m = Inr m' \<and> mm_wf m' \<and> sorted_wrt region_before (mm_deref m') \<and>
      (\<forall>f. owners m' f = owners m f + type_at f r)
    else add_region srt p r m = Inl (Explicit_panic ''too many memory regions in memory map'')"
proof (cases "next_entry_index m < max_memory_map_size")
  case True
  then show ?thesis
    by (auto intro: region_sort.add_region_correct [OF assms True, of p])
next
  case False
  then show ?thesis by (simp add: add_region_def)
qed

definition low_memory :: memory_region where
  "low_memory = \<lparr>rng = \<lparr>start_frame_number = 0, end_frame_number = 159\<rparr>, region_type = Usable\<rparr>"

theorem add_region_correct_spec_witness:
  "region_sort insertion_sort_by \<and> mm_wf memory_map_new \<and> region_ok low_memory \<and>
   (\<exists>m'. add_region insertion_sort_by Debug low_memory memory_map_new = Inr m' \<and> mm_wf m' \<and>
      (\<forall>f. owners m' f = owners memory_map_new f + type_at f low_memory))"
proof -
  have "region_ok low_memory" by (simp add: low_memory_def region_ok_def frame_bound_def)
  moreover have "next_entry_index memory_map_new < max_memory_map_size"
    by (simp add: memory_map_new_def max_memory_map_size_def)
  ultimately show ?thesis
    using add_region_correct_spec [OF inss.region_sort_axioms mm_wf_new, of low_memory Debug]
      inss.region_sort_axioms mm_wf_new by auto
qed

end
