(* ===== verification/X86.thy ===== *)
theory X86
  imports Prelude
begin

text \<open>
  The address types of the \<^verbatim>\<open>x86_64\<close> crate, which is not part of the repository: a physical or
  virtual address is its number, a frame or page is the address it starts at. The operations the
  code calls are fields of a record that the model takes as an argument; the locale
  \<open>x86_addresses\<close> states what their documentation promises and the code relies on. Virtual addresses
  are the canonical ones of the lower half. The record \<open>x86_documented\<close> is one instance, written
  from that documentation.
\<close>

record x86 =
  phys_addr_new :: "u64 \<Rightarrow> u64 rust"
  phys_add :: "u64 \<Rightarrow> u64 \<Rightarrow> u64 rust"
  phys_sub :: "u64 \<Rightarrow> u64 \<Rightarrow> u64 rust"
  frame_from_start :: "u64 \<Rightarrow> u64 option"
  frame_containing :: "u64 \<Rightarrow> u64"
  frame_add :: "u64 \<Rightarrow> u64 \<Rightarrow> u64 rust"
  virt_addr_new :: "u64 \<Rightarrow> u64 rust"
  virt_add :: "u64 \<Rightarrow> u64 \<Rightarrow> u64 rust"
  virt_sub :: "u64 \<Rightarrow> u64 \<Rightarrow> u64 rust"
  page_containing :: "u64 \<Rightarrow> u64"
  page_add :: "u64 \<Rightarrow> u64 \<Rightarrow> u64 rust"
  p4_index :: "u64 \<Rightarrow> u64"
  align_up :: "u64 \<Rightarrow> u64 \<Rightarrow> u64"
  page_containing_2m :: "u64 \<Rightarrow> u64"
  frame_containing_2m :: "u64 \<Rightarrow> u64"
  page_from_indices :: "u64 \<Rightarrow> u64 \<Rightarrow> u64 \<Rightarrow> u64 \<Rightarrow> u64"
  page_from_indices_1gib :: "u64 \<Rightarrow> u64 \<Rightarrow> u64"

definition phys_bound :: u64 where
  "phys_bound = 4503599627370496"

definition virt_bound :: u64 where
  "virt_bound = 140737488355328"

lemma phys_bound_eq: "phys_bound = 2 ^ 52"
  by (simp add: phys_bound_def)

lemma virt_bound_eq: "virt_bound = 2 ^ 47"
  by (simp add: virt_bound_def)

locale x86_addresses =
  fixes X :: x86
  assumes new_valid: "a < phys_bound \<Longrightarrow> phys_addr_new X a = Inr a"
    and add_valid: "a + n < phys_bound \<Longrightarrow> phys_add X a n = Inr (a + n)"
    and sub_valid: "a < phys_bound \<Longrightarrow> n \<le> a \<Longrightarrow> phys_sub X a n = Inr (a - n)"
    and from_start: "frame_from_start X a = (if a mod 4096 = 0 then Some a else None)"
    and containing: "frame_containing X a = a - a mod 4096"
    and add_frames: "f + n * 4096 < phys_bound \<Longrightarrow> frame_add X f n = Inr (f + n * 4096)"
    and virt_valid: "a < virt_bound \<Longrightarrow> virt_addr_new X a = Inr a"
    and virt_add_valid: "a + n < virt_bound \<Longrightarrow> virt_add X a n = Inr (a + n)"
    and virt_sub_valid: "a < virt_bound \<Longrightarrow> n \<le> a \<Longrightarrow> virt_sub X a n = Inr (a - n)"
    and page_of: "page_containing X a = a - a mod 4096"
    and add_pages: "a + n * 4096 < virt_bound \<Longrightarrow> page_add X a n = Inr (a + n * 4096)"
    and p4_of: "p4_index X a = a div 2 ^ 39 mod 512"
    and align_up_of: "align_up X a (2 ^ k) = (a + 2 ^ k - 1) div 2 ^ k * 2 ^ k"
    and page_2m: "page_containing_2m X a = a - a mod 2 ^ 21"
    and frame_2m: "frame_containing_2m X a = a - a mod 2 ^ 21"
    and from_indices: "i < 256 \<Longrightarrow> j < 512 \<Longrightarrow> k < 512 \<Longrightarrow> l < 512 \<Longrightarrow>
      page_from_indices X i j k l = i * 2 ^ 39 + j * 2 ^ 30 + k * 2 ^ 21 + l * 2 ^ 12"
    and from_indices_1gib: "i < 256 \<Longrightarrow> j < 512 \<Longrightarrow> page_from_indices_1gib X i j = i * 2 ^ 39 + j * 2 ^ 30"
begin

lemma from_start_frame [simp]: "frame_from_start X (f * 4096) = Some (f * 4096)"
  by (simp add: from_start)

lemma containing_frame: "frame_containing X a = a div 4096 * 4096"
  by (simp add: containing minus_mod_eq_div_mult)

lemma page_number: "page_containing X a = a div 4096 * 4096"
  by (simp add: page_of minus_mod_eq_div_mult)

lemma p4_below [simp]: "p4_index X a < 512"
  by (simp add: p4_of)

lemma p4_lower_half: "a < virt_bound \<Longrightarrow> p4_index X a = a div 2 ^ 39"
  by (simp add: p4_of virt_bound_def)

end

definition invalid_address :: panic where
  "invalid_address = Explicit_panic ''invalid address''"

definition below :: "u64 \<Rightarrow> u64 \<Rightarrow> u64 rust" where
  "below b a = (if a < b then Inr a else Inl invalid_address)"

definition sign_extend :: "u64 \<Rightarrow> u64" where
  "sign_extend a = (if a < virt_bound then a else a + (2 ^ 64 - 2 ^ 48))"

definition x86_documented :: x86 where
  "x86_documented =
     \<lparr>phys_addr_new = below phys_bound,
      phys_add = (\<lambda>a n. below phys_bound (a + n)),
      phys_sub = (\<lambda>a n. if n \<le> a then Inr (a - n) else Inl Arithmetic_overflow),
      frame_from_start = (\<lambda>a. if a mod 4096 = 0 then Some a else None),
      frame_containing = (\<lambda>a. a - a mod 4096),
      frame_add = (\<lambda>f n. below phys_bound (f + n * 4096)),
      virt_addr_new = below virt_bound,
      virt_add = (\<lambda>a n. below virt_bound (a + n)),
      virt_sub = (\<lambda>a n. if n \<le> a then Inr (a - n) else Inl Arithmetic_overflow),
      page_containing = (\<lambda>a. a - a mod 4096),
      page_add = (\<lambda>a n. below virt_bound (a + n * 4096)),
      p4_index = (\<lambda>a. a div 2 ^ 39 mod 512),
      align_up = (\<lambda>a n. (a + n - 1) div n * n),
      page_containing_2m = (\<lambda>a. a - a mod 2 ^ 21),
      frame_containing_2m = (\<lambda>a. a - a mod 2 ^ 21),
      page_from_indices = (\<lambda>i j k l. sign_extend (i * 2 ^ 39 + j * 2 ^ 30 + k * 2 ^ 21 + l * 2 ^ 12)),
      page_from_indices_1gib = (\<lambda>i j. sign_extend (i * 2 ^ 39 + j * 2 ^ 30))\<rparr>"

interpretation xd: x86_addresses x86_documented
  by unfold_locales (simp_all add: x86_documented_def below_def sign_extend_def virt_bound_def)

end
