(* ===== verification/FrameAlloc.thy ===== *)
theory FrameAlloc
  imports MemoryMap X86
begin

text \<open>
  The bootloader's frame allocator (\<^verbatim>\<open>bootloader/src/frame_allocator.rs\<close>) over the memory map:
  \<open>allocate_frame\<close> first tries to enlarge a region of the wanted type into the usable region
  right behind it, then splits a frame off a usable region; \<open>mark_allocated_region\<close> carves a
  given region out of the usable one it lies in.

  The abstract operation is \<open>retyped\<close>: one frame loses the owner \<open>Usable\<close> and gains the wanted
  type, every other frame keeps its owners.
\<close>

subsection \<open>Conversions of \<^verbatim>\<open>bootloader/src/main.rs\<close>\<close>

definition frame_at :: "x86 \<Rightarrow> u64 rust \<Rightarrow> u64 rust" where
  "frame_at X addr =
     bind_rust addr (\<lambda>a. bind_rust (phys_addr_new X a) (\<lambda>pa.
       expect ''called `Result::unwrap()` on an `Err` value: AddressNotAligned'' (frame_from_start X pa)))"

definition phys_frame_range :: "x86 \<Rightarrow> profile \<Rightarrow> frame_range \<Rightarrow> (u64 \<times> u64) rust" where
  "phys_frame_range X p r =
     bind_rust (frame_at X (start_addr p r)) (\<lambda>s.
       bind_rust (frame_at X (end_addr p r)) (\<lambda>e. Inr (s, e)))"

definition frame_range_of :: "profile \<Rightarrow> u64 \<times> u64 \<Rightarrow> frame_range rust" where
  "frame_range_of p r = frame_range_new p (fst r) (snd r)"

subsection \<open>Allocating a frame\<close>

definition set_start :: "u64 \<Rightarrow> memory_region \<Rightarrow> memory_region" where
  "set_start n r = r\<lparr>rng := (rng r)\<lparr>start_frame_number := n\<rparr>\<rparr>"

definition set_end :: "u64 \<Rightarrow> memory_region \<Rightarrow> memory_region" where
  "set_end n r = r\<lparr>rng := (rng r)\<lparr>end_frame_number := n\<rparr>\<rparr>"

fun enlarge ::
  "x86 \<Rightarrow> profile \<Rightarrow> memory_region_type \<Rightarrow> memory_region list \<Rightarrow> (u64 option \<times> memory_region list) rust"
where
  "enlarge X p t [] = Inr (None, [])"
| "enlarge X p t [region] = Inr (None, [region])"
| "enlarge X p t (region # nxt # rest) =
     (if region_type region = t \<and>
         start_frame_number (rng nxt) = end_frame_number (rng region) \<and>
         region_type nxt = Usable \<and> \<not> is_empty (rng nxt)
      then bind_rust (phys_frame_range X p (rng region)) (\<lambda>(_, frame).
             bind_rust (u64_add p (end_frame_number (rng region)) 1) (\<lambda>e.
               bind_rust (u64_add p (start_frame_number (rng nxt)) 1) (\<lambda>s.
                 Inr (Some frame, set_end e region # set_start s nxt # rest))))
      else bind_rust (enlarge X p t (nxt # rest)) (\<lambda>(frame, rest'). Inr (frame, region # rest')))"

fun split_usable_region ::
  "x86 \<Rightarrow> profile \<Rightarrow> memory_region list \<Rightarrow> ((u64 \<times> u64 \<times> u64) option \<times> memory_region list) rust"
where
  "split_usable_region X p [] = Inr (None, [])"
| "split_usable_region X p (region # rest) =
     (if region_type region \<noteq> Usable \<or> is_empty (rng region)
      then bind_rust (split_usable_region X p rest) (\<lambda>(res, rest'). Inr (res, region # rest'))
      else bind_rust (phys_frame_range X p (rng region)) (\<lambda>(frame, _).
             bind_rust (u64_add p (start_frame_number (rng region)) 1) (\<lambda>s.
               bind_rust (frame_add X frame 1) (\<lambda>behind.
                 Inr (Some (frame, frame, behind), set_start s region # rest)))))"

definition split_for ::
  "x86 \<Rightarrow> profile \<Rightarrow> memory_region_type \<Rightarrow> memory_region list \<Rightarrow>
   ((u64 \<times> u64 \<times> u64) option \<times> memory_region list) rust" where
  "split_for X p t rs =
     (if t = PageTable
      then bind_rust (split_usable_region X p (rev rs)) (\<lambda>(res, rs'). Inr (res, rev rs'))
      else split_usable_region X p rs)"

definition allocate_frame ::
  "memory_region sort_by \<Rightarrow> x86 \<Rightarrow> profile \<Rightarrow> memory_region_type \<Rightarrow> memory_map \<Rightarrow>
   (u64 option \<times> memory_map) rust" where
  "allocate_frame srt X p t m =
     bind_rust (enlarge X p t (mm_deref m)) (\<lambda>(enlarged, rs).
       case enlarged of
         Some frame \<Rightarrow> Inr (Some frame, mm_write m rs)
       | None \<Rightarrow>
           bind_rust (split_for X p t rs) (\<lambda>(result, rs').
             case result of
               Some (frame, frames) \<Rightarrow>
                 bind_rust (frame_range_of p frames) (\<lambda>r.
                   bind_rust (add_region srt p \<lparr>rng = r, region_type = t\<rparr> (mm_write m rs')) (\<lambda>m'.
                     Inr (Some frame, m')))
             | None \<Rightarrow> Inr (None, mm_write m rs')))"

subsection \<open>Marking a region\<close>

definition overlaps :: "memory_region \<Rightarrow> memory_region \<Rightarrow> bool" where
  "overlaps region r \<longleftrightarrow>
     \<not> end_frame_number (rng r) \<le> start_frame_number (rng region) \<and>
     \<not> end_frame_number (rng region) \<le> start_frame_number (rng r)"

definition set_entry :: "nat \<Rightarrow> memory_region \<Rightarrow> memory_map \<Rightarrow> memory_map" where
  "set_entry i r m = mm_write m ((mm_deref m)[i := r])"

definition mark_allocated_region ::
  "memory_region sort_by \<Rightarrow> profile \<Rightarrow> memory_region \<Rightarrow> memory_map \<Rightarrow> memory_map rust" where
  "mark_allocated_region srt p region m =
     (case position (overlaps region) (mm_deref m) of
        None \<Rightarrow> Inl (Explicit_panic ''region is not a usable memory region'')
      | Some i \<Rightarrow>
          let r = mm_deref m ! i; s = start_frame_number (rng region); e = end_frame_number (rng region)
          in if region_type r \<noteq> Usable
             then Inl (Explicit_panic ''region overlaps with non-usable region'')
             else if s = start_frame_number (rng r) then
               (if e < end_frame_number (rng r)
                then add_region srt p region (set_entry i (set_start e r) m)
                else Inr (set_entry i region m))
             else if s > start_frame_number (rng r) then
               (if e < end_frame_number (rng r)
                then bind_rust (add_region srt p (set_start e r) (set_entry i (set_end s r) m))
                       (add_region srt p region)
                else add_region srt p region (set_entry i (set_end s r) m))
             else add_region srt p region (set_entry i (set_start e r) m))"

subsection \<open>What the operations do to the owners of a frame\<close>

definition only_at :: "u64 \<Rightarrow> memory_region_type \<Rightarrow> u64 \<Rightarrow> memory_region_type multiset" where
  "only_at f t g = (if g = f then {#t#} else {#})"

definition retyped ::
  "u64 \<Rightarrow> memory_region_type \<Rightarrow> (u64 \<Rightarrow> memory_region_type multiset) \<Rightarrow>
   (u64 \<Rightarrow> memory_region_type multiset) \<Rightarrow> bool" where
  "retyped f t before after \<longleftrightarrow>
     Usable \<in># before f \<and> (\<forall>g. after g + only_at f Usable g = before g + only_at f t g)"

lemma retyped_iff:
  "retyped f t b a \<longleftrightarrow>
     Usable \<in># b f \<and> a f = b f - {#Usable#} + {#t#} \<and> (\<forall>g. g \<noteq> f \<longrightarrow> a g = b g)"
proof -
  have at_f: "a f + {#Usable#} = b f + {#t#} \<longleftrightarrow> a f = b f - {#Usable#} + {#t#}" if u: "Usable \<in># b f"
  proof -
    obtain c where "b f = add_mset Usable c" using multi_member_split [OF u] by blast
    then show ?thesis by (simp add: add_mset_commute [of t])
  qed
  have "(\<forall>g. a g + only_at f Usable g = b g + only_at f t g) \<longleftrightarrow>
      a f + {#Usable#} = b f + {#t#} \<and> (\<forall>g. g \<noteq> f \<longrightarrow> a g = b g)"
    by (auto simp: only_at_def)
  with at_f show ?thesis unfolding retyped_def by blast
qed

lemma region_bounds [simp]:
  "start_frame_number (rng (set_start n r)) = n" "end_frame_number (rng (set_start n r)) = end_frame_number (rng r)"
  "end_frame_number (rng (set_end n r)) = n" "start_frame_number (rng (set_end n r)) = start_frame_number (rng r)"
  "region_type (set_start n r) = region_type r" "region_type (set_end n r) = region_type r"
  by (simp_all add: set_start_def set_end_def)

context x86_addresses
begin

lemma frame_at_valid: "f < frame_bound \<Longrightarrow> frame_at X (Inr (f * 4096)) = Inr (f * 4096)"
  using new_valid [of "f * 4096"]
  by (simp add: frame_at_def frame_bound_def phys_bound_def)

lemma phys_frame_range_valid:
  assumes "region_ok r"
  shows "phys_frame_range X p (rng r) = Inr (start_frame_number (rng r) * 4096, end_frame_number (rng r) * 4096)"
  using assms frame_at_valid
  by (simp add: phys_frame_range_def region_ok_def start_addr_def end_addr_def page_size_def
      u64_bound_def frame_bound_def)

lemma split_usable_region_spec:
  assumes "\<forall>r \<in> set rs. region_ok r"
  shows "split_usable_region X p rs = Inr (None, rs) \<and> (\<forall>f. Usable \<notin># types_at f rs) \<or>
    (\<exists>f rs'. split_usable_region X p rs = Inr (Some (f * 4096, f * 4096, (f + 1) * 4096), rs') \<and>
       f + 1 < frame_bound \<and>
       length rs' = length rs \<and> (\<forall>r \<in> set rs'. region_ok r) \<and> Usable \<in># types_at f rs \<and>
       (\<forall>g. types_at g rs' + only_at f Usable g = types_at g rs))"
  using assms
proof (induction rs)
  case (Cons r rs)
  show ?case
  proof (cases "region_type r \<noteq> Usable \<or> is_empty (rng r)")
    case True
    then have "Usable \<notin># type_at f r" for f
      by (auto simp: type_at_def holds_def is_empty_def)
    then show ?thesis using Cons True by fastforce
  next
    case False
    let ?s = "start_frame_number (rng r)"
    have ok: "region_ok r" and lt: "?s < end_frame_number (rng r)"
      using Cons.prems False by (auto simp: region_ok_def is_empty_def)
    have bd: "Suc ?s < frame_bound" using ok lt by (simp add: region_ok_def)
    then have "frame_add X (?s * 4096) 1 = Inr ((?s + 1) * 4096)"
      using add_frames [of "?s * 4096" 1] by (simp add: phys_bound_def frame_bound_def)
    then have res: "split_usable_region X p (r # rs) =
        Inr (Some (?s * 4096, ?s * 4096, (?s + 1) * 4096), set_start (Suc ?s) r # rs)"
      using False bd by (simp add: phys_frame_range_valid [OF ok] u64_bound_def frame_bound_def)
    have "region_ok (set_start (Suc ?s) r)"
      using ok lt by (simp add: region_ok_def)
    moreover have "type_at g (set_start (Suc ?s) r) + only_at ?s Usable g = type_at g r" for g
      using False lt by (auto simp: type_at_def holds_def only_at_def)
    moreover have "Usable \<in># type_at ?s r"
      using False lt by (simp add: type_at_def holds_def)
    ultimately show ?thesis
      using res bd Cons.prems
      by (intro disjI2 exI [of _ ?s] exI [of _ "set_start (Suc ?s) r # rs"])
        (auto simp: ac_simps)
  qed
qed simp

lemma enlarge_spec:
  assumes "\<forall>r \<in> set rs. region_ok r"
  shows "enlarge X p t rs = Inr (None, rs) \<or>
    (\<exists>f rs'. enlarge X p t rs = Inr (Some (f * 4096), rs') \<and> length rs' = length rs \<and>
       (\<forall>r \<in> set rs'. region_ok r) \<and> retyped f t (\<lambda>g. types_at g rs) (\<lambda>g. types_at g rs'))"
  using assms
proof (induction rs rule: induct_list012)
  case (3 r n rs)
  show ?case
  proof (cases "region_type r = t \<and> start_frame_number (rng n) = end_frame_number (rng r) \<and>
         region_type n = Usable \<and> \<not> is_empty (rng n)")
    case False
    then have step: "enlarge X p t (r # n # rs) =
        bind_rust (enlarge X p t (n # rs)) (\<lambda>(frame, rest'). Inr (frame, r # rest'))"
      by auto
    have "retyped f t (\<lambda>g. types_at g (r # xs)) (\<lambda>g. types_at g (r # ys))"
      if "retyped f t (\<lambda>g. types_at g xs) (\<lambda>g. types_at g ys)" for f xs ys
      using that by (simp add: retyped_def add.assoc)
    moreover have "\<forall>r \<in> set (n # rs). region_ok r" "region_ok r"
      using "3.prems" by auto
    ultimately show ?thesis using "3.IH"(2) unfolding step by fastforce
  next
    case True
    let ?e = "end_frame_number (rng r)"
    let ?rs = "set_end (Suc ?e) r # set_start (Suc ?e) n # rs"
    have ok: "region_ok r" "region_ok n" and lt: "?e < end_frame_number (rng n)"
      using "3.prems" True by (auto simp: region_ok_def is_empty_def)
    have res: "enlarge X p t (r # n # rs) = Inr (Some (?e * 4096), ?rs)"
      using True ok lt by (simp add: phys_frame_range_valid [OF ok(1)] region_ok_def u64_bound_def frame_bound_def)
    have ok': "region_ok (set_end (Suc ?e) r)" "region_ok (set_start (Suc ?e) n)"
      using ok lt by (simp_all add: region_ok_def)
    have u: "Usable \<in># type_at ?e n"
      using True lt by (simp add: type_at_def holds_def)
    have "type_at g (set_end (Suc ?e) r) + type_at g (set_start (Suc ?e) n) + only_at ?e Usable g =
        type_at g r + type_at g n + only_at ?e t g" for g
      using True lt ok by (auto simp: type_at_def holds_def only_at_def region_ok_def)
    then have "retyped ?e t (\<lambda>g. types_at g (r # n # rs)) (\<lambda>g. types_at g ?rs)"
      using u by (auto simp: retyped_def add.assoc)
    with res ok' "3.prems" show ?thesis
      by (intro disjI2 exI [of _ ?e] exI [of _ ?rs]) auto
  qed
qed simp_all

end

lemma mm_write_correct:
  assumes "mm_wf m" and "length rs = length (mm_deref m)" and "\<forall>r \<in> set rs. region_ok r"
  shows "mm_wf (mm_write m rs)" and "mm_deref (mm_write m rs) = rs"
    and "owners (mm_write m rs) = (\<lambda>f. types_at f rs)"
    and "next_entry_index (mm_write m rs) = next_entry_index m"
proof -
  have len: "length rs = next_entry_index m" "next_entry_index m \<le> length (entries m)"
    using assms(1,2) by (auto simp: mm_deref_def mm_wf_def)
  then show deref: "mm_deref (mm_write m rs) = rs"
    by (simp add: mm_deref_def mm_write_def)
  show "mm_wf (mm_write m rs)"
    using assms(1,3) len by (auto simp: mm_wf_def mm_write_def dest: in_set_dropD)
  show "owners (mm_write m rs) = (\<lambda>f. types_at f rs)"
    by (simp add: owners_def deref fun_eq_iff)
qed (simp add: mm_write_def)

lemma mm_write_same: "mm_write m (mm_deref m) = m"
  by (simp add: mm_write_def mm_deref_def)

lemma mm_deref_ok: "mm_wf m \<Longrightarrow> \<forall>r \<in> set (mm_deref m). region_ok r"
  by (auto simp: mm_wf_def mm_deref_def dest: in_set_takeD)

lemma types_at_rev: "types_at f (rev rs) = types_at f rs"
  by (rule types_at_mset) simp

lemma swap_owner:
  fixes a m q r r' u :: "'a multiset"
  assumes "a + r = m + r' + q" and "r = r' + u"
  shows "a + u = m + q"
  using assms by (simp add: ac_simps)

lemma set_entry_correct:
  assumes "mm_wf m" and "i < length (mm_deref m)" and "region_ok r"
  shows "mm_wf (set_entry i r m)" and "next_entry_index (set_entry i r m) = next_entry_index m"
    and "owners (set_entry i r m) g + type_at g (mm_deref m ! i) = owners m g + type_at g r"
proof -
  have len: "length ((mm_deref m)[i := r]) = length (mm_deref m)" by simp
  have ok: "\<forall>r' \<in> set ((mm_deref m)[i := r]). region_ok r'"
    using mm_deref_ok [OF assms(1)] assms(3) set_update_subset_insert [of "mm_deref m" i r] by auto
  note w = mm_write_correct [OF assms(1) len ok]
  show "mm_wf (set_entry i r m)" "next_entry_index (set_entry i r m) = next_entry_index m"
    using w by (simp_all add: set_entry_def)
  show "owners (set_entry i r m) g + type_at g (mm_deref m ! i) = owners m g + type_at g r"
    using types_at_update [OF assms(2), of g r] w(3) by (simp add: set_entry_def owners_def)
qed

context region_sort
begin

lemma set_entry_add:
  assumes wf: "mm_wf m" and i: "i < length (mm_deref m)" and ok: "region_ok r'" "region_ok q"
    and room: "next_entry_index m < max_memory_map_size"
  shows "\<exists>m'. add_region srt p q (set_entry i r' m) = Inr m' \<and> mm_wf m' \<and>
    next_entry_index m' \<le> next_entry_index m + 1 \<and>
    (\<forall>g. owners m' g + type_at g (mm_deref m ! i) = owners m g + type_at g r' + type_at g q)"
proof -
  note e = set_entry_correct [OF wf i ok(1)]
  have room': "next_entry_index (set_entry i r' m) < max_memory_map_size"
    using room by (simp add: e)
  show ?thesis
  proof (rule add_region_correct [OF e(1) ok(2) room', of p])
    fix m' assume m': "add_region srt p q (set_entry i r' m) = Inr m'" "mm_wf m'"
      "\<And>f. owners m' f = owners (set_entry i r' m) f + type_at f q"
      "next_entry_index m' \<le> next_entry_index (set_entry i r' m) + 1"
    have "owners m' g + type_at g (mm_deref m ! i) = owners m g + type_at g r' + type_at g q" for g
    proof -
      have "owners m' g + type_at g (mm_deref m ! i) =
          (owners (set_entry i r' m) g + type_at g (mm_deref m ! i)) + type_at g q"
        by (simp add: m'(3) ac_simps)
      then show ?thesis by (simp only: e(3))
    qed
    then show ?thesis using m' e(2) by auto
  qed
qed

text \<open>
  The region found first, \<open>r\<close>, gives up the frames it shares with the marked region, and only
  \<open>r\<close> does: the marked region gains all its frames.
\<close>

lemma mark_allocated_region_first:
  assumes wf: "mm_wf m" and ok: "region_ok region" and room: "next_entry_index m + 2 \<le> max_memory_map_size"
    and pos: "position (overlaps region) (mm_deref m) = Some i"
    and r: "r = mm_deref m ! i" "region_type r = Usable"
    and inside: "start_frame_number (rng r) \<le> start_frame_number (rng region) \<or>
      end_frame_number (rng region) \<le> end_frame_number (rng r)"
  shows "\<exists>m'. mark_allocated_region srt p region m = Inr m' \<and> mm_wf m' \<and>
    (\<forall>g. owners m' g + (if holds region g \<and> holds r g then {#Usable#} else {#}) = owners m g + type_at g region)"
proof -
  let ?s = "start_frame_number (rng region)" and ?e = "end_frame_number (rng region)"
  let ?U = "\<lambda>g. if holds region g \<and> holds r g then {#Usable#} else {#}"
  have i: "i < length (mm_deref m)" and ov: "overlaps region r"
    using pos r(1) by (auto simp: position_Some)
  have okr: "region_ok r" using mm_deref_ok [OF wf] i r(1) by simp
  have lt: "?s < end_frame_number (rng r)" "start_frame_number (rng r) < ?e"
    using ov by (auto simp: overlaps_def)
  have res: "mark_allocated_region srt p region m =
      (if ?s = start_frame_number (rng r)
       then if ?e < end_frame_number (rng r)
            then add_region srt p region (set_entry i (set_start ?e r) m)
            else Inr (set_entry i region m)
       else if start_frame_number (rng r) < ?s
       then if ?e < end_frame_number (rng r)
            then bind_rust (add_region srt p (set_start ?e r) (set_entry i (set_end ?s r) m)) (add_region srt p region)
            else add_region srt p region (set_entry i (set_end ?s r) m)
       else add_region srt p region (set_entry i (set_start ?e r) m))"
    using pos r by (simp add: mark_allocated_region_def Let_def)
  have r1: "next_entry_index m < max_memory_map_size" using room by simp
  have shrink: ?thesis if ok': "region_ok r'" and sp: "\<And>g. type_at g r = type_at g r' + ?U g"
    and eq: "mark_allocated_region srt p region m = add_region srt p region (set_entry i r' m)" for r'
  proof -
    obtain m' where m': "add_region srt p region (set_entry i r' m) = Inr m'" "mm_wf m'"
      "\<forall>g. owners m' g + type_at g r = owners m g + type_at g r' + type_at g region"
      using set_entry_add [OF wf i ok' ok r1] r(1) by blast
    have "owners m' g + ?U g = owners m g + type_at g region" for g
      using m'(3) sp swap_owner by blast
    then show ?thesis using m' eq by auto
  qed
  consider (low) "?s \<le> start_frame_number (rng r)" "?e \<le> end_frame_number (rng r)" "?s = start_frame_number (rng r) \<longrightarrow> ?e < end_frame_number (rng r)"
    | (all) "?s = start_frame_number (rng r)" "end_frame_number (rng r) \<le> ?e"
    | (mid) "start_frame_number (rng r) < ?s" "?e < end_frame_number (rng r)"
    | (high) "start_frame_number (rng r) < ?s" "end_frame_number (rng r) \<le> ?e"
    using inside by linarith
  then show ?thesis
  proof cases
    case low
    then show ?thesis
      using okr lt r(2) res by (intro shrink [of "set_start ?e r"]) (auto simp: region_ok_def type_at_def holds_def)
  next
    case high
    then show ?thesis
      using okr lt r(2) res by (intro shrink [of "set_end ?s r"]) (auto simp: region_ok_def type_at_def holds_def)
  next
    case all
    note e = set_entry_correct [OF wf i ok]
    have "type_at g r = ?U g" for g
      using all r(2) by (auto simp: type_at_def holds_def)
    then have "owners (set_entry i region m) g + ?U g = owners m g + type_at g region" for g
      using e(3) [of g] r(1) by simp
    then show ?thesis using all res e(1) by simp
  next
    case mid
    have "region_ok (set_end ?s r)" "region_ok (set_start ?e r)"
      using mid lt okr by (auto simp: region_ok_def)
    then obtain m1 where m1: "add_region srt p (set_start ?e r) (set_entry i (set_end ?s r) m) = Inr m1" "mm_wf m1"
      "next_entry_index m1 \<le> next_entry_index m + 1"
      "\<forall>g. owners m1 g + type_at g r = owners m g + type_at g (set_end ?s r) + type_at g (set_start ?e r)"
      using set_entry_add [OF wf i _ _ r1] r(1) by blast
    have r2: "next_entry_index m1 < max_memory_map_size" using m1(3) room by simp
    obtain m' where m': "add_region srt p region m1 = Inr m'" "mm_wf m'"
      "\<And>g. owners m' g = owners m1 g + type_at g region"
      using add_region_correct [OF m1(2) ok r2, of p] by metis
    have split: "type_at g r = type_at g (set_end ?s r) + type_at g (set_start ?e r) + ?U g" for g
      using mid lt ok r(2) by (auto simp: type_at_def holds_def region_ok_def)
    have "owners m1 g + ?U g = owners m g" for g
    proof -
      have "owners m1 g + type_at g r =
          owners m g + (type_at g (set_end ?s r) + type_at g (set_start ?e r)) + {#}"
        using m1(4) by (simp add: add.assoc)
      from swap_owner [OF this split] show ?thesis by simp
    qed
    then have "owners m' g + ?U g = owners m g + type_at g region" for g
      by (metis m'(3) add.assoc add.commute)
    then show ?thesis using mid res m1(1) m' by auto
  qed
qed

lemma mark_allocated_region_inside:
  assumes wf: "mm_wf m" and ok: "region_ok region" and room: "next_entry_index m + 2 \<le> max_memory_map_size"
    and ne: "start_frame_number (rng region) < end_frame_number (rng region)"
    and r: "r \<in> set (mm_deref m)" "region_type r = Usable"
    and inside: "start_frame_number (rng r) \<le> start_frame_number (rng region)"
      "end_frame_number (rng region) \<le> end_frame_number (rng r)"
    and only: "\<forall>q \<in> set (mm_deref m). overlaps region q \<longrightarrow> q = r"
  shows "\<exists>m'. mark_allocated_region srt p region m = Inr m' \<and> mm_wf m' \<and>
    (\<forall>g. owners m' g =
       (if holds region g then owners m g - {#Usable#} + {#region_type region#} else owners m g))"
proof -
  have "overlaps region r" using ne inside by (simp add: overlaps_def)
  then obtain i where i: "position (overlaps region) (mm_deref m) = Some i"
    using r(1) position_None [of "overlaps region" "mm_deref m"] by (cases "position (overlaps region) (mm_deref m)") auto
  then have "mm_deref m ! i = r" using only by (auto simp: position_Some)
  then obtain m' where m': "mark_allocated_region srt p region m = Inr m'" "mm_wf m'"
    "\<forall>g. owners m' g + (if holds region g \<and> holds r g then {#Usable#} else {#}) = owners m g + type_at g region"
    using mark_allocated_region_first [OF wf ok room i, of r p] r(2) inside by blast
  have "owners m' g = (if holds region g then owners m g - {#Usable#} + {#region_type region#} else owners m g)" for g
  proof (cases "holds region g")
    case True
    then have "holds r g" using inside by (auto simp: holds_def)
    with True have eq: "owners m' g + {#Usable#} = owners m g + {#region_type region#}"
      using spec [OF m'(3), of g] by (simp add: type_at_def)
    have "Usable \<in># owners m g"
      using r \<open>holds r g\<close> by (auto simp: owners_def types_at_member)
    then obtain c where "owners m g = add_mset Usable c" by (rule mset_add)
    with eq True show ?thesis by (simp add: add_mset_commute)
  next
    case False
    then show ?thesis using spec [OF m'(3), of g] by (simp add: type_at_def)
  qed
  then show ?thesis using m' by blast
qed

text \<open>
  A region that starts before \<open>r\<close> and ends behind it: the branch for an overlap at the low end of
  \<open>r\<close> sets its start to the region's end, behind its own end.
\<close>

lemma mark_allocated_region_covering:
  assumes wf: "mm_wf m" and ok: "region_ok region" and room: "next_entry_index m < max_memory_map_size"
    and pos: "position (overlaps region) (mm_deref m) = Some i"
    and r: "r = mm_deref m ! i" "region_type r = Usable"
    and covers: "start_frame_number (rng region) < start_frame_number (rng r)"
      "end_frame_number (rng r) < end_frame_number (rng region)"
  shows "\<exists>m'. mark_allocated_region srt p region m = Inr m' \<and>
    add_region srt p region (set_entry i (set_start (end_frame_number (rng region)) r) m) = Inr m' \<and>
    set_start (end_frame_number (rng region)) r \<in> set (mm_deref m') \<and>
    set (mm_deref m') \<subseteq> insert region (set ((mm_deref m)[i := set_start (end_frame_number (rng region)) r]))"
proof -
  let ?q = "set_start (end_frame_number (rng region)) r" and ?n = "next_entry_index m"
  define m1 where "m1 = \<lparr>entries = (entries (set_entry i ?q m))[?n := region], next_entry_index = Suc ?n\<rparr>"
  have i: "i < ?n" "?n < length (entries m)" "length (mm_deref m) = ?n"
    using pos wf room by (auto simp: position_Some mm_deref_def mm_wf_def)
  have set: "entries (set_entry i ?q m) = (mm_deref m)[i := ?q] @ drop ?n (entries m)"
    by (simp add: set_entry_def mm_write_def)
  have add: "add_region srt p region (set_entry i ?q m) = Inr (mm_sort srt m1)"
    using room by (simp add: add_region_def m1_def set_entry_def mm_write_def max_memory_map_size_def u64_bound_def)
  have mark: "mark_allocated_region srt p region m = Inr (mm_sort srt m1)"
    using pos r covers add by (simp add: mark_allocated_region_def Let_def)
  have "drop (Suc ?n) (entries m1) = drop (Suc ?n) (entries m)"
    using i by (simp add: m1_def set drop_update_cancel)
  then have "mm_shape m1"
    using wf i set_drop_subset_set_drop [of ?n "Suc ?n" "entries m"] set
    by (auto simp: mm_shape_def mm_wf_def m1_def)
  then obtain es n where s: "mm_sort srt m1 = \<lparr>entries = es, next_entry_index = n\<rparr>"
    "mset es = mset (entries m1)" "\<forall>r \<in> set (drop n es). is_empty (rng r)" "\<forall>r \<in> set (take n es). \<not> is_empty (rng r)"
    by (rule mm_sort_result)
  have old: "\<forall>x \<in> set (drop ?n (entries m)). is_empty (rng x)" using wf by (simp add: mm_wf_def)
  have only: "set (take n es) \<subseteq> insert region (set ((mm_deref m)[i := ?q]))"
  proof
    fix x assume x: "x \<in> set (take n es)"
    then have "x \<in> set (entries m1)" using s(2) by (metis in_set_takeD set_mset_mset)
    then have "x = region \<or> x \<in> set ((mm_deref m)[i := ?q] @ drop ?n (entries m))"
      using set_update_subset_insert [of "entries (set_entry i ?q m)" ?n region] by (auto simp: m1_def set)
    then show "x \<in> insert region (set ((mm_deref m)[i := ?q]))" using x s(4) old by auto
  qed
  have "entries m1 ! i = ?q"
    using i by (simp add: m1_def set nth_append)
  moreover have "i < length (entries m1)" using i by (simp add: m1_def set)
  ultimately have "?q \<in> set es" using s(2) by (metis nth_mem set_mset_mset)
  moreover have "\<not> is_empty (rng ?q)" using covers by (simp add: is_empty_def)
  moreover have "?q \<in> set (take n es)" if "?q \<in> set es" "\<not> is_empty (rng ?q)" using that s(3) by (metis Un_iff append_take_drop_id set_append)
  ultimately show ?thesis using mark add s(1) only by (simp add: mm_deref_def)
qed

end

text \<open>The frames an allocation may hand out, and maps in which no two usable regions overlap.\<close>

definition usable :: "memory_map \<Rightarrow> u64 set" where
  "usable m = {f. Usable \<in># owners m f}"

definition sole_usable :: "memory_map \<Rightarrow> bool" where
  "sole_usable m \<longleftrightarrow> (\<forall>f. count (owners m f) Usable \<le> 1)"

locale frame_allocation = region_sort srt + x86_addresses X for srt X
begin

lemma split_for_spec:
  assumes "\<forall>r \<in> set rs. region_ok r"
  shows "split_for X p t rs = Inr (None, rs) \<and> (\<forall>f. Usable \<notin># types_at f rs) \<or>
    (\<exists>f rs'. split_for X p t rs = Inr (Some (f * 4096, f * 4096, (f + 1) * 4096), rs') \<and>
       f + 1 < frame_bound \<and>
       length rs' = length rs \<and> (\<forall>r \<in> set rs'. region_ok r) \<and> Usable \<in># types_at f rs \<and>
       (\<forall>g. types_at g rs' + only_at f Usable g = types_at g rs))"
proof (cases "t = PageTable")
  case True
  have "\<forall>r \<in> set (rev rs). region_ok r" using assms by simp
  from split_usable_region_spec [OF this, of p] show ?thesis
    using True by (fastforce simp: split_for_def types_at_rev)
next
  case False
  then show ?thesis
    using split_usable_region_spec [OF assms, of p] by (simp add: split_for_def)
qed

lemma new_region:
  assumes "f + 1 < frame_bound"
  shows "frame_range_of p (f * 4096, (f + 1) * 4096) =
      Inr \<lparr>start_frame_number = f, end_frame_number = f + 1\<rparr>"
    and "region_ok \<lparr>rng = \<lparr>start_frame_number = f, end_frame_number = f + 1\<rparr>, region_type = t\<rparr>"
    and "type_at g \<lparr>rng = \<lparr>start_frame_number = f, end_frame_number = f + 1\<rparr>, region_type = t\<rparr> = only_at f t g"
proof -
  have "((f + 1) * 4096 - 1) div 4096 = f" by simp
  then show "frame_range_of p (f * 4096, (f + 1) * 4096) =
      Inr \<lparr>start_frame_number = f, end_frame_number = f + 1\<rparr>"
    using assms by (simp add: frame_range_of_def frame_range_new_def page_size_def frame_bound_def u64_bound_def)
qed (use assms in \<open>auto simp: region_ok_def type_at_def holds_def only_at_def\<close>)

lemma allocate_frame_spec:
  assumes wf: "mm_wf m"
  shows "(allocate_frame srt X p t m = Inr (None, m) \<and> (\<forall>f. Usable \<notin># owners m f)) \<or>
    (\<exists>f m'. allocate_frame srt X p t m = Inr (Some (f * 4096), m') \<and> mm_wf m' \<and>
       next_entry_index m' \<le> next_entry_index m + 1 \<and> retyped f t (owners m) (owners m')) \<or>
    (allocate_frame srt X p t m = Inl (Explicit_panic ''too many memory regions in memory map'') \<and>
     next_entry_index m = max_memory_map_size \<and> (\<exists>f. Usable \<in># owners m f))"
proof -
  let ?rs = "mm_deref m"
  have own: "owners m = (\<lambda>f. types_at f ?rs)" by (simp add: owners_def fun_eq_iff)
  note ok = mm_deref_ok [OF wf]
  from enlarge_spec [OF ok, of p t] show ?thesis
  proof (elim disjE exE conjE)
    fix f rs' assume e: "enlarge X p t ?rs = Inr (Some (f * 4096), rs')" "length rs' = length ?rs"
      "\<forall>r \<in> set rs'. region_ok r" "retyped f t (\<lambda>g. types_at g ?rs) (\<lambda>g. types_at g rs')"
    then show ?thesis
      using mm_write_correct [OF wf e(2,3)] by (auto simp: allocate_frame_def own)
  next
    assume e: "enlarge X p t ?rs = Inr (None, ?rs)"
    from split_for_spec [OF ok, of p t] show ?thesis
    proof (elim disjE exE conjE)
      assume "split_for X p t ?rs = Inr (None, ?rs)" "\<forall>f. Usable \<notin># types_at f ?rs"
      with e show ?thesis by (simp add: allocate_frame_def mm_write_same own)
    next
      fix f rs' assume s: "split_for X p t ?rs = Inr (Some (f * 4096, f * 4096, (f + 1) * 4096), rs')"
        "f + 1 < frame_bound" "length rs' = length ?rs" "\<forall>r \<in> set rs'. region_ok r" "Usable \<in># types_at f ?rs"
        "\<forall>g. types_at g rs' + only_at f Usable g = types_at g ?rs"
      let ?r = "\<lparr>rng = \<lparr>start_frame_number = f, end_frame_number = f + 1\<rparr>, region_type = t\<rparr>"
      note w = mm_write_correct [OF wf s(3,4)]
      have res: "allocate_frame srt X p t m =
          bind_rust (add_region srt p ?r (mm_write m rs')) (\<lambda>m'. Inr (Some (f * 4096), m'))"
        using new_region(1) [OF s(2), of p] by (simp add: allocate_frame_def e s(1))
      show ?thesis
      proof (cases "next_entry_index m < max_memory_map_size")
        case False
        then have "next_entry_index m = max_memory_map_size" using wf by (simp add: mm_wf_def)
        then show ?thesis using s(5) res w(4) by (auto simp: add_region_full own)
      next
        case True
        then obtain m' where m': "add_region srt p ?r (mm_write m rs') = Inr m'" "mm_wf m'"
          "\<And>g. owners m' g = owners (mm_write m rs') g + type_at g ?r"
          "next_entry_index m' \<le> next_entry_index (mm_write m rs') + 1"
          using add_region_correct [OF w(1) new_region(2) [OF s(2), of t], of p] w(4) by metis
        have "owners m' g + only_at f Usable g = owners m g + only_at f t g" for g
        proof -
          have "owners m' g + only_at f Usable g = (types_at g rs' + only_at f Usable g) + only_at f t g"
            unfolding m'(3) w(3) new_region(3) [OF s(2)] by (simp only: ac_simps)
          then show ?thesis using s(6) by (simp add: own)
        qed
        with s(5) have "retyped f t (owners m) (owners m')" by (simp add: retyped_def own)
        then show ?thesis using res m' w(4) by auto
      qed
    qed
  qed
qed

lemma allocate_frame_usable:
  assumes "sole_usable m" and "t \<noteq> Usable" and "retyped f t (owners m) (owners m')"
  shows "f \<in> usable m" and "usable m' = usable m - {f}" and "sole_usable m'"
proof -
  have r: "Usable \<in># owners m f" "owners m' f = owners m f - {#Usable#} + {#t#}" "\<And>g. g \<noteq> f \<Longrightarrow> owners m' g = owners m g"
    using assms(3) by (auto simp: retyped_iff)
  have "count (owners m f) Usable \<le> 1"
    using assms(1) by (simp add: sole_usable_def)
  then have c: "count (owners m' f) Usable = 0"
    using r(2) assms(2) by simp
  show "f \<in> usable m" using r(1) by (simp add: usable_def)
  have "Usable \<notin># owners m' f" using c by (simp add: count_eq_zero_iff)
  then show "usable m' = usable m - {f}"
    unfolding usable_def using r(3) by fastforce
  have "count (owners m' g) Usable \<le> 1" for g
    using assms(1) c r(3) [of g] by (cases "g = f") (auto simp: sole_usable_def)
  then show "sole_usable m'" by (simp add: sole_usable_def)
qed

lemma allocation_run_spec:
  assumes "mm_wf m" and "sole_usable m" and "Usable \<notin> set ts"
    and "next_entry_index m + length ts \<le> max_memory_map_size"
  shows "\<exists>os m'. run_steps (allocate_frame srt X p) ts m = Inr (os, m') \<and> mm_wf m' \<and> sole_usable m' \<and>
    (\<exists>fs. List.map_filter (\<lambda>x. x) os = map (\<lambda>f. f * 4096) fs \<and> distinct fs \<and> set fs \<subseteq> usable m \<and>
       usable m' = usable m - set fs) \<and>
    (None \<in> set os \<longrightarrow> usable m' = {})"
  using assms
proof (induction ts arbitrary: m)
  case Nil
  then show ?case by (simp add: List.map_filter_simps)
next
  case (Cons t ts)
  have t: "t \<noteq> Usable" "Usable \<notin> set ts" using Cons.prems(3) by auto
  from allocate_frame_spec [OF Cons.prems(1), of p t] show ?case
  proof (elim disjE exE conjE)
    assume a: "allocate_frame srt X p t m = Inr (None, m)" "\<forall>f. Usable \<notin># owners m f"
    then have none: "usable m = {}" by (simp add: usable_def)
    have "next_entry_index m + length ts \<le> max_memory_map_size" using Cons.prems(4) by simp
    from Cons.IH [OF Cons.prems(1,2) t(2) this] show ?thesis
      using a(1) none by (auto simp: List.map_filter_simps)
  next
    fix f m1 assume a: "allocate_frame srt X p t m = Inr (Some (f * 4096), m1)" "mm_wf m1"
      "next_entry_index m1 \<le> next_entry_index m + 1" "retyped f t (owners m) (owners m1)"
    note u = allocate_frame_usable [OF Cons.prems(2) t(1) a(4)]
    have "next_entry_index m1 + length ts \<le> max_memory_map_size" using Cons.prems(4) a(3) by simp
    from Cons.IH [OF a(2) u(3) t(2) this] obtain os m' fs where r:
      "run_steps (allocate_frame srt X p) ts m1 = Inr (os, m')" "mm_wf m'" "sole_usable m'"
      "List.map_filter (\<lambda>x. x) os = map (\<lambda>f. f * 4096) fs" "distinct fs" "set fs \<subseteq> usable m1"
      "usable m' = usable m1 - set fs" "None \<in> set os \<longrightarrow> usable m' = {}" by blast
    have "distinct (f # fs)" "set (f # fs) \<subseteq> usable m" "usable m' = usable m - set (f # fs)"
      using r(5,6,7) u(1,2) by auto
    moreover have "List.map_filter (\<lambda>x. x) (Some (f * 4096) # os) = map (\<lambda>f. f * 4096) (f # fs)"
      using r(4) by (simp add: List.map_filter_simps)
    moreover have "run_steps (allocate_frame srt X p) (t # ts) m = Inr (Some (f * 4096) # os, m')"
      using a(1) r(1) by simp
    ultimately show ?thesis using r(2,3,8) by (metis list.set_cases option.distinct(1) set_ConsD)
  next
    assume "next_entry_index m = max_memory_map_size"
    then show ?thesis using Cons.prems(4) by simp
  qed
qed

end

interpretation fa: frame_allocation insertion_sort_by x86_documented
  by unfold_locales

subsection \<open>Properties\<close>

text \<open>
  C3: \<^verbatim>\<open>FrameAllocator::allocate_frame\<close> on a well-formed map does one of three things: it returns
  \<^verbatim>\<open>None\<close>, leaves the map as it is, and no frame is usable; it returns a frame that was usable,
  which has changed owner from \<open>Usable\<close> to the wanted type, and no other frame has changed its
  owners; or it panics, and then the map counts all 64 slots as used.
\<close>

theorem allocate_frame_correct:
  assumes "frame_allocation srt X" and "mm_wf m"
  shows "(allocate_frame srt X p t m = Inr (None, m) \<and> usable m = {}) \<or>
    (\<exists>f m'. allocate_frame srt X p t m = Inr (Some (f * 4096), m') \<and> mm_wf m' \<and> f \<in> usable m \<and>
       owners m' f = owners m f - {#Usable#} + {#t#} \<and> (\<forall>g. g \<noteq> f \<longrightarrow> owners m' g = owners m g)) \<or>
    (allocate_frame srt X p t m = Inl (Explicit_panic ''too many memory regions in memory map'') \<and>
     next_entry_index m = max_memory_map_size)"
  using frame_allocation.allocate_frame_spec [OF assms, of p t]
  unfolding retyped_iff usable_def by blast

text \<open>A small machine: usable low memory, a reserved hole, usable memory from one megabyte on.\<close>

definition small_map :: memory_map where
  "small_map =
     \<lparr>entries =
        [\<lparr>rng = \<lparr>start_frame_number = 0, end_frame_number = 159\<rparr>, region_type = Usable\<rparr>,
         \<lparr>rng = \<lparr>start_frame_number = 159, end_frame_number = 256\<rparr>, region_type = Reserved\<rparr>,
         \<lparr>rng = \<lparr>start_frame_number = 256, end_frame_number = 32736\<rparr>, region_type = Usable\<rparr>]
        @ replicate 61 region_empty,
      next_entry_index = 3\<rparr>"

lemma small_map_deref:
  "mm_deref small_map =
     [\<lparr>rng = \<lparr>start_frame_number = 0, end_frame_number = 159\<rparr>, region_type = Usable\<rparr>,
      \<lparr>rng = \<lparr>start_frame_number = 159, end_frame_number = 256\<rparr>, region_type = Reserved\<rparr>,
      \<lparr>rng = \<lparr>start_frame_number = 256, end_frame_number = 32736\<rparr>, region_type = Usable\<rparr>]"
  by (simp add: mm_deref_def small_map_def)

lemma small_map_slots: "next_entry_index small_map = 3"
  by (simp add: small_map_def)

lemma small_map_wf: "mm_wf small_map"
  by (simp add: mm_wf_def small_map_def max_memory_map_size_def region_empty_def is_empty_def
      region_ok_def frame_bound_def)

lemma small_map_owners:
  "owners small_map f =
     (if f < 159 then {#Usable#} else if f < 256 then {#Reserved#} else if f < 32736 then {#Usable#} else {#})"
  by (simp add: owners_def small_map_deref type_at_def holds_def)

lemma small_map_sole: "sole_usable small_map"
  by (simp add: sole_usable_def small_map_owners)

theorem allocate_frame_correct_witness:
  "frame_allocation insertion_sort_by x86_documented \<and> mm_wf small_map \<and>
   (\<exists>f m'. allocate_frame insertion_sort_by x86_documented Debug PageTable small_map = Inr (Some (f * 4096), m') \<and>
      mm_wf m' \<and> f \<in> usable small_map \<and>
      owners m' f = owners small_map f - {#Usable#} + {#PageTable#} \<and>
      (\<forall>g. g \<noteq> f \<longrightarrow> owners m' g = owners small_map g))"
proof -
  have "0 \<in> usable small_map" by (simp add: usable_def small_map_owners)
  moreover have "next_entry_index small_map \<noteq> max_memory_map_size"
    by (simp add: small_map_slots max_memory_map_size_def)
  ultimately show ?thesis
    using allocate_frame_correct [OF fa.frame_allocation_axioms small_map_wf, of Debug PageTable]
      fa.frame_allocation_axioms small_map_wf by blast
qed

text \<open>
  C7: any sequence of allocations for which the map has a slot each runs to the end without a panic,
  hands out distinct frames that were all usable before and are not usable afterwards, leaves every
  other usable frame usable, and answers \<^verbatim>\<open>None\<close> only once no usable frame is left.
\<close>

theorem allocation_run_distinct:
  assumes "frame_allocation srt X" and "mm_wf m" and "sole_usable m" and "Usable \<notin> set ts"
    and "next_entry_index m + length ts \<le> max_memory_map_size"
  shows "\<exists>os m' fs. run_steps (allocate_frame srt X p) ts m = Inr (os, m') \<and> mm_wf m' \<and>
    List.map_filter (\<lambda>x. x) os = map (\<lambda>f. f * 4096) fs \<and> distinct fs \<and> set fs \<subseteq> usable m \<and>
    usable m' = usable m - set fs \<and> (None \<in> set os \<longrightarrow> usable m' = {})"
  using frame_allocation.allocation_run_spec [OF assms, of p] by blast

theorem allocation_run_distinct_witness:
  "frame_allocation insertion_sort_by x86_documented \<and> mm_wf small_map \<and> sole_usable small_map \<and>
   (\<exists>os m' fs. run_steps (allocate_frame insertion_sort_by x86_documented Release)
        [BootInfo, PageTable, KernelStack, PageTable] small_map = Inr (os, m') \<and>
      List.map_filter (\<lambda>x. x) os = map (\<lambda>f. f * 4096) fs \<and> distinct fs \<and> set fs \<subseteq> usable small_map \<and>
      usable m' = usable small_map - set fs)"
  using allocation_run_distinct [OF fa.frame_allocation_axioms small_map_wf small_map_sole,
      of "[BootInfo, PageTable, KernelStack, PageTable]" Release]
    fa.frame_allocation_axioms small_map_wf small_map_sole
  by (auto simp: small_map_slots max_memory_map_size_def)

text \<open>
  C18: marking a region that is not empty and lies inside one usable region, with no other region
  overlapping it, never panics while two slots are free: exactly its frames change owner from
  \<open>Usable\<close> to the region's type.
\<close>

theorem mark_allocated_region_exact:
  assumes "region_sort srt" and "mm_wf m" and "region_ok region"
    and "next_entry_index m + 2 \<le> max_memory_map_size"
    and "start_frame_number (rng region) < end_frame_number (rng region)"
    and "r \<in> set (mm_deref m)" and "region_type r = Usable"
    and "start_frame_number (rng r) \<le> start_frame_number (rng region)"
    and "end_frame_number (rng region) \<le> end_frame_number (rng r)"
    and "\<forall>q \<in> set (mm_deref m). overlaps region q \<longrightarrow> q = r"
  shows "\<exists>m'. mark_allocated_region srt p region m = Inr m' \<and> mm_wf m' \<and>
    (\<forall>g. owners m' g =
       (if holds region g then owners m g - {#Usable#} + {#region_type region#} else owners m g))"
  using region_sort.mark_allocated_region_inside [OF assms] .

definition kernel_area :: memory_region where
  "kernel_area = \<lparr>rng = \<lparr>start_frame_number = 1024, end_frame_number = 1536\<rparr>, region_type = Kernel\<rparr>"

theorem mark_allocated_region_exact_witness:
  "region_sort insertion_sort_by \<and> mm_wf small_map \<and> region_ok kernel_area \<and>
   (\<exists>m'. mark_allocated_region insertion_sort_by Release kernel_area small_map = Inr m' \<and> mm_wf m' \<and>
     owners m' 1024 = {#Kernel#} \<and> owners m' 1536 = {#Usable#} \<and> owners m' 1023 = {#Usable#})"
proof -
  let ?r = "\<lparr>rng = \<lparr>start_frame_number = 256, end_frame_number = 32736\<rparr>, region_type = Usable\<rparr>"
  have ok: "region_ok kernel_area" by (simp add: kernel_area_def region_ok_def frame_bound_def)
  have "\<exists>m'. mark_allocated_region insertion_sort_by Release kernel_area small_map = Inr m' \<and> mm_wf m' \<and>
    (\<forall>g. owners m' g =
       (if holds kernel_area g then owners small_map g - {#Usable#} + {#region_type kernel_area#} else owners small_map g))"
    by (intro mark_allocated_region_exact [OF inss.region_sort_axioms small_map_wf ok, where r = ?r])
      (auto simp: small_map_deref kernel_area_def overlaps_def small_map_slots max_memory_map_size_def)
  then obtain m' where m': "mark_allocated_region insertion_sort_by Release kernel_area small_map = Inr m'" "mm_wf m'"
    "\<forall>g. owners m' g =
       (if holds kernel_area g then owners small_map g - {#Usable#} + {#region_type kernel_area#} else owners small_map g)"
    by blast
  have "owners m' 1024 = {#Kernel#}" "owners m' 1536 = {#Usable#}" "owners m' 1023 = {#Usable#}"
    by (simp_all add: m'(3) [rule_format] small_map_owners holds_def kernel_area_def)
  then show ?thesis
    using ok inss.region_sort_axioms small_map_wf m'(1,2) by blast
qed

text \<open>
  Only the first overlapping region is looked at. Of a region that starts inside a usable region
  \<open>r\<close> and reaches beyond its end, every frame gains the new type, also those behind \<open>r\<close>, which
  keep the owners they had: the map then lists them twice, and the promised panic on a reserved
  region does not happen.
\<close>

lemma mark_allocated_region_reaching_beyond:
  assumes "region_sort srt" and "mm_wf m" and "region_ok region"
    and "next_entry_index m + 2 \<le> max_memory_map_size"
    and "position (overlaps region) (mm_deref m) = Some i" and "region_type (mm_deref m ! i) = Usable"
    and "start_frame_number (rng (mm_deref m ! i)) \<le> start_frame_number (rng region)"
  shows "\<exists>m'. mark_allocated_region srt p region m = Inr m' \<and>
    (\<forall>g. holds region g \<and> \<not> holds (mm_deref m ! i) g \<longrightarrow>
       owners m' g = owners m g + {#region_type region#})"
proof -
  obtain m' where m': "mark_allocated_region srt p region m = Inr m'"
    "\<forall>g. owners m' g + (if holds region g \<and> holds (mm_deref m ! i) g then {#Usable#} else {#}) =
       owners m g + type_at g region"
    using region_sort.mark_allocated_region_first [OF assms(1-5) refl assms(6)] assms(7) by blast
  have "owners m' g = owners m g + {#region_type region#}" if "holds region g" "\<not> holds (mm_deref m ! i) g" for g
    using spec [OF m'(2), of g] that by (simp add: type_at_def)
  then show ?thesis using m'(1) by blast
qed

definition straddling_area :: memory_region where
  "straddling_area = \<lparr>rng = \<lparr>start_frame_number = 150, end_frame_number = 300\<rparr>, region_type = Bootloader\<rparr>"

lemma mark_allocated_region_reaching_beyond_witness:
  "region_sort insertion_sort_by \<and> mm_wf small_map \<and>
   (\<exists>m'. mark_allocated_region insertion_sort_by Release straddling_area small_map = Inr m' \<and>
     owners m' 200 = {#Reserved, Bootloader#} \<and> owners m' 299 = {#Usable, Bootloader#})"
proof -
  have ok: "region_ok straddling_area" by (simp add: straddling_area_def region_ok_def frame_bound_def)
  have room: "next_entry_index small_map + 2 \<le> max_memory_map_size"
    by (simp add: small_map_slots max_memory_map_size_def)
  have pos: "position (overlaps straddling_area) (mm_deref small_map) = Some 0"
    by (simp add: small_map_deref straddling_area_def overlaps_def)
  obtain m' where m': "mark_allocated_region insertion_sort_by Release straddling_area small_map = Inr m'"
    "\<forall>g. holds straddling_area g \<and> \<not> holds (mm_deref small_map ! 0) g \<longrightarrow>
       owners m' g = owners small_map g + {#region_type straddling_area#}"
    using mark_allocated_region_reaching_beyond [OF inss.region_sort_axioms small_map_wf ok room pos, of Release]
    by (auto simp: small_map_deref)
  have "owners m' 200 = {#Reserved, Bootloader#}" "owners m' 299 = {#Usable, Bootloader#}"
    using m'(2) by (simp_all add: small_map_deref straddling_area_def holds_def small_map_owners)
  then show ?thesis using inss.region_sort_axioms small_map_wf m'(1) by blast
qed

end
