(* ===== verification/Paging.thy ===== *)
theory Paging
  imports X86 "HOL-Library.Sublist"
begin

text \<open>
  The page-table mapper of the \<^verbatim>\<open>x86_64\<close> crate, which is not part of the repository. A page is
  the virtual address it starts at. \<^verbatim>\<open>Mapper::map_to\<close> is a parameter \<open>map_to\<close> of the operations
  that map pages; it receives the caller's frame allocator, because it allocates a frame for each
  page table that is missing on the way to the entry. The locale \<open>mapper\<close> states its documented
  behaviour: the page is translated to the frame afterwards, no other page changes, the allocator is
  called at most three times (a level 3, a level 2 and a level 1 table), a page that is mapped already
  is an error, and a page that can be mapped is mapped unless the allocator fails. Its success value is the
  page whose translation the caller has to flush.

  The instance at the end of the theory is a four-level table: which tables exist, and the entries
  of the lowest level.
\<close>

datatype page_flag = PRESENT | WRITABLE | NO_EXECUTE

type_synonym page_flags = "page_flag set"

datatype map_error = FrameAllocationFailed | ParentEntryHugePage | PageAlreadyMapped u64

type_synonym 'fa frame_source = "'fa \<Rightarrow> (u64 option \<times> 'fa) rust"

type_synonym ('pt, 'fa) map_to =
  "'fa frame_source \<Rightarrow> u64 \<Rightarrow> u64 \<Rightarrow> page_flags \<Rightarrow> 'pt \<Rightarrow> 'fa \<Rightarrow> ((map_error + u64) \<times> 'pt \<times> 'fa) rust"

subsection \<open>Frame sources\<close>

text \<open>\<open>supplies alloc n fa\<close>: the next \<open>n\<close> allocations succeed.\<close>

primrec supplies :: "'fa frame_source \<Rightarrow> nat \<Rightarrow> 'fa \<Rightarrow> bool" where
  "supplies alloc 0 fa \<longleftrightarrow> True"
| "supplies alloc (Suc n) fa \<longleftrightarrow>
     (case alloc fa of Inr (Some f, fa') \<Rightarrow> supplies alloc n fa' | _ \<Rightarrow> False)"

text \<open>\<open>drawn alloc fs fa fa'\<close>: from \<open>fa\<close> successive allocations hand out \<open>fs\<close> and leave \<open>fa'\<close>.\<close>

primrec drawn :: "'fa frame_source \<Rightarrow> u64 list \<Rightarrow> 'fa \<Rightarrow> 'fa \<Rightarrow> bool" where
  "drawn alloc [] fa fa' \<longleftrightarrow> fa' = fa"
| "drawn alloc (f # fs) fa fa' \<longleftrightarrow>
     (case alloc fa of Inr (Some g, fa1) \<Rightarrow> g = f \<and> drawn alloc fs fa1 fa' | _ \<Rightarrow> False)"

lemma supplies_SucD: "supplies alloc (Suc n) fa \<Longrightarrow> \<exists>f fa'. alloc fa = Inr (Some f, fa') \<and> supplies alloc n fa'"
  by (auto split: sum.splits option.splits)

lemma supplies_mono: "supplies alloc n fa \<Longrightarrow> m \<le> n \<Longrightarrow> supplies alloc m fa"
proof (induction m arbitrary: n fa)
  case (Suc m)
  then obtain n' where "n = Suc n'" "m \<le> n'" by (cases n) auto
  with Suc show ?case by (auto split: sum.splits prod.splits option.splits)
qed simp

lemma supplies_drawn: "supplies alloc (length fs + n) fa \<Longrightarrow> drawn alloc fs fa fa' \<Longrightarrow> supplies alloc n fa'"
  by (induction fs arbitrary: fa) (auto split: sum.splits prod.splits option.splits)

lemma drawn_append:
  "drawn alloc (fs @ gs) fa fa'' \<longleftrightarrow> (\<exists>fa'. drawn alloc fs fa fa' \<and> drawn alloc gs fa' fa'')"
  by (induction fs arbitrary: fa) (auto split: sum.splits prod.splits option.splits)

lemma distinct_subseq: "subseq xs ys \<Longrightarrow> distinct ys \<Longrightarrow> distinct xs"
  by (induction rule: list_emb.induct) (auto dest: list_emb_set)

text \<open>
  \<open>done_within alloc n fa x r\<close>: the result \<open>r\<close> is \<open>x\<close> after at most \<open>n\<close> allocations, or one of them
  handed out no frame and the result says so, or one of them panicked.
\<close>

definition done_within ::
  "'fa frame_source \<Rightarrow> nat \<Rightarrow> 'fa \<Rightarrow> 'a \<Rightarrow> ((map_error + 'a) \<times> 'pt \<times> 'fa) rust \<Rightarrow> bool" where
  "done_within alloc n fa x r \<longleftrightarrow>
     (\<exists>fs fa1. drawn alloc fs fa fa1 \<and>
        (length fs \<le> n \<and> (\<exists>pt'. r = Inr (Inr x, pt', fa1)) \<or>
         length fs < n \<and> (\<exists>pt' fa2. alloc fa1 = Inr (None, fa2) \<and> r = Inr (Inl FrameAllocationFailed, pt', fa2)) \<or>
         length fs < n \<and> (\<exists>p. alloc fa1 = Inl p \<and> r = Inl p)))"

lemma done_within_mono: "done_within alloc n fa x r \<Longrightarrow> n \<le> m \<Longrightarrow> done_within alloc m fa x r"
  unfolding done_within_def by (elim exE, intro exI, erule conjE, rule conjI, assumption) auto

lemma done_within_0: "done_within alloc 0 fa x (Inr (Inr x, pt, fa))"
  unfolding done_within_def by (intro exI [of _ "[]"] exI [of _ fa]) simp

lemma done_within_Suc:
  assumes "alloc fa = Inr (Some f, fa')" and "done_within alloc n fa' x r"
  shows "done_within alloc (Suc n) fa x r"
proof -
  from assms(2) obtain fs fa1 where "drawn alloc fs fa' fa1"
    "length fs \<le> n \<and> (\<exists>pt'. r = Inr (Inr x, pt', fa1)) \<or>
     length fs < n \<and> (\<exists>pt' fa2. alloc fa1 = Inr (None, fa2) \<and> r = Inr (Inl FrameAllocationFailed, pt', fa2)) \<or>
     length fs < n \<and> (\<exists>p. alloc fa1 = Inl p \<and> r = Inl p)" unfolding done_within_def by blast
  then show ?thesis using assms(1) unfolding done_within_def by (intro exI [of _ "f # fs"] exI [of _ fa1]) simp
qed

lemma done_within_fail:
  "alloc fa = Inr (None, fa') \<Longrightarrow> done_within alloc (Suc n) fa x (Inr (Inl FrameAllocationFailed, pt, fa'))"
  "alloc fa = Inl p \<Longrightarrow> done_within alloc (Suc n) fa x (Inl p)"
  unfolding done_within_def by (intro exI [of _ "[]"] exI [of _ fa], simp)+

subsection \<open>The mapper\<close>

locale mapper =
  fixes map_to :: "('pt, 'fa) map_to"
    and translate :: "'pt \<Rightarrow> u64 \<Rightarrow> (u64 \<times> page_flags) option"
    and mappable :: "'pt \<Rightarrow> u64 \<Rightarrow> bool"
  assumes map_ok: "map_to alloc page frame fl pt fa = Inr (Inr u, pt', fa') \<Longrightarrow>
      translate pt' = (translate pt)(page \<mapsto> (frame, fl))"
    and map_failed: "map_to alloc page frame fl pt fa = Inr (Inl e, pt', fa') \<Longrightarrow>
      translate pt' = translate pt"
    and map_ok_draws: "map_to alloc page frame fl pt fa = Inr (Inr u, pt', fa') \<Longrightarrow>
      \<exists>fs. length fs \<le> 3 \<and> drawn alloc fs fa fa'"
    and map_taken: "map_to alloc page frame fl pt fa = Inr (Inr u, pt', fa') \<Longrightarrow> translate pt page = None"
    and map_outcome: "mappable pt page \<Longrightarrow>
      done_within alloc 3 fa page (map_to alloc page frame fl pt fa)"
    and map_mappable: "map_to alloc page frame fl pt fa = Inr (Inr u, pt', fa') \<Longrightarrow>
      mappable pt q \<Longrightarrow> q \<noteq> page \<Longrightarrow> mappable pt' q"
begin

lemma map_total:
  assumes "mappable pt page" and "supplies alloc 3 fa"
  shows "\<exists>pt' fa'. map_to alloc page frame fl pt fa = Inr (Inr page, pt', fa')"
proof -
  obtain fs fa1 where o: "drawn alloc fs fa fa1"
    "(\<exists>pt'. map_to alloc page frame fl pt fa = Inr (Inr page, pt', fa1)) \<or>
     length fs < 3 \<and> ((\<exists>fa2. alloc fa1 = Inr (None, fa2)) \<or> (\<exists>p. alloc fa1 = Inl p))"
    using map_outcome [OF assms(1), of alloc fa frame fl] unfolding done_within_def by blast
  have "\<exists>f fa2. alloc fa1 = Inr (Some f, fa2)" if "length fs < 3"
  proof -
    have "supplies alloc (length fs + Suc 0) fa" by (rule supplies_mono [OF assms(2)]) (use that in simp)
    then show ?thesis using supplies_SucD [OF supplies_drawn [OF _ o(1)]] by blast
  qed
  then show ?thesis using o(2) by auto
qed

end

subsection \<open>A four-level table\<close>

text \<open>
  \<open>tables\<close> holds, per level, the tables that exist: a level 3 table is named by the page address
  divided by \<open>2 ^ 39\<close>, a level 2 table by \<open>2 ^ 30\<close>, a level 1 table by \<open>2 ^ 21\<close>.
\<close>

record page_tables =
  tables :: "(nat \<times> u64) set"
  leaves :: "u64 \<rightharpoonup> (u64 \<times> page_flags)"

definition table_of :: "nat \<Rightarrow> u64 \<Rightarrow> u64" where
  "table_of level page = page div 2 ^ (12 + 9 * level)"

definition create_next_table ::
  "'fa frame_source \<Rightarrow> nat \<Rightarrow> u64 \<Rightarrow> page_tables \<Rightarrow> 'fa \<Rightarrow> ((map_error + u64) \<times> page_tables \<times> 'fa) rust" where
  "create_next_table alloc level page pt fa =
     (if (level, table_of level page) \<in> tables pt then Inr (Inr page, pt, fa)
      else bind_rust (alloc fa) (\<lambda>(f, fa').
        case f of
          None \<Rightarrow> Inr (Inl FrameAllocationFailed, pt, fa')
        | Some _ \<Rightarrow> Inr (Inr page, pt\<lparr>tables := insert (level, table_of level page) (tables pt)\<rparr>, fa')))"

fun create_tables ::
  "'fa frame_source \<Rightarrow> nat list \<Rightarrow> u64 \<Rightarrow> page_tables \<Rightarrow> 'fa \<Rightarrow> ((map_error + u64) \<times> page_tables \<times> 'fa) rust" where
  "create_tables alloc [] page pt fa = Inr (Inr page, pt, fa)"
| "create_tables alloc (l # ls) page pt fa =
     bind_rust (create_next_table alloc l page pt fa) (\<lambda>(r, pt', fa').
       case r of Inl e \<Rightarrow> Inr (Inl e, pt', fa') | Inr _ \<Rightarrow> create_tables alloc ls page pt' fa')"

definition four_level_map_to :: "(page_tables, 'fa) map_to" where
  "four_level_map_to alloc page frame fl pt fa =
     bind_rust (create_tables alloc [3, 2, 1] page pt fa) (\<lambda>(r, pt', fa').
       case r of
         Inl e \<Rightarrow> Inr (Inl e, pt', fa')
       | Inr _ \<Rightarrow>
           (case leaves pt' page of
              Some (old, _) \<Rightarrow> Inr (Inl (PageAlreadyMapped old), pt', fa')
            | None \<Rightarrow> Inr (Inr page, pt'\<lparr>leaves := (leaves pt')(page \<mapsto> (frame, fl))\<rparr>, fa')))"

lemma create_next_table_cases:
  assumes "create_next_table alloc l page pt fa = Inr (r, pt', fa')"
  shows "leaves pt' = leaves pt" and "r = Inr u \<Longrightarrow> \<exists>fs. length fs \<le> 1 \<and> drawn alloc fs fa fa'"
proof -
  show "leaves pt' = leaves pt"
    using assms by (auto simp: create_next_table_def bind_rust_eq_Inr split: if_splits option.splits)
  assume "r = Inr u"
  with assms consider "fa' = fa" | f where "alloc fa = Inr (Some f, fa')"
    by (auto simp: create_next_table_def bind_rust_eq_Inr split: if_splits option.splits)
  then show "\<exists>fs. length fs \<le> 1 \<and> drawn alloc fs fa fa'"
  proof cases
    case 1 then show ?thesis by (intro exI [of _ "[]"]) simp
  next
    case (2 f) then show ?thesis by (intro exI [of _ "[f]"]) simp
  qed
qed

lemma create_tables_leaves:
  "create_tables alloc ls page pt fa = Inr (r, pt', fa') \<Longrightarrow> leaves pt' = leaves pt"
proof (induction ls arbitrary: pt fa)
  case (Cons l ls)
  then obtain q pt1 fa1 where 1: "create_next_table alloc l page pt fa = Inr (q, pt1, fa1)"
    "pt' = pt1 \<or> create_tables alloc ls page pt1 fa1 = Inr (r, pt', fa')"
    by (auto simp: rust_splits)
  then show ?case using Cons.IH create_next_table_cases(1) [OF 1(1)] by auto
qed simp

lemma create_tables_draws:
  "create_tables alloc ls page pt fa = Inr (Inr u, pt', fa') \<Longrightarrow> \<exists>fs. length fs \<le> length ls \<and> drawn alloc fs fa fa'"
proof (induction ls arbitrary: pt fa)
  case (Cons l ls)
  then obtain pt1 fa1 v where 1: "create_next_table alloc l page pt fa = Inr (Inr v, pt1, fa1)"
    "create_tables alloc ls page pt1 fa1 = Inr (Inr u, pt', fa')"
    by (auto simp: rust_splits)
  obtain fs where "length fs \<le> 1" "drawn alloc fs fa fa1" using create_next_table_cases(2) [OF 1(1)] by blast
  moreover obtain gs where "length gs \<le> length ls" "drawn alloc gs fa1 fa'" using Cons.IH [OF 1(2)] by blast
  ultimately show ?case by (intro exI [of _ "fs @ gs"]) (auto simp: drawn_append)
qed (auto intro: exI [of _ "[]"])

lemma create_tables_outcome:
  "done_within alloc (length ls) fa page (create_tables alloc ls page pt fa)"
proof (induction ls arbitrary: pt fa)
  case (Cons l ls)
  show ?case
  proof (cases "(l, table_of l page) \<in> tables pt")
    case True
    then show ?thesis using done_within_mono [OF Cons.IH [of fa pt]] by (simp add: create_next_table_def)
  next
    case new: False
    show ?thesis
    proof (cases "alloc fa")
      case (Inl p)
      with new show ?thesis by (simp add: create_next_table_def done_within_fail(2))
    next
      case (Inr r)
      obtain f fa' where r: "r = (f, fa')" by force
      show ?thesis
      proof (cases f)
        case None
        with new Inr r show ?thesis by (simp add: create_next_table_def done_within_fail(1))
      next
        case (Some x)
        with new Inr r Cons.IH show ?thesis by (simp add: create_next_table_def done_within_Suc)
      qed
    qed
  qed
qed (simp add: done_within_0)

lemma four_level_Ok:
  assumes "four_level_map_to alloc page frame fl pt fa = Inr (Inr u, pt', fa')"
  shows "\<exists>pt1 v. create_tables alloc [3, 2, 1] page pt fa = Inr (Inr v, pt1, fa') \<and> leaves pt1 page = None \<and>
    pt' = pt1\<lparr>leaves := (leaves pt1)(page \<mapsto> (frame, fl))\<rparr>"
  using assms
  by (auto simp: four_level_map_to_def rust_splits simp del: create_tables.simps)

lemma four_level_Err:
  assumes "four_level_map_to alloc page frame fl pt fa = Inr (Inl e, pt', fa')"
  shows "\<exists>r. create_tables alloc [3, 2, 1] page pt fa = Inr (r, pt', fa')"
  using assms
  by (auto simp: four_level_map_to_def rust_splits simp del: create_tables.simps)

interpretation fl: mapper four_level_map_to leaves "\<lambda>pt page. leaves pt page = None"
proof unfold_locales
  fix alloc :: "'fa frame_source" and page frame fl pt fa u e pt' fa' q
  show "leaves pt' = leaves pt"
    if "four_level_map_to alloc page frame fl pt fa = Inr (Inl e, pt', fa')"
    using four_level_Err [OF that] by (auto dest: create_tables_leaves simp del: create_tables.simps)
  assume "four_level_map_to alloc page frame fl pt fa = Inr (Inr u, pt', fa')"
  from four_level_Ok [OF this] obtain pt1 v where
    t: "create_tables alloc [3, 2, 1] page pt fa = Inr (Inr v, pt1, fa')"
    and pt': "pt' = pt1\<lparr>leaves := (leaves pt1)(page \<mapsto> (frame, fl))\<rparr>" by blast
  show new: "leaves pt' = (leaves pt)(page \<mapsto> (frame, fl))"
    using create_tables_leaves [OF t] by (simp add: pt')
  show "\<exists>fs. length fs \<le> 3 \<and> drawn alloc fs fa fa'"
    using create_tables_draws [OF t] by (simp add: numeral_3_eq_3)
  show "leaves pt' q = None" if "leaves pt q = None" "q \<noteq> page"
    using that by (simp add: new)
  show "leaves pt page = None"
    using four_level_Ok [OF \<open>four_level_map_to alloc page frame fl pt fa = Inr (Inr u, pt', fa')\<close>] create_tables_leaves by metis
next
  fix alloc :: "'fa frame_source" and page frame fl fa and pt :: page_tables
  assume free: "leaves pt page = None"
  have "done_within alloc 3 fa page (create_tables alloc [3, 2, 1] page pt fa)"
    using create_tables_outcome [of alloc "[3, 2, 1]"] by (simp add: numeral_3_eq_3 del: create_tables.simps)
  then show "done_within alloc 3 fa page (four_level_map_to alloc page frame fl pt fa)"
    using free create_tables_leaves [of alloc "[3, 2, 1]" page pt fa]
    unfolding done_within_def by (fastforce simp: four_level_map_to_def simp del: create_tables.simps)
qed

end
