(* ===== verification/KernelMemory.thy ===== *)
theory KernelMemory
  imports FrameAlloc Paging
begin

text \<open>
  The kernel's memory management: the frame allocator over the boot memory map
  (\<^verbatim>\<open>src/memory.rs\<close>) and the mapping of the heap (\<^verbatim>\<open>src/allocator.rs\<close>).

  \<^verbatim>\<open>usable_frames\<close> is a lazy iterator that each call builds anew and advances with \<^verbatim>\<open>nth\<close>; the
  model walks it the same way, converting every address it passes, so that a panic of a conversion
  happens exactly where the code has it. The abstract allocator is the list of the usable frames
  and a position in it.
\<close>

subsection \<open>The frame allocator\<close>

record boot_info_frame_allocator =
  bfa_memory_map :: memory_map
  bfa_next :: usize

definition bfa_init :: "memory_map \<Rightarrow> boot_info_frame_allocator" where
  "bfa_init m = \<lparr>bfa_memory_map = m, bfa_next = 0\<rparr>"

text \<open>\<^verbatim>\<open>(start..end).step_by(4096)\<close>\<close>

function step_by_page :: "u64 \<Rightarrow> u64 \<Rightarrow> u64 list" where
  "step_by_page s e = (if s < e then s # step_by_page (s + 4096) e else [])"
  by auto
termination by (relation "measure (\<lambda>(s, e). e - s)") auto

declare step_by_page.simps [simp del]

datatype advance = Found u64 | Exhausted nat

text \<open>\<^verbatim>\<open>nth\<close> within the addresses of one region: the frame, or how many are still to be skipped.\<close>

fun advance_region :: "x86 \<Rightarrow> nat \<Rightarrow> u64 list \<Rightarrow> advance rust" where
  "advance_region X n [] = Inr (Exhausted n)"
| "advance_region X n (addr # addrs) =
     bind_rust (phys_addr_new X addr) (\<lambda>pa.
       case n of 0 \<Rightarrow> Inr (Found (frame_containing X pa)) | Suc k \<Rightarrow> advance_region X k addrs)"

fun usable_frames_nth :: "x86 \<Rightarrow> profile \<Rightarrow> nat \<Rightarrow> memory_region list \<Rightarrow> u64 option rust" where
  "usable_frames_nth X p n [] = Inr None"
| "usable_frames_nth X p n (r # rs) =
     (if region_type r = Usable
      then bind_rust (start_addr p (rng r)) (\<lambda>s. bind_rust (end_addr p (rng r)) (\<lambda>e.
        bind_rust (advance_region X n (step_by_page s e)) (\<lambda>a.
          case a of Found frame \<Rightarrow> Inr (Some frame) | Exhausted k \<Rightarrow> usable_frames_nth X p k rs)))
      else usable_frames_nth X p n rs)"

definition bfa_allocate_frame ::
  "x86 \<Rightarrow> profile \<Rightarrow> boot_info_frame_allocator \<Rightarrow> (u64 option \<times> boot_info_frame_allocator) rust" where
  "bfa_allocate_frame X p a =
     bind_rust (usable_frames_nth X p (bfa_next a) (mm_deref (bfa_memory_map a))) (\<lambda>frame.
       bind_rust (u64_add p (bfa_next a) 1) (\<lambda>n. Inr (frame, a\<lparr>bfa_next := n\<rparr>)))"

subsection \<open>The heap\<close>

definition HEAP_START :: u64 where "HEAP_START = 0x444444440000"
definition HEAP_SIZE :: usize where "HEAP_SIZE = 1024 * 1024"

text \<open>\<^verbatim>\<open>Page::range_inclusive\<close> between the pages of two addresses.\<close>

definition pages_inclusive :: "u64 \<Rightarrow> u64 \<Rightarrow> u64 list" where
  "pages_inclusive a b = map (\<lambda>n. n * 4096) [a div 4096 ..< Suc (b div 4096)]"

text \<open>The heap allocator's state: the range handed to \<^verbatim>\<open>ALLOCATOR.lock().init\<close>, if any.\<close>

type_synonym heap = "(u64 \<times> usize) option"

fun map_heap_pages ::
  "('pt, 'fa) map_to \<Rightarrow> 'fa frame_source \<Rightarrow> u64 list \<Rightarrow> 'pt \<Rightarrow> 'fa \<Rightarrow> ((map_error + u64 list) \<times> 'pt \<times> 'fa) rust" where
  "map_heap_pages map_to alloc [] pt fa = Inr (Inr [], pt, fa)"
| "map_heap_pages map_to alloc (page # pages) pt fa =
     bind_rust (alloc fa) (\<lambda>(frame, fa1).
       case frame of
         None \<Rightarrow> Inr (Inl FrameAllocationFailed, pt, fa1)
       | Some f \<Rightarrow>
           bind_rust (map_to alloc page f {PRESENT, WRITABLE} pt fa1) (\<lambda>(r, pt1, fa2).
             case r of
               Inl e \<Rightarrow> Inr (Inl e, pt1, fa2)
             | Inr flush \<Rightarrow>
                 bind_rust (map_heap_pages map_to alloc pages pt1 fa2) (\<lambda>(r', pt2, fa3).
                   Inr (map_sum id (\<lambda>fl. flush # fl) r', pt2, fa3))))"

text \<open>
  The third component is the heap afterwards; the success value lists the pages flushed from the
  translation cache, in order.
\<close>

definition init_heap ::
  "('pt, 'fa) map_to \<Rightarrow> 'fa frame_source \<Rightarrow> 'pt \<Rightarrow> 'fa \<Rightarrow> heap \<Rightarrow>
   ((map_error + u64 list) \<times> 'pt \<times> 'fa \<times> heap) rust" where
  "init_heap map_to alloc pt fa h =
     bind_rust (map_heap_pages map_to alloc (pages_inclusive HEAP_START (HEAP_START + HEAP_SIZE - 1)) pt fa)
       (\<lambda>(r, pt', fa').
          case r of
            Inl e \<Rightarrow> Inr (Inl e, pt', fa', h)
          | Inr flushed \<Rightarrow> Inr (Inr flushed, pt', fa', Some (HEAP_START, HEAP_SIZE)))"

subsection \<open>The usable frames as a list\<close>

definition region_frames :: "memory_region \<Rightarrow> u64 list" where
  "region_frames r =
     (if region_type r = Usable then [start_frame_number (rng r) ..< end_frame_number (rng r)] else [])"

definition usable_list :: "memory_map \<Rightarrow> u64 list" where
  "usable_list m = concat (map region_frames (mm_deref m))"

lemma step_by_page_frames:
  assumes "s \<le> e"
  shows "step_by_page (s * 4096) (e * 4096) = map (\<lambda>f. f * 4096) [s ..< e]"
  using assms
proof (induction "e - s" arbitrary: s)
  case 0
  then show ?case by (simp add: step_by_page.simps)
next
  case (Suc n)
  then have "step_by_page (Suc s * 4096) (e * 4096) = map (\<lambda>f. f * 4096) [Suc s ..< e]"
    by (intro Suc.hyps(1)) simp_all
  moreover have "step_by_page (s * 4096) (e * 4096) = s * 4096 # step_by_page (Suc s * 4096) (e * 4096)"
    using Suc by (subst step_by_page.simps) (simp add: add.commute)
  ultimately show ?case using Suc by (simp add: upt_conv_Cons)
qed

lemma set_usable_list: "set (usable_list m) = usable m"
  by (auto simp: usable_list_def region_frames_def usable_def owners_def types_at_member holds_def)

lemma usable_list_distinct:
  assumes "sole_usable m"
  shows "distinct (usable_list m)"
proof -
  have "distinct (concat (map region_frames rs))" if "\<And>f. count (types_at f rs) Usable \<le> 1" for rs
    using that
  proof (induction rs)
    case (Cons r rs)
    have "count (types_at f rs) Usable \<le> 1" for f
      using Cons.prems [of f] by simp
    moreover have "f \<notin> set (concat (map region_frames rs))" if "f \<in> set (region_frames r)" for f
    proof
      assume "f \<in> set (concat (map region_frames rs))"
      then have "Usable \<in># types_at f rs"
        by (auto simp: types_at_member region_frames_def holds_def split: if_splits)
      then have "0 < count (types_at f rs) Usable" by (simp only: count_greater_zero_iff)
      moreover have "count (type_at f r) Usable = 1"
        using that by (simp add: region_frames_def type_at_def holds_def split: if_splits)
      moreover have "count (type_at f r) Usable + count (types_at f rs) Usable \<le> 1"
        using Cons.prems [of f] by simp
      ultimately show False by linarith
    qed
    ultimately show ?case using Cons.IH by (auto simp: region_frames_def)
  qed simp
  then show ?thesis using assms by (simp add: usable_list_def sole_usable_def owners_def)
qed

context x86_addresses
begin

lemma advance_region_frames:
  assumes "\<forall>f \<in> set fs. f < frame_bound"
  shows "advance_region X n (map (\<lambda>f. f * 4096) fs) =
    Inr (if n < length fs then Found (fs ! n * 4096) else Exhausted (n - length fs))"
  using assms
proof (induction fs arbitrary: n)
  case (Cons f fs)
  have "phys_addr_new X (f * 4096) = Inr (f * 4096)"
    using Cons.prems new_valid [of "f * 4096"] by (simp add: frame_bound_def phys_bound_def)
  then show ?case using Cons by (cases n) (auto simp: containing_frame)
qed simp

lemma usable_frames_nth_list:
  assumes "\<forall>r \<in> set rs. region_ok r"
  shows "usable_frames_nth X p n rs =
    Inr (let fs = concat (map region_frames rs) in if n < length fs then Some (fs ! n * 4096) else None)"
  using assms
proof (induction rs arbitrary: n)
  case (Cons r rs)
  note IH = Cons.IH [unfolded Let_def]
  show ?case
  proof (cases "region_type r = Usable")
    case True
    let ?s = "start_frame_number (rng r)" and ?e = "end_frame_number (rng r)"
    have frames: "region_frames r = [?s ..< ?e]" using True by (simp add: region_frames_def)
    have ok: "?s \<le> ?e" "?e < frame_bound" using Cons.prems by (auto simp: region_ok_def)
    have "start_addr p (rng r) = Inr (?s * 4096)" "end_addr p (rng r) = Inr (?e * 4096)"
      using ok by (simp_all add: start_addr_def end_addr_def page_size_def u64_bound_def frame_bound_def)
    moreover have "advance_region X n (step_by_page (?s * 4096) (?e * 4096)) =
        Inr (if n < ?e - ?s then Found (([?s ..< ?e] ! n) * 4096) else Exhausted (n - (?e - ?s)))"
      using advance_region_frames [of "[?s ..< ?e]" n] ok by (simp add: step_by_page_frames)
    ultimately show ?thesis
      using True Cons.prems IH frames by (auto simp: nth_append Let_def)
  next
    case False
    then have "region_frames r = []" by (simp add: region_frames_def)
    with False show ?thesis using Cons.prems IH by (simp add: Let_def)
  qed
qed simp

lemma bfa_allocate_frame_nth:
  assumes "mm_wf (bfa_memory_map a)" and "Suc (bfa_next a) < u64_bound"
  shows "bfa_allocate_frame X p a =
    Inr (let fs = usable_list (bfa_memory_map a)
         in if bfa_next a < length fs then Some (fs ! bfa_next a * 4096) else None,
         a\<lparr>bfa_next := Suc (bfa_next a)\<rparr>)"
  using assms usable_frames_nth_list [OF mm_deref_ok [OF assms(1)], of p "bfa_next a"]
  by (simp add: bfa_allocate_frame_def usable_list_def)

lemma bfa_supplies:
  assumes "mm_wf (bfa_memory_map a)" and "bfa_next a + n \<le> length (usable_list (bfa_memory_map a))"
    and "bfa_next a + n < u64_bound"
  shows "supplies (bfa_allocate_frame X p) n a"
  using assms
proof (induction n arbitrary: a)
  case (Suc n)
  have "bfa_allocate_frame X p a =
      Inr (Some (usable_list (bfa_memory_map a) ! bfa_next a * 4096), a\<lparr>bfa_next := Suc (bfa_next a)\<rparr>)"
    using bfa_allocate_frame_nth [OF Suc.prems(1), of p] Suc.prems(2,3) by (simp add: Let_def)
  then show ?case using Suc.IH [of "a\<lparr>bfa_next := Suc (bfa_next a)\<rparr>"] Suc.prems by simp
qed simp

lemma bfa_drawn:
  assumes "mm_wf (bfa_memory_map a)" and "bfa_next a + length gs < u64_bound"
    and "drawn (bfa_allocate_frame X p) gs a a'"
  shows "gs = map (\<lambda>f. f * 4096) (take (length gs) (drop (bfa_next a) (usable_list (bfa_memory_map a))))"
  using assms
proof (induction gs arbitrary: a)
  case (Cons g gs)
  let ?fs = "usable_list (bfa_memory_map a)" and ?n = "bfa_next a"
  have al: "bfa_allocate_frame X p a =
      Inr (if ?n < length ?fs then Some (?fs ! ?n * 4096) else None, a\<lparr>bfa_next := Suc ?n\<rparr>)"
    using bfa_allocate_frame_nth [OF Cons.prems(1), of p] Cons.prems(2) by (simp add: Let_def)
  then have n: "?n < length ?fs" and g: "g = ?fs ! ?n * 4096"
    and dr: "drawn (bfa_allocate_frame X p) gs (a\<lparr>bfa_next := Suc ?n\<rparr>) a'"
    using Cons.prems(3) by (auto split: if_splits)
  have "gs = map (\<lambda>f. f * 4096) (take (length gs) (drop (Suc ?n) ?fs))"
    using Cons.IH [OF _ _ dr] Cons.prems(1,2) by simp
  moreover have "drop ?n ?fs = ?fs ! ?n # drop (Suc ?n) ?fs"
    using n by (rule Cons_nth_drop_Suc [symmetric])
  ultimately show ?case using g by simp
qed simp

end

subsection \<open>Mapping the heap's pages\<close>

context mapper
begin

lemma map_heap_pages_total:
  assumes "supplies alloc (4 * length pages) fa" and "distinct pages" and "\<forall>q \<in> set pages. mappable pt q"
  shows "\<exists>pt' fa' fs gs. map_heap_pages map_to alloc pages pt fa = Inr (Inr pages, pt', fa') \<and>
    drawn alloc gs fa fa' \<and> length gs \<le> 4 * length pages \<and> subseq fs gs \<and> length fs = length pages \<and>
    translate pt' = translate pt ++ map_of (zip pages (map (\<lambda>f. (f, {PRESENT, WRITABLE})) fs))"
  using assms
proof (induction pages arbitrary: pt fa)
  case Nil
  show ?case by (intro exI [of _ pt] exI [of _ fa] exI [of _ "[]"]) simp
next
  case (Cons page pages)
  let ?fl = "{PRESENT, WRITABLE}"
  have four: "4 * length (page # pages) = Suc (3 + 4 * length pages)" by simp
  obtain f fa1 where f: "alloc fa = Inr (Some f, fa1)" "supplies alloc (3 + 4 * length pages) fa1"
    using supplies_SucD [OF Cons.prems(1) [unfolded four]] by blast
  have "supplies alloc 3 fa1" using supplies_mono [OF f(2), of 3] by simp
  then obtain pt1 fa2 where m: "map_to alloc page f ?fl pt fa1 = Inr (Inr page, pt1, fa2)"
    using map_total Cons.prems(3) by fastforce
  obtain ts where ts: "length ts \<le> 3" "drawn alloc ts fa1 fa2" using map_ok_draws [OF m] by blast
  have "supplies alloc (length ts + 4 * length pages) fa1"
    using supplies_mono [OF f(2)] ts(1) by simp
  then have "supplies alloc (4 * length pages) fa2" by (rule supplies_drawn [OF _ ts(2)])
  moreover have "\<forall>q \<in> set pages. mappable pt1 q"
    using map_mappable [OF m] Cons.prems(2,3) by auto
  ultimately obtain pt' fa' fs gs where r: "map_heap_pages map_to alloc pages pt1 fa2 = Inr (Inr pages, pt', fa')"
    "drawn alloc gs fa2 fa'" "length gs \<le> 4 * length pages" "subseq fs gs" "length fs = length pages"
    "translate pt' = translate pt1 ++ map_of (zip pages (map (\<lambda>f. (f, ?fl)) fs))"
    using Cons.IH [of fa2 pt1] Cons.prems(2) by auto
  have "page \<notin> dom (map_of (zip pages (map (\<lambda>f. (f, ?fl)) fs)))"
    using Cons.prems(2) by (auto dest!: map_of_SomeD set_zip_leftD)
  then have "translate pt' = translate pt ++ map_of (zip (page # pages) (map (\<lambda>f. (f, ?fl)) (f # fs)))"
    unfolding r(6) map_ok [OF m] by (auto simp: fun_eq_iff map_add_def split: option.split)
  moreover have "drawn alloc (f # ts @ gs) fa fa'"
    using f(1) ts(2) r(2) by (auto simp: drawn_append)
  moreover have "subseq (f # fs) (f # ts @ gs)" using list_emb_append2 [OF r(4), of ts] by simp
  moreover have "length (f # ts @ gs) \<le> 4 * length (page # pages)" using ts(1) r(3) by simp
  moreover have "map_heap_pages map_to alloc (page # pages) pt fa = Inr (Inr (page # pages), pt', fa')"
    using f(1) m r(1) by simp
  ultimately show ?case using r(5) by (metis length_Cons)
qed

end

lemma heap_pages:
  "pages_inclusive HEAP_START (HEAP_START + HEAP_SIZE - 1) = map (\<lambda>i. HEAP_START + i * 4096) [0 ..< 256]"
proof -
  have "(HEAP_START + HEAP_SIZE - 1) div 4096 = HEAP_START div 4096 + 255"
    "HEAP_START = HEAP_START div 4096 * 4096"
    by (simp_all add: HEAP_START_def HEAP_SIZE_def)
  then have "pages_inclusive HEAP_START (HEAP_START + HEAP_SIZE - 1) =
      map (\<lambda>n. n * 4096) (map (\<lambda>i. i + HEAP_START div 4096) [0 ..< 256])"
    by (simp add: pages_inclusive_def map_add_upt add.commute del: map_map)
  moreover have "(i + HEAP_START div 4096) * 4096 = HEAP_START + i * 4096" for i
    by (simp add: HEAP_START_def)
  ultimately show ?thesis by simp
qed

lemma init_heap_mapped:
  assumes "x86_addresses X" and "mapper map_to translate mappable"
    and "mm_wf m" and "sole_usable m" and "1024 \<le> card (usable m)"
    and "\<forall>i < 256. mappable pt (HEAP_START + i * 4096)"
  shows "\<exists>pt' a' fs. init_heap map_to (bfa_allocate_frame X p) pt (bfa_init m) h =
      Inr (Inr (map (\<lambda>i. HEAP_START + i * 4096) [0 ..< 256]), pt', a', Some (HEAP_START, HEAP_SIZE)) \<and>
    length fs = 256 \<and> distinct fs \<and> set fs \<subseteq> usable m \<and>
    (\<forall>i < 256. translate pt' (HEAP_START + i * 4096) = Some (fs ! i * 4096, {PRESENT, WRITABLE})) \<and>
    (\<forall>q. (\<forall>i < 256. q \<noteq> HEAP_START + i * 4096) \<longrightarrow> translate pt' q = translate pt q)"
proof -
  let ?alloc = "bfa_allocate_frame X p" and ?us = "usable_list m"
  let ?pages = "map (\<lambda>i. HEAP_START + i * 4096) [0 ..< 256]"
  have "1024 \<le> length ?us"
    using assms(4,5) usable_list_distinct [of m] by (simp add: set_usable_list [symmetric] distinct_card)
  then have sup: "supplies ?alloc (4 * length ?pages) (bfa_init m)"
    using x86_addresses.bfa_supplies [OF assms(1), of "bfa_init m" 1024 p] assms(3)
    by (simp add: bfa_init_def u64_bound_def)
  have dis: "distinct ?pages" by (simp add: distinct_map inj_on_def)
  have "\<forall>q \<in> set ?pages. mappable pt q" using assms(6) by simp
  from mapper.map_heap_pages_total [OF assms(2) sup dis this]
  obtain pt' a' fs gs where r: "map_heap_pages map_to ?alloc ?pages pt (bfa_init m) = Inr (Inr ?pages, pt', a')"
    "drawn ?alloc gs (bfa_init m) a'" "length gs \<le> 1024" "subseq fs gs" "length fs = 256"
    "translate pt' = translate pt ++ map_of (zip ?pages (map (\<lambda>f. (f, {PRESENT, WRITABLE})) fs))" by auto
  have "gs = map (\<lambda>f. f * 4096) (take (length gs) ?us)"
    using x86_addresses.bfa_drawn [OF assms(1) _ _ r(2)] r(3) assms(3) by (simp add: bfa_init_def u64_bound_def)
  then obtain hs where hs: "gs = map (\<lambda>f. f * 4096) hs" "distinct hs" "set hs \<subseteq> usable m"
    using usable_list_distinct [OF assms(4)] set_usable_list [of m] set_take_subset [of "length gs" ?us] by fastforce
  define ks where "ks = map (\<lambda>a. a div 4096) fs"
  have fs: "set fs \<subseteq> (\<lambda>f. f * 4096) ` set hs" "distinct fs"
    using list_emb_set [OF r(4)] distinct_subseq [OF r(4)] hs(1,2) by (auto simp: distinct_map inj_on_def)
  then have ks: "fs = map (\<lambda>f. f * 4096) ks"
    by (force simp: ks_def intro!: map_idI [symmetric])
  have "distinct (map (\<lambda>f. f * 4096) ks)" using fs(2) by (simp only: ks [symmetric])
  then have d: "distinct ks" by (simp add: distinct_map)
  have u: "set ks \<subseteq> usable m"
    using fs(1) hs(3) unfolding ks_def by fastforce
  have zl: "length ?pages = length (map (\<lambda>f. (f, {PRESENT, WRITABLE})) fs)" using r(5) by simp
  have "map_of (zip ?pages (map (\<lambda>f. (f, {PRESENT, WRITABLE})) fs)) (?pages ! i) = Some (fs ! i, {PRESENT, WRITABLE})"
    if "i < 256" for i
    using map_of_zip_nth [OF zl dis, of i] that r(5) by simp
  then have tr: "\<forall>i < 256. translate pt' (HEAP_START + i * 4096) = Some (ks ! i * 4096, {PRESENT, WRITABLE})"
    using r(5) ks by (simp add: r(6))
  have other: "translate pt' q = translate pt q" if "\<forall>i < 256. q \<noteq> HEAP_START + i * 4096" for q
  proof -
    have "q \<notin> set ?pages" using that by auto
    then have "map_of (zip ?pages (map (\<lambda>f. (f, {PRESENT, WRITABLE})) fs)) q = None"
      using map_of_zip_is_None [OF zl] by simp
    then show ?thesis by (simp add: r(6) map_add_def)
  qed
  have "init_heap map_to ?alloc pt (bfa_init m) h =
      Inr (Inr ?pages, pt', a', Some (HEAP_START, HEAP_SIZE))"
    unfolding init_heap_def heap_pages using r(1) by simp
  then show ?thesis
    using d u r(5) ks tr other by (intro exI [of _ pt'] exI [of _ a'] exI [of _ ks]) simp
qed

subsection \<open>Properties\<close>

text \<open>
  C24: starting from the boot memory map, the kernel's frame allocator hands out the usable frames of
  the map one after the other, in the order of the map, and \<^verbatim>\<open>None\<close> once they are used up; when no
  two usable regions overlap no frame is handed out twice.
\<close>

theorem bfa_allocates_usable_in_order:
  assumes "x86_addresses X" and "mm_wf m" and "k < u64_bound"
  shows "run_steps (\<lambda>_ :: unit. bfa_allocate_frame X p) (replicate k ()) (bfa_init m) =
      Inr (map (\<lambda>i. if i < length (usable_list m) then Some (usable_list m ! i * 4096) else None) [0 ..< k],
           \<lparr>bfa_memory_map = m, bfa_next = k\<rparr>) \<and>
    set (usable_list m) = usable m \<and> (sole_usable m \<longrightarrow> distinct (usable_list m))"
proof -
  have "run_steps (\<lambda>_ :: unit. bfa_allocate_frame X p) (replicate j ()) \<lparr>bfa_memory_map = m, bfa_next = n\<rparr> =
      Inr (map (\<lambda>i. if i < length (usable_list m) then Some (usable_list m ! i * 4096) else None) [n ..< n + j],
           \<lparr>bfa_memory_map = m, bfa_next = n + j\<rparr>)" if "n + j < u64_bound" for n j
    using that
  proof (induction j arbitrary: n)
    case (Suc j)
    have "bfa_allocate_frame X p \<lparr>bfa_memory_map = m, bfa_next = n\<rparr> =
        Inr (if n < length (usable_list m) then Some (usable_list m ! n * 4096) else None,
             \<lparr>bfa_memory_map = m, bfa_next = Suc n\<rparr>)"
      using x86_addresses.bfa_allocate_frame_nth [OF assms(1), of "\<lparr>bfa_memory_map = m, bfa_next = n\<rparr>" p]
        assms(2) Suc.prems by (simp add: Let_def)
    moreover have "[n ..< n + Suc j] = n # [Suc n ..< Suc n + j]"
      by (simp add: upt_conv_Cons del: upt_Suc)
    ultimately show ?case using Suc.IH [of "Suc n"] Suc.prems by (simp del: upt_Suc)
  qed simp
  from this [of 0 k] show ?thesis
    using assms(3) set_usable_list [of m] usable_list_distinct [of m] by (simp add: bfa_init_def)
qed

theorem bfa_allocates_usable_in_order_witness:
  "x86_addresses x86_documented \<and> mm_wf small_map \<and>
   (\<exists>os a. run_steps (\<lambda>_ :: unit. bfa_allocate_frame x86_documented Debug) (replicate 2 ()) (bfa_init small_map) =
      Inr (os, a) \<and> os = [Some 0, Some 4096])"
proof -
  have l: "usable_list small_map = [0 ..< 159] @ [256 ..< 32736]"
    by (simp add: usable_list_def small_map_deref region_frames_def del: upt_rec_numeral)
  have "run_steps (\<lambda>_ :: unit. bfa_allocate_frame x86_documented Debug) (replicate 2 ()) (bfa_init small_map) =
      Inr (map (\<lambda>i. if i < length (usable_list small_map) then Some (usable_list small_map ! i * 4096) else None) [0 ..< 2],
           \<lparr>bfa_memory_map = small_map, bfa_next = 2\<rparr>)"
    using bfa_allocates_usable_in_order [OF xd.x86_addresses_axioms small_map_wf, of 2 Debug]
    by (simp add: u64_bound_def)
  moreover have "map (\<lambda>i. if i < length (usable_list small_map) then Some (usable_list small_map ! i * 4096) else None) [0 ..< 2]
      = [Some 0, Some 4096]"
    unfolding l by (simp add: nth_append upt_rec [of 0 2] upt_rec [of "Suc 0" 2] del: upt_rec_numeral)
  ultimately show ?thesis using xd.x86_addresses_axioms small_map_wf by simp
qed

text \<open>
  C14: given a well-formed boot map without overlapping usable regions and with at least 1024 usable
  frames (one per heap page and three for page tables each), and heap pages that are not mapped yet,
  \<^verbatim>\<open>init_heap\<close> succeeds: each of the 256 pages from \<^verbatim>\<open>HEAP_START\<close> on is mapped writable to a usable
  frame of its own and flushed, no other page changes, and the heap gets exactly that range.
\<close>

theorem init_heap_maps_heap:
  assumes "x86_addresses X" and "mapper map_to translate mappable"
    and "mm_wf m" and "sole_usable m" and "1024 \<le> card (usable m)"
    and "\<forall>i < 256. mappable pt (HEAP_START + i * 4096)"
  shows "\<exists>pt' a' fs. init_heap map_to (bfa_allocate_frame X p) pt (bfa_init m) h =
      Inr (Inr (map (\<lambda>i. HEAP_START + i * 4096) [0 ..< 256]), pt', a', Some (HEAP_START, HEAP_SIZE)) \<and>
    length fs = 256 \<and> distinct fs \<and> set fs \<subseteq> usable m \<and>
    (\<forall>i < 256. translate pt' (HEAP_START + i * 4096) = Some (fs ! i * 4096, {PRESENT, WRITABLE})) \<and>
    (\<forall>q. (\<forall>i < 256. q \<noteq> HEAP_START + i * 4096) \<longrightarrow> translate pt' q = translate pt q)"
  using init_heap_mapped [OF assms] .

theorem init_heap_maps_heap_witness:
  "mapper four_level_map_to leaves (\<lambda>pt page. leaves pt page = None) \<and> mm_wf small_map \<and> sole_usable small_map \<and>
   (\<exists>pt' a' fs. init_heap four_level_map_to (bfa_allocate_frame x86_documented Debug)
        \<lparr>tables = {}, leaves = Map.empty\<rparr> (bfa_init small_map) None =
      Inr (Inr (map (\<lambda>i. HEAP_START + i * 4096) [0 ..< 256]), pt', a', Some (HEAP_START, HEAP_SIZE)) \<and>
      length fs = 256 \<and> distinct fs \<and> set fs \<subseteq> usable small_map)"
proof -
  have "usable small_map = {0 ..< 159} \<union> {256 ..< 32736}"
    by (auto simp: usable_def small_map_owners split: if_splits)
  then have "1024 \<le> card (usable small_map)"
    using card_mono [of "usable small_map" "{256 ..< 32736}"] by simp
  then show ?thesis
    using init_heap_maps_heap [OF xd.x86_addresses_axioms fl.mapper_axioms small_map_wf small_map_sole,
        of "\<lparr>tables = {}, leaves = Map.empty\<rparr>" Debug None]
      fl.mapper_axioms small_map_wf small_map_sole by auto
qed

end
