(* ===== verification/BootInfoMap.thy ===== *)
theory BootInfoMap
  imports FrameAlloc
begin

text \<open>
  Building the memory map from the BIOS's E820 table (\<^verbatim>\<open>bootloader/src/boot_info.rs\<close>) and the
  boot information handed to the kernel (\<^verbatim>\<open>bootloader/src/bootinfo/mod.rs\<close>). The table is the
  list of its entries; reading it from memory is left out.
\<close>

subsection \<open>Creating the map\<close>

fun add_regions ::
  "memory_region sort_by \<Rightarrow> profile \<Rightarrow> e820_memory_region list \<Rightarrow> memory_map \<Rightarrow> memory_map rust" where
  "add_regions srt p [] m = Inr m"
| "add_regions srt p (e # es) m =
     bind_rust (region_from_e820 p e) (\<lambda>r.
       bind_rust (add_region srt p r m) (add_regions srt p es))"

fun trim_usable :: "memory_region list \<Rightarrow> memory_region list" where
  "trim_usable [] = []"
| "trim_usable [region] = [region]"
| "trim_usable (region # nxt # rest) =
     (if end_frame_number (rng region) > start_frame_number (rng nxt) \<and> region_type region = Usable
      then set_end (start_frame_number (rng nxt)) region
      else region) # trim_usable (nxt # rest)"

definition create_from ::
  "memory_region sort_by \<Rightarrow> profile \<Rightarrow> e820_memory_region list \<Rightarrow> memory_map rust" where
  "create_from srt p es =
     bind_rust (add_regions srt p es memory_map_new) (\<lambda>m.
       let m' = mm_sort srt m in Inr (mm_write m' (trim_usable (mm_deref m'))))"

subsection \<open>Boot information\<close>

record tls_template =
  tls_start_addr :: u64
  tls_file_size :: u64
  tls_mem_size :: u64

record features =
  recursive_page_table :: bool
  map_physical_memory :: bool

text \<open>A field under \<^verbatim>\<open>#[cfg(feature = ...)]\<close> is an option: absent without the feature.\<close>

record boot_info =
  bi_memory_map :: memory_map
  bi_recursive_page_table_addr :: "u64 option"
  bi_physical_memory_offset :: "u64 option"
  bi_tls_template :: tls_template
  bi_non_exhaustive :: nat

definition boot_info_new ::
  "features \<Rightarrow> memory_map \<Rightarrow> tls_template option \<Rightarrow> u64 \<Rightarrow> u64 \<Rightarrow> boot_info" where
  "boot_info_new fs m tls recursive_page_table_addr physical_memory_offset =
     \<lparr>bi_memory_map = m,
      bi_recursive_page_table_addr =
        (if recursive_page_table fs then Some recursive_page_table_addr else None),
      bi_physical_memory_offset =
        (if map_physical_memory fs then Some physical_memory_offset else None),
      bi_tls_template =
        (case tls of
           None \<Rightarrow> \<lparr>tls_start_addr = 0, tls_file_size = 0, tls_mem_size = 0\<rparr>
         | Some t \<Rightarrow> t),
      bi_non_exhaustive = 0\<rparr>"

definition boot_info_tls_template :: "boot_info \<Rightarrow> tls_template option" where
  "boot_info_tls_template b =
     (if tls_mem_size (bi_tls_template b) > 0 then Some (bi_tls_template b) else None)"

text \<open>\<^verbatim>\<open>(addr >> 12) & 0x1FF\<close>; the method exists only with the feature.\<close>

definition recursive_index :: "boot_info \<Rightarrow> u64 option" where
  "recursive_index b = map_option (\<lambda>addr. addr div 2 ^ 12 mod 512) (bi_recursive_page_table_addr b)"

subsection \<open>Entries of the table\<close>

text \<open>What a valid entry stands for: every frame it has a byte in, with the type of its number.\<close>

definition e820_region :: "e820_memory_region \<Rightarrow> memory_region" where
  "e820_region e =
     \<lparr>rng = \<lparr>start_frame_number = e820_start_addr e div 4096,
             end_frame_number = (e820_start_addr e + e820_len e - 1) div 4096 + 1\<rparr>,
      region_type =
        (if e820_region_type e = 1 then Usable else if e820_region_type e = 2 then Reserved
         else if e820_region_type e = 3 then AcpiReclaimable else if e820_region_type e = 4 then AcpiNvs
         else BadMemory)\<rparr>"

definition e820_ok :: "e820_memory_region \<Rightarrow> bool" where
  "e820_ok e \<longleftrightarrow> 0 < e820_len e \<and> e820_start_addr e + e820_len e + 4096 \<le> phys_bound \<and>
     1 \<le> e820_region_type e \<and> e820_region_type e \<le> 5"

lemma region_from_e820_ok:
  assumes "e820_ok e"
  shows "region_from_e820 p e = Inr (e820_region e)" and "region_ok (e820_region e)"
    and "\<not> is_empty (rng (e820_region e))"
proof -
  let ?s = "e820_start_addr e" and ?n = "e820_len e" and ?t = "e820_region_type e"
  let ?e = "(?s + ?n - 1) div 4096 + 1"
  have b: "0 < ?n" "?s + ?n + 4096 \<le> phys_bound" using assms by (auto simp: e820_ok_def)
  have e: "?e < frame_bound" "?s div 4096 < ?e"
    using b div_le_mono [of ?s "?s + ?n - 1" 4096] by (simp_all add: phys_bound_def frame_bound_def)
  have "?t \<in> {1, 2, 3, 4, 5}" using assms by (auto simp: e820_ok_def)
  then have "e820_type ?t = Inr (region_type (e820_region e))"
    by (auto simp: e820_type_def e820_region_def)
  then show "region_from_e820 p e = Inr (e820_region e)"
    using b e
    by (simp add: region_from_e820_def frame_range_new_def page_size_def phys_bound_def u64_bound_def
        frame_bound_def, simp add: e820_region_def)
  show "region_ok (e820_region e)" "\<not> is_empty (rng (e820_region e))"
    using e by (simp_all add: region_ok_def is_empty_def e820_region_def)
qed

subsection \<open>Trimming\<close>

lemma length_trim [simp]: "length (trim_usable rs) = length rs"
  by (induction rs rule: trim_usable.induct) auto

lemma trim_starts:
  "q \<in> set (trim_usable rs) \<Longrightarrow> \<exists>r \<in> set rs. start_frame_number (rng q) = start_frame_number (rng r)"
  by (induction rs rule: trim_usable.induct) (auto split: if_splits)

lemma region_before_start: "region_before a b \<Longrightarrow> start_frame_number (rng a) \<le> start_frame_number (rng b)"
  by (auto simp: region_before_def)

lemma trim_head:
  assumes "sorted_wrt region_before (r # n # rs)"
  shows "trim_usable (r # n # rs) =
      (if region_type r = Usable
       then set_end (min (end_frame_number (rng r)) (start_frame_number (rng n))) r else r) # trim_usable (n # rs)"
  by (auto simp: set_end_def min_def)

lemma trim_ok:
  assumes "sorted_wrt region_before rs" and "\<forall>r \<in> set rs. region_ok r"
  shows "\<forall>r \<in> set (trim_usable rs). region_ok r"
  using assms
proof (induction rs rule: induct_list012)
  case (3 r n rs)
  have "start_frame_number (rng r) \<le> start_frame_number (rng n)"
    using "3.prems"(1) by (simp add: region_before_start)
  then have "region_ok (set_end (min (end_frame_number (rng r)) (start_frame_number (rng n))) r)"
    using "3.prems"(2) by (auto simp: region_ok_def)
  moreover have "\<forall>r \<in> set (trim_usable (n # rs)). region_ok r"
    using "3.IH"(2) "3.prems" by simp
  ultimately show ?case
    using "3.prems"(2) unfolding trim_head [OF "3.prems"(1)] by simp
qed simp_all

lemma trim_other: "t \<noteq> Usable \<Longrightarrow> count (types_at f (trim_usable rs)) t = count (types_at f rs) t"
  by (induction rs rule: trim_usable.induct) (auto simp: type_at_def)

text \<open>A usable region holds the frame and every later region starts behind it.\<close>

fun usable_last :: "u64 \<Rightarrow> memory_region list \<Rightarrow> bool" where
  "usable_last f [] \<longleftrightarrow> False"
| "usable_last f (r # rs) \<longleftrightarrow>
     region_type r = Usable \<and> holds r f \<and> (\<forall>q \<in> set rs. f < start_frame_number (rng q)) \<or> usable_last f rs"

lemma usable_last_region:
  "usable_last f rs \<Longrightarrow> \<exists>r \<in> set rs. region_type r = Usable \<and> holds r f"
  by (induction rs) auto

lemma usable_lastI:
  assumes "r \<in> set rs" and "region_type r = Usable" and "holds r f" and "sorted_wrt region_before rs"
    and "\<forall>q \<in> set rs. q \<noteq> r \<longrightarrow> start_frame_number (rng q) < start_frame_number (rng r) \<or> f < start_frame_number (rng q)"
  shows "usable_last f rs"
  using assms
proof (induction rs)
  case (Cons x rs)
  show ?case
  proof (cases "r \<in> set rs")
    case True
    then show ?thesis using Cons by simp
  next
    case False
    then have [simp]: "x = r" using Cons.prems(1) by simp
    have "f < start_frame_number (rng q)" if "q \<in> set rs" for q
    proof -
      have "start_frame_number (rng r) \<le> start_frame_number (rng q)"
        using Cons.prems(4) that by (auto dest: region_before_start)
      moreover have "q \<noteq> r" using False that by blast
      ultimately show ?thesis using Cons.prems(5) that by force
    qed
    then show ?thesis using Cons.prems(2,3) by simp
  qed
qed simp

lemma starts_behind:
  assumes "sorted_wrt region_before (n # rs)"
  shows "(\<forall>q \<in> set (n # rs). f < start_frame_number (rng q)) \<longleftrightarrow> f < start_frame_number (rng n)"
  using assms by (fastforce dest: region_before_start)

lemma trim_usable_iff:
  assumes "sorted_wrt region_before rs"
  shows "Usable \<in># types_at f (trim_usable rs) \<longleftrightarrow> usable_last f rs"
  using assms
proof (induction rs rule: induct_list012)
  case (3 r n rs)
  have "Usable \<in># types_at f (trim_usable (r # n # rs)) \<longleftrightarrow>
      region_type r = Usable \<and> holds r f \<and> f < start_frame_number (rng n) \<or>
      Usable \<in># types_at f (trim_usable (n # rs))"
    unfolding trim_head [OF "3.prems"] by (auto simp: type_at_def holds_def)
  moreover have srt: "sorted_wrt region_before (n # rs)" using "3.prems" by simp
  ultimately show ?case
    unfolding usable_last.simps(2) [of f r] starts_behind [OF srt, of f] "3.IH"(2) [OF srt] by blast
qed (auto simp: type_at_def)

lemma trim_sole:
  assumes "sorted_wrt region_before rs"
  shows "count (types_at f (trim_usable rs)) Usable \<le> 1"
  using assms
proof (induction rs rule: induct_list012)
  case (3 r n rs)
  let ?r = "hd (trim_usable (r # n # rs))"
  show ?case
  proof (cases "region_type r = Usable \<and> holds r f \<and> f < start_frame_number (rng n)")
    case True
    have "f < start_frame_number (rng q)" if "q \<in> set (n # rs)" for q
      using that True "3.prems" starts_behind [of n rs f] by auto
    then have "filter (\<lambda>r. holds r f) (trim_usable (n # rs)) = []"
      using trim_starts [of _ "n # rs"] by (fastforce simp: filter_empty_conv holds_def)
    then have "types_at f (trim_usable (n # rs)) = {#}"
      by (simp add: types_at_def)
    then show ?thesis by (simp add: type_at_def)
  next
    case False
    then have "count (type_at f ?r) Usable = 0"
      unfolding trim_head [OF "3.prems"] by (auto simp: type_at_def holds_def)
    then show ?thesis
      using "3.IH"(2) "3.prems" unfolding trim_head [OF "3.prems"] by simp
  qed
qed (simp_all add: type_at_def)

lemma trim_disjoint:
  assumes "sorted_wrt region_before rs" and "\<forall>r \<in> set rs. region_ok r \<and> \<not> is_empty (rng r)"
    and "\<And>f. size (types_at f rs) \<le> 1"
  shows "trim_usable rs = rs"
  using assms
proof (induction rs rule: induct_list012)
  case (3 r n rs)
  have "end_frame_number (rng r) \<le> start_frame_number (rng n)"
  proof (rule ccontr)
    assume "\<not> end_frame_number (rng r) \<le> start_frame_number (rng n)"
    then have "holds r (start_frame_number (rng n))" "holds n (start_frame_number (rng n))"
      using "3.prems"(1,2) by (auto simp: holds_def region_ok_def is_empty_def dest: region_before_start)
    then show False
      using "3.prems"(3) [of "start_frame_number (rng n)"] by (simp add: type_at_def)
  qed
  moreover have "size (types_at f (n # rs)) \<le> 1" for f
    using "3.prems"(3) [of f] by simp
  ultimately show ?case using "3.IH"(2) "3.prems"(1,2) by simp
qed simp_all

subsection \<open>The map of a table\<close>

text \<open>The regions of a map that are not empty, whatever slot they are in.\<close>

definition live :: "memory_map \<Rightarrow> memory_region multiset" where
  "live m = filter_mset (\<lambda>r. \<not> is_empty (rng r)) (mset (entries m))"

lemma live_deref:
  assumes "mm_wf m" and "\<forall>r \<in> set (mm_deref m). \<not> is_empty (rng r)"
  shows "mset (mm_deref m) = live m"
proof -
  have "filter (\<lambda>r. \<not> is_empty (rng r)) (drop (next_entry_index m) (entries m)) = []"
    using assms(1) by (auto simp: mm_wf_def filter_empty_conv)
  moreover have "filter (\<lambda>r. \<not> is_empty (rng r)) (mm_deref m) = mm_deref m"
    using assms(2) by (simp add: filter_id_conv)
  moreover have "entries m = mm_deref m @ drop (next_entry_index m) (entries m)"
    by (simp add: mm_deref_def)
  ultimately have "filter (\<lambda>r. \<not> is_empty (rng r)) (entries m) = mm_deref m"
    by (metis append.right_neutral filter_append)
  then show ?thesis by (metis live_def mset_filter)
qed

context region_sort
begin

lemma live_sort: "live (mm_sort srt m) = live m"
  by (simp add: live_def mm_sort_def Let_def srt_mset split: option.split)

lemma live_add_region:
  assumes "mm_wf m" and "add_region srt p r m = Inr m'" and "\<not> is_empty (rng r)"
  shows "live m' = live m + {#r#}"
proof -
  let ?n = "next_entry_index m"
  have n: "?n < length (entries m)"
    using assms(1,2) by (auto simp: add_region_def mm_wf_def split: if_splits)
  then have "entries m ! ?n \<in> set (drop ?n (entries m))"
    by (metis Cons_nth_drop_Suc list.set_intros(1))
  then have e: "is_empty (rng (entries m ! ?n))" using assms(1) by (simp add: mm_wf_def)
  obtain k where "m' = mm_sort srt \<lparr>entries = (entries m)[?n := r], next_entry_index = k\<rparr>"
    using assms(2) by (auto simp: add_region_def bind_rust_eq_Inr split: if_splits)
  then have "live m' = filter_mset (\<lambda>r. \<not> is_empty (rng r)) (mset ((entries m)[?n := r]))"
    by (simp add: live_sort) (simp add: live_def)
  then show ?thesis using n e assms(3) by (simp add: mset_update live_def)
qed

lemma add_regions_correct:
  assumes "mm_wf m" and "\<forall>e \<in> set es. e820_ok e" and "next_entry_index m + length es \<le> max_memory_map_size"
  shows "\<exists>m'. add_regions srt p es m = Inr m' \<and> mm_wf m' \<and>
    (\<forall>f. owners m' f = owners m f + types_at f (map e820_region es)) \<and>
    live m' = live m + mset (map e820_region es)"
  using assms
proof (induction es arbitrary: m)
  case (Cons e es)
  have e: "region_from_e820 p e = Inr (e820_region e)" "region_ok (e820_region e)"
    using region_from_e820_ok Cons.prems(2) by simp_all
  have "next_entry_index m < max_memory_map_size" using Cons.prems(3) by simp
  then obtain m1 where m1: "add_region srt p (e820_region e) m = Inr m1" "mm_wf m1"
    "\<And>f. owners m1 f = owners m f + type_at f (e820_region e)" "next_entry_index m1 \<le> next_entry_index m + 1"
    using add_region_correct [OF Cons.prems(1) e(2), of p] by metis
  have "next_entry_index m1 + length es \<le> max_memory_map_size"
    using m1(4) Cons.prems(3) by simp
  then obtain m' where "add_regions srt p es m1 = Inr m'" "mm_wf m'"
    "\<forall>f. owners m' f = owners m1 f + types_at f (map e820_region es)"
    "live m' = live m1 + mset (map e820_region es)"
    using Cons.IH [OF m1(2)] Cons.prems(2) by auto
  moreover have "live m1 = live m + {#e820_region e#}"
    using live_add_region [OF Cons.prems(1) m1(1)] region_from_e820_ok(3) Cons.prems(2) by simp
  ultimately show ?case by (simp add: e(1) m1(1,3) add.assoc)
qed simp

lemma create_from_result:
  assumes "\<forall>e \<in> set es. e820_ok e" and "length es \<le> max_memory_map_size"
  obtains m rs where "create_from srt p es = Inr m" and "mm_wf m" and "mm_deref m = trim_usable rs"
    and "sorted_wrt region_before rs" and "\<forall>r \<in> set rs. region_ok r \<and> \<not> is_empty (rng r)"
    and "\<forall>f. types_at f rs = types_at f (map e820_region es)"
    and "mset rs = mset (map e820_region es)"
proof -
  have new: "next_entry_index memory_map_new = 0" "\<And>f. owners memory_map_new f = {#}"
    "live memory_map_new = {#}"
    by (simp_all add: memory_map_new_def owners_def mm_deref_def live_def region_empty_def is_empty_def)
  then obtain m1 where m1: "add_regions srt p es memory_map_new = Inr m1" "mm_wf m1"
    "\<forall>f. owners m1 f = types_at f (map e820_region es)" "live m1 = mset (map e820_region es)"
    using add_regions_correct [OF mm_wf_new assms(1), of p] assms(2) by auto
  define rs where "rs = mm_deref (mm_sort srt m1)"
  note s = mm_sort_correct [OF m1(2)]
  have ok: "\<forall>r \<in> set rs. region_ok r" using mm_deref_ok [OF s(1)] by (simp add: rs_def)
  have srt: "sorted_wrt region_before rs" using s(3) by (simp add: rs_def)
  have len: "length (trim_usable rs) = length (mm_deref (mm_sort srt m1))" by (simp add: rs_def)
  note w = mm_write_correct [OF s(1) len trim_ok [OF srt ok]]
  have "create_from srt p es = Inr (mm_write (mm_sort srt m1) (trim_usable rs))"
    by (simp add: create_from_def m1(1) Let_def rs_def)
  moreover have "\<forall>f. types_at f rs = types_at f (map e820_region es)"
    using s(2) m1(3) by (simp add: owners_def rs_def)
  moreover have "mset rs = mset (map e820_region es)"
    using live_deref [OF s(1,4)] by (simp add: rs_def live_sort m1(4))
  ultimately show ?thesis
    using that w(1,2) srt ok s(4) unfolding rs_def by blast
qed

end

subsection \<open>Properties\<close>

text \<open>
  C13: on a table of at most 64 valid entries \<^verbatim>\<open>create_from\<close> never panics; the map is well formed, no
  two usable regions of it overlap, every frame it calls usable lies in a usable entry of the
  table, and every frame keeps its owners of all other types.
\<close>

theorem create_from_sole_usable:
  assumes "region_sort srt" and "\<forall>e \<in> set es. e820_ok e" and "length es \<le> max_memory_map_size"
  shows "\<exists>m. create_from srt p es = Inr m \<and> mm_wf m \<and> sole_usable m \<and>
    (\<forall>f \<in> usable m. \<exists>e \<in> set es. e820_region_type e = 1 \<and> holds (e820_region e) f) \<and>
    (\<forall>f t. t \<noteq> Usable \<longrightarrow> count (owners m f) t = count (types_at f (map e820_region es)) t)"
proof (rule region_sort.create_from_result [OF assms, of p])
  fix m rs
  assume m: "create_from srt p es = Inr m" "mm_wf m" "mm_deref m = trim_usable rs"
    "sorted_wrt region_before rs" "\<forall>f. types_at f rs = types_at f (map e820_region es)"
    "mset rs = mset (map e820_region es)"
  have "sole_usable m"
    using trim_sole [OF m(4)] by (simp add: sole_usable_def owners_def m(3))
  moreover have "\<exists>e \<in> set es. e820_region_type e = 1 \<and> holds (e820_region e) f" if "f \<in> usable m" for f
  proof -
    have "usable_last f rs"
      using that trim_usable_iff [OF m(4)] by (simp add: usable_def owners_def m(3))
    then obtain e where "e \<in> set es" "region_type (e820_region e) = Usable" "holds (e820_region e) f"
      using usable_last_region mset_eq_setD [OF m(6)] by fastforce
    then show ?thesis by (auto simp: e820_region_def split: if_splits)
  qed
  moreover have "count (owners m f) t = count (types_at f (map e820_region es)) t" if "t \<noteq> Usable" for f t
    using trim_other [OF that] m(5) by (simp add: owners_def m(3))
  ultimately show ?thesis using m(1,2) by blast
qed

text \<open>
  C32: when no two entries of the table share a frame, the map owns exactly what the table says, frame
  by frame.
\<close>

theorem create_from_disjoint_exact:
  assumes "region_sort srt" and "\<forall>e \<in> set es. e820_ok e" and "length es \<le> max_memory_map_size"
    and "\<forall>f. size (types_at f (map e820_region es)) \<le> 1"
  shows "\<exists>m. create_from srt p es = Inr m \<and> (\<forall>f. owners m f = types_at f (map e820_region es))"
proof (rule region_sort.create_from_result [OF assms(1-3), of p])
  fix m rs
  assume m: "create_from srt p es = Inr m" "mm_deref m = trim_usable rs"
    "sorted_wrt region_before rs" "\<forall>r \<in> set rs. region_ok r \<and> \<not> is_empty (rng r)"
    "\<forall>f. types_at f rs = types_at f (map e820_region es)"
  have "trim_usable rs = rs"
    using trim_disjoint [OF m(3,4)] m(5) assms(4) by simp
  then show ?thesis using m(1,5) by (simp add: owners_def m(2))
qed

text \<open>
  A frame of a usable entry stays usable when every other entry starts before that entry or
  behind the frame. An earlier entry of another type that also holds the frame does not prevent it:
  a frame shared by a reserved entry and a usable one that starts later is handed out as usable.
\<close>

lemma create_from_keeps_usable:
  assumes "region_sort srt" and "\<forall>e \<in> set es. e820_ok e" and "length es \<le> max_memory_map_size"
    and "e \<in> set es" and "e820_region_type e = 1" and "holds (e820_region e) f"
    and "\<forall>e' \<in> set es. e820_region e' \<noteq> e820_region e \<longrightarrow>
      start_frame_number (rng (e820_region e')) < start_frame_number (rng (e820_region e)) \<or>
      f < start_frame_number (rng (e820_region e'))"
  shows "\<exists>m. create_from srt p es = Inr m \<and> f \<in> usable m"
proof (rule region_sort.create_from_result [OF assms(1-3), of p])
  fix m rs
  assume m: "create_from srt p es = Inr m" "mm_deref m = trim_usable rs"
    "sorted_wrt region_before rs" "mset rs = mset (map e820_region es)"
  have set: "set rs = e820_region ` set es" using mset_eq_setD [OF m(4)] by simp
  have "usable_last f rs"
  proof (rule usable_lastI [where r = "e820_region e"])
    show "region_type (e820_region e) = Usable" using assms(5) by (simp add: e820_region_def)
  qed (use assms(4,6,7) m(3) set in auto)
  then show ?thesis
    using trim_usable_iff [OF m(3)] m(1) by (simp add: usable_def owners_def m(2))
qed

text \<open>
  A table whose reserved entry ends inside frame 1, where the usable one begins, and the table of a
  small PC.
\<close>

definition shared_frame_table :: "e820_memory_region list" where
  "shared_frame_table =
     [\<lparr>e820_start_addr = 0, e820_len = 6144, e820_region_type = 2, e820_acpi_extended_attributes = 0\<rparr>,
      \<lparr>e820_start_addr = 6144, e820_len = 59392, e820_region_type = 1, e820_acpi_extended_attributes = 0\<rparr>]"

definition pc_table :: "e820_memory_region list" where
  "pc_table =
     [\<lparr>e820_start_addr = 0, e820_len = 655360, e820_region_type = 1, e820_acpi_extended_attributes = 1\<rparr>,
      \<lparr>e820_start_addr = 983040, e820_len = 65536, e820_region_type = 2, e820_acpi_extended_attributes = 1\<rparr>,
      \<lparr>e820_start_addr = 1048576, e820_len = 133038080, e820_region_type = 1, e820_acpi_extended_attributes = 1\<rparr>]"

lemma tables_ok:
  "\<forall>e \<in> set shared_frame_table. e820_ok e" "length shared_frame_table \<le> max_memory_map_size"
  "\<forall>e \<in> set pc_table. e820_ok e" "length pc_table \<le> max_memory_map_size"
  by (simp_all add: shared_frame_table_def pc_table_def e820_ok_def phys_bound_def max_memory_map_size_def)

theorem create_from_sole_usable_witness:
  "region_sort insertion_sort_by \<and> list_all e820_ok shared_frame_table \<and>
   (\<exists>m. create_from insertion_sort_by Debug shared_frame_table = Inr m \<and> mm_wf m \<and> sole_usable m \<and>
      count (owners m 1) Reserved = 1)"
proof -
  have "count (types_at 1 (map e820_region shared_frame_table)) Reserved = 1"
    by (simp add: shared_frame_table_def e820_region_def type_at_def holds_def)
  then show ?thesis
    using create_from_sole_usable [OF inss.region_sort_axioms tables_ok(1,2), of Debug]
      inss.region_sort_axioms tables_ok(1) by (fastforce simp: list_all_iff)
qed

theorem create_from_disjoint_exact_witness:
  "region_sort insertion_sort_by \<and> list_all e820_ok pc_table \<and>
   (\<forall>f. size (types_at f (map e820_region pc_table)) \<le> 1) \<and>
   (\<exists>m. create_from insertion_sort_by Release pc_table = Inr m \<and> owners m 256 = {#Usable#} \<and> owners m 160 = {#})"
proof -
  have d: "\<forall>f. size (types_at f (map e820_region pc_table)) \<le> 1"
    by (simp add: pc_table_def e820_region_def type_at_def holds_def)
  have "types_at 256 (map e820_region pc_table) = {#Usable#}" "types_at 160 (map e820_region pc_table) = {#}"
    by (simp_all add: pc_table_def e820_region_def type_at_def holds_def)
  then show ?thesis
    using create_from_disjoint_exact [OF inss.region_sort_axioms tables_ok(3,4) d, of Release]
      d inss.region_sort_axioms tables_ok(3) by (auto simp: list_all_iff)
qed

lemma create_from_keeps_usable_witness:
  "region_sort insertion_sort_by \<and> list_all e820_ok shared_frame_table \<and>
   holds (e820_region (shared_frame_table ! 0)) 1 \<and>
   (\<exists>m. create_from insertion_sort_by Release shared_frame_table = Inr m \<and> 1 \<in> usable m)"
proof -
  let ?e = "shared_frame_table ! 1"
  have "?e \<in> set shared_frame_table" "e820_region_type ?e = 1" "holds (e820_region ?e) 1"
    "\<forall>e' \<in> set shared_frame_table. e820_region e' \<noteq> e820_region ?e \<longrightarrow>
      start_frame_number (rng (e820_region e')) < start_frame_number (rng (e820_region ?e)) \<or>
      1 < start_frame_number (rng (e820_region e'))"
    by (simp_all add: shared_frame_table_def e820_region_def holds_def)
  from create_from_keeps_usable [OF inss.region_sort_axioms tables_ok(1,2) this, of Release]
  show ?thesis
    using inss.region_sort_axioms tables_ok(1)
    by (simp add: list_all_iff) (simp add: shared_frame_table_def e820_region_def holds_def)
qed

text \<open>
  The kernel reads back from the boot information the TLS template it was built with, unless the
  template has no memory, which reads as absent like a missing one.
\<close>

lemma boot_info_tls_roundtrip:
  "boot_info_tls_template (boot_info_new fs m tls r o') =
     (case tls of None \<Rightarrow> None | Some t \<Rightarrow> if tls_mem_size t = 0 then None else Some t)"
  by (simp add: boot_info_tls_template_def boot_info_new_def split: option.split)

end
