(* ===== verification/VgaBuffer.thy ===== *)
theory VgaBuffer
  imports Prelude "HOL-Library.Word"
begin

text \<open>
  The text-mode screen of \<^verbatim>\<open>src/vga_buffer.rs\<close>: the buffer at \<^verbatim>\<open>0xb8000\<close> as 25 rows of 80 cells,
  the writer that appends to the bottom row and scrolls. A byte is a \<open>char\<close>.

  The abstract terminal keeps every row that ever scrolled up; the screen is its last 25 rows. The
  refinement is the function \<open>screen\<close>.
\<close>

unbundle bit_operations_syntax

subsection \<open>Colours and cells\<close>

datatype color =
    Black | Blue | Green | Cyan | Red | Magenta | Brown | LightGray
  | DarkGray | LightBlue | LightGreen | LightCyan | LightRed | Pink | Yellow | White

definition color_u8 :: "color \<Rightarrow> 8 word" where
  "color_u8 c =
     (case c of Black \<Rightarrow> 0 | Blue \<Rightarrow> 1 | Green \<Rightarrow> 2 | Cyan \<Rightarrow> 3 | Red \<Rightarrow> 4 | Magenta \<Rightarrow> 5 | Brown \<Rightarrow> 6
      | LightGray \<Rightarrow> 7 | DarkGray \<Rightarrow> 8 | LightBlue \<Rightarrow> 9 | LightGreen \<Rightarrow> 10 | LightCyan \<Rightarrow> 11
      | LightRed \<Rightarrow> 12 | Pink \<Rightarrow> 13 | Yellow \<Rightarrow> 14 | White \<Rightarrow> 15)"

type_synonym color_code = "8 word"

definition color_code_new :: "color \<Rightarrow> color \<Rightarrow> color_code" where
  "color_code_new foreground background = push_bit 4 (color_u8 background) OR color_u8 foreground"

record screen_char =
  ascii_character :: char
  cell_color :: color_code

subsection \<open>The buffer and the writer\<close>

definition BUFFER_HEIGHT :: usize where "BUFFER_HEIGHT = 25"
definition BUFFER_WIDTH :: usize where "BUFFER_WIDTH = 80"

type_synonym row = "screen_char list"
type_synonym buffer = "row list"

record writer =
  column_position :: usize
  writer_color :: color_code
  chars :: buffer

definition read_cell :: "buffer \<Rightarrow> nat \<Rightarrow> nat \<Rightarrow> screen_char rust" where
  "read_cell b row col =
     (if row < length b \<and> col < length (b ! row) then Inr (b ! row ! col) else Inl Index_out_of_bounds)"

definition write_cell :: "buffer \<Rightarrow> nat \<Rightarrow> nat \<Rightarrow> screen_char \<Rightarrow> buffer rust" where
  "write_cell b row col c =
     (if row < length b \<and> col < length (b ! row) then Inr (b[row := (b ! row)[col := c]])
      else Inl Index_out_of_bounds)"

text \<open>A \<^verbatim>\<open>for\<close> loop over a list of indices that threads the buffer.\<close>

fun for_each :: "nat list \<Rightarrow> (nat \<Rightarrow> buffer \<Rightarrow> buffer rust) \<Rightarrow> buffer \<Rightarrow> buffer rust" where
  "for_each [] body b = Inr b"
| "for_each (i # is) body b = bind_rust (body i b) (for_each is body)"

definition copy_up :: "nat \<Rightarrow> nat \<Rightarrow> buffer \<Rightarrow> buffer rust" where
  "copy_up row col b = bind_rust (read_cell b row col) (write_cell b (row - 1) col)"

definition blank :: "color_code \<Rightarrow> screen_char" where
  "blank cc = \<lparr>ascii_character = CHR '' '', cell_color = cc\<rparr>"

definition clear_row :: "nat \<Rightarrow> writer \<Rightarrow> writer rust" where
  "clear_row row w =
     bind_rust (for_each [0 ..< BUFFER_WIDTH] (\<lambda>col b. write_cell b row col (blank (writer_color w))) (chars w))
       (\<lambda>b. Inr (w\<lparr>chars := b\<rparr>))"

definition new_line :: "writer \<Rightarrow> writer rust" where
  "new_line w =
     bind_rust (for_each [1 ..< BUFFER_HEIGHT] (\<lambda>row. for_each [0 ..< BUFFER_WIDTH] (copy_up row)) (chars w))
       (\<lambda>b. bind_rust (clear_row (BUFFER_HEIGHT - 1) (w\<lparr>chars := b\<rparr>))
         (\<lambda>w'. Inr (w'\<lparr>column_position := 0\<rparr>)))"

definition write_byte :: "char \<Rightarrow> writer \<Rightarrow> writer rust" where
  "write_byte byte w =
     (if byte = CHR 0x0A then new_line w
      else bind_rust (if column_position w \<ge> BUFFER_WIDTH then new_line w else Inr w) (\<lambda>w1.
        bind_rust (write_cell (chars w1) (BUFFER_HEIGHT - 1) (column_position w1)
                     \<lparr>ascii_character = byte, cell_color = writer_color w1\<rparr>) (\<lambda>b.
          Inr (w1\<lparr>chars := b, column_position := column_position w1 + 1\<rparr>))))"

definition printable :: "char \<Rightarrow> bool" where
  "printable byte \<longleftrightarrow> 0x20 \<le> (of_char byte :: nat) \<and> (of_char byte :: nat) \<le> 0x7e"

definition sanitize :: "char \<Rightarrow> char" where
  "sanitize byte = (if printable byte \<or> byte = CHR 0x0A then byte else CHR 0xFE)"

fun write_string :: "string \<Rightarrow> writer \<Rightarrow> writer rust" where
  "write_string [] w = Inr w"
| "write_string (byte # s) w = bind_rust (write_byte (sanitize byte) w) (write_string s)"

definition WRITER_init :: "buffer \<Rightarrow> writer" where
  "WRITER_init b =
     \<lparr>column_position = 0, writer_color = color_code_new LightCyan Black, chars = b\<rparr>"

subsection \<open>Well-formed writers and the loops\<close>

definition writer_ok :: "writer \<Rightarrow> bool" where
  "writer_ok w \<longleftrightarrow> length (chars w) = 25 \<and> (\<forall>r \<in> set (chars w). length r = 80) \<and> column_position w \<le> 80"

lemma for_each_append:
  "for_each (is @ js) body b = bind_rust (for_each is body b) (for_each js body)"
  by (induction "is" arbitrary: b) (simp_all add: bind_rust_def split: sum.split)

text \<open>One row is overwritten from the left with cells that do not depend on that row.\<close>

lemma for_each_fill:
  assumes "row < length b" and "n \<le> length (b ! row)"
    and body: "\<And>col xs. col < n \<Longrightarrow> length xs = length (b ! row) \<Longrightarrow>
      body col (b[row := xs]) = write_cell (b[row := xs]) row col (f col)"
  shows "for_each [0 ..< n] body b = Inr (b[row := map f [0 ..< n] @ drop n (b ! row)])"
  using assms(2) body
proof (induction n)
  case 0
  then show ?case by simp
next
  case (Suc n)
  let ?xs = "map f [0 ..< n] @ drop n (b ! row)"
  have "for_each [0 ..< n] body b = Inr (b[row := ?xs])"
    using Suc by simp
  moreover have "body n (b[row := ?xs]) = write_cell (b[row := ?xs]) row n (f n)"
    using Suc.prems by simp
  moreover have "?xs[n := f n] = map f [0 ..< Suc n] @ drop (Suc n) (b ! row)"
    using Cons_nth_drop_Suc [of n "b ! row", symmetric] Suc.prems(1) by (simp add: list_update_append)
  ultimately show ?case
    using Suc.prems(1) assms(1) by (simp add: for_each_append write_cell_def)
qed

lemma clear_row_eq:
  assumes "row < length (chars w)" and "length (chars w ! row) = 80"
  shows "clear_row row w = Inr (w\<lparr>chars := (chars w)[row := replicate 80 (blank (writer_color w))]\<rparr>)"
proof -
  have "for_each [0 ..< 80] (\<lambda>col b. write_cell b row col (blank (writer_color w))) (chars w) =
      Inr ((chars w)[row := map (\<lambda>_. blank (writer_color w)) [0 ..< 80] @ drop 80 (chars w ! row)])"
    using assms by (intro for_each_fill) simp_all
  then show ?thesis
    using assms by (simp add: clear_row_def BUFFER_WIDTH_def map_replicate_const del: upt_rec_numeral)
qed

lemma copy_row:
  assumes "Suc k < length b" and "length (b ! k) = 80" and "length (b ! Suc k) = 80"
  shows "for_each [0 ..< 80] (copy_up (Suc k)) b = Inr (b[k := b ! Suc k])"
proof -
  have "for_each [0 ..< 80] (copy_up (Suc k)) b =
      Inr (b[k := map (\<lambda>col. b ! Suc k ! col) [0 ..< 80] @ drop 80 (b ! k)])"
    using assms by (intro for_each_fill) (simp_all add: copy_up_def read_cell_def)
  moreover have "map (\<lambda>col. b ! Suc k ! col) [0 ..< 80] = b ! Suc k"
    using assms(3) map_nth [of "b ! Suc k"] by simp
  ultimately show ?thesis using assms(2) by simp
qed

lemma scroll_rows:
  assumes "n < length b" and "\<forall>r \<in> set b. length r = 80"
  shows "for_each [1 ..< Suc n] (\<lambda>row. for_each [0 ..< 80] (copy_up row)) b = Inr (take n (tl b) @ drop n b)"
  using assms(1)
proof (induction n)
  case (Suc n)
  let ?b = "take n (tl b) @ drop n b"
  have len: "length (take n (tl b)) = n" "drop n b = b ! n # b ! Suc n # drop (Suc (Suc n)) b"
    using Suc.prems by (simp, metis Cons_nth_drop_Suc Suc_lessD)
  have "for_each [0 ..< 80] (copy_up (Suc n)) ?b = Inr (?b[n := ?b ! Suc n])"
    using Suc.prems assms(2) len by (intro copy_row) (simp_all add: nth_append)
  moreover have "?b[n := ?b ! Suc n] = take (Suc n) (tl b) @ drop (Suc n) b"
    using len Suc.prems
    by (simp add: list_update_append nth_append take_Suc_conv_app_nth nth_tl)
      (metis Cons_nth_drop_Suc)
  ultimately show ?case
    using Suc by (simp add: for_each_append)
qed simp

text \<open>The nested copy loops scroll the buffer up by one row.\<close>

lemma new_line_eq:
  assumes "writer_ok w"
  shows "new_line w =
    Inr (w\<lparr>chars := tl (chars w) @ [replicate 80 (blank (writer_color w))], column_position := 0\<rparr>)"
proof -
  let ?b = "chars w"
  have b: "length ?b = 25" "\<forall>r \<in> set ?b. length r = 80" using assms by (auto simp: writer_ok_def)
  have "take 24 (tl ?b) @ drop 24 ?b = tl ?b @ [last ?b]"
  proof -
    have "drop 24 ?b = [last ?b]"
      using b(1) by (cases ?b rule: rev_cases) simp_all
    then show ?thesis using b(1) by simp
  qed
  moreover have "for_each [1 ..< 25] (\<lambda>row. for_each [0 ..< 80] (copy_up row)) ?b = Inr (take 24 (tl ?b) @ drop 24 ?b)"
    using scroll_rows [of 24 ?b] b by simp
  ultimately have "for_each [1 ..< 25] (\<lambda>row. for_each [0 ..< 80] (copy_up row)) ?b = Inr (tl ?b @ [last ?b])"
    by simp
  moreover have "clear_row 24 (w\<lparr>chars := tl ?b @ [last ?b]\<rparr>) =
      Inr (w\<lparr>chars := tl ?b @ [replicate 80 (blank (writer_color w))]\<rparr>)"
  proof -
    have "last ?b \<in> set ?b" using b(1) by (cases ?b) auto
    then show ?thesis
      using b clear_row_eq [of 24 "w\<lparr>chars := tl ?b @ [last ?b]\<rparr>"] by (simp add: nth_append list_update_append)
  qed
  ultimately show ?thesis
    unfolding new_line_def BUFFER_HEIGHT_def BUFFER_WIDTH_def by (simp del: upt_rec_numeral)
qed

lemma new_line_ok: "writer_ok w \<Longrightarrow> new_line w = Inr w' \<Longrightarrow> writer_ok w'"
  by (cases "chars w") (auto simp: new_line_eq, auto simp: writer_ok_def)

subsection \<open>The abstract terminal\<close>

text \<open>
  \<open>history\<close> holds all rows above the bottom one since the start, the first rows of the initial
  screen included; \<open>bottom\<close> is the row being written.
\<close>

record terminal =
  history :: "row list"
  bottom :: row
  cursor :: nat

definition term_new_line :: "color_code \<Rightarrow> terminal \<Rightarrow> terminal" where
  "term_new_line cc t = \<lparr>history = history t @ [bottom t], bottom = replicate 80 (blank cc), cursor = 0\<rparr>"

definition term_put :: "color_code \<Rightarrow> char \<Rightarrow> terminal \<Rightarrow> terminal" where
  "term_put cc byte t =
     (if byte = CHR 0x0A then term_new_line cc t
      else let t' = (if cursor t \<ge> 80 then term_new_line cc t else t)
        in t'\<lparr>bottom := (bottom t')[cursor t' := \<lparr>ascii_character = byte, cell_color = cc\<rparr>],
              cursor := cursor t' + 1\<rparr>)"

definition screen :: "terminal \<Rightarrow> buffer" where
  "screen t = drop (length (history t) - 24) (history t) @ [bottom t]"

definition shows_terminal :: "writer \<Rightarrow> terminal \<Rightarrow> bool" where
  "shows_terminal w t \<longleftrightarrow> chars w = screen t \<and> column_position w = cursor t \<and> 24 \<le> length (history t)"

definition terminal_of :: "writer \<Rightarrow> terminal" where
  "terminal_of w = \<lparr>history = butlast (chars w), bottom = last (chars w), cursor = column_position w\<rparr>"

lemma shows_terminal_of: "writer_ok w \<Longrightarrow> shows_terminal w (terminal_of w)"
  by (cases "chars w" rule: rev_cases) (auto simp: writer_ok_def shows_terminal_def terminal_of_def screen_def)

lemma new_line_refines:
  assumes "writer_ok w" and "shows_terminal w t"
  shows "\<exists>w'. new_line w = Inr w' \<and> writer_ok w' \<and> writer_color w' = writer_color w \<and>
    shows_terminal w' (term_new_line (writer_color w) t)"
proof -
  have h: "24 \<le> length (history t)" "chars w = screen t" using assms(2) by (auto simp: shows_terminal_def)
  have "tl (screen t) = drop (Suc (length (history t)) - 24) (history t @ [bottom t])"
  proof -
    have "tl (drop (length (history t) - 24) (history t)) = drop (Suc (length (history t)) - 24) (history t)"
      unfolding Suc_diff_le [OF h(1)] by (simp add: tl_drop drop_Suc)
    moreover have "drop (length (history t) - 24) (history t) \<noteq> []" using h(1) by simp
    ultimately show ?thesis using h(1) by (simp add: screen_def tl_append2)
  qed
  then have "shows_terminal (w\<lparr>chars := tl (chars w) @ [replicate 80 (blank (writer_color w))], column_position := 0\<rparr>)
      (term_new_line (writer_color w) t)"
    using h by (simp add: shows_terminal_def term_new_line_def) (simp add: screen_def)
  then show ?thesis
    using new_line_eq [OF assms(1)] new_line_ok [OF assms(1) new_line_eq [OF assms(1)]] by simp
qed

lemma write_byte_refines:
  assumes ok: "writer_ok w" and sim: "shows_terminal w t"
  shows "\<exists>w'. write_byte byte w = Inr w' \<and> writer_ok w' \<and> writer_color w' = writer_color w \<and>
    shows_terminal w' (term_put (writer_color w) byte t)"
proof (cases "byte = CHR 0x0A")
  case True
  then show ?thesis using new_line_refines [OF assms] by (simp add: write_byte_def term_put_def)
next
  case False
  let ?t = "if cursor t \<ge> 80 then term_new_line (writer_color w) t else t"
  have col: "column_position w = cursor t" using sim by (simp add: shows_terminal_def)
  have "\<exists>w1. (if column_position w \<ge> BUFFER_WIDTH then new_line w else Inr w) = Inr w1 \<and>
    writer_ok w1 \<and> writer_color w1 = writer_color w \<and> shows_terminal w1 ?t"
    using new_line_refines [OF assms] assms col by (cases "80 \<le> cursor t") (simp_all add: BUFFER_WIDTH_def)
  then obtain w1 where w1: "(if column_position w \<ge> BUFFER_WIDTH then new_line w else Inr w) = Inr w1"
    "writer_ok w1" "writer_color w1 = writer_color w" "shows_terminal w1 ?t" by blast
  have cur: "cursor ?t < 80" by (simp add: term_new_line_def)
  let ?c = "\<lparr>ascii_character = byte, cell_color = writer_color w\<rparr>"
  have b: "length (chars w1) = 25" "length (chars w1 ! 24) = 80" "chars w1 = screen ?t" "column_position w1 = cursor ?t"
    using w1(2,4) by (auto simp: writer_ok_def shows_terminal_def)
  have len: "length (drop (length (history ?t) - 24) (history ?t)) = 24"
    using w1(4) by (simp add: shows_terminal_def)
  have last: "screen ?t ! 24 = bottom ?t" "(screen ?t)[24 := r] = screen (?t\<lparr>bottom := r\<rparr>)" for r
    using len by (simp_all add: screen_def nth_append list_update_append)
  define w' where "w' = w1\<lparr>chars := screen (?t\<lparr>bottom := (bottom ?t)[cursor ?t := ?c]\<rparr>),
    column_position := cursor ?t + 1\<rparr>"
  have "write_byte byte w = Inr w'"
    using False w1(1,3) cur b last by (simp add: write_byte_def write_cell_def BUFFER_HEIGHT_def w'_def)
  moreover have "writer_ok w'"
  proof -
    have "set (screen (?t\<lparr>bottom := (bottom ?t)[cursor ?t := ?c]\<rparr>)) \<subseteq> insert ((bottom ?t)[cursor ?t := ?c]) (set (chars w1))"
      unfolding last(2) [symmetric] b(3) by (rule set_update_subset_insert)
    moreover have "length (bottom ?t) = 80" using b(2,3) last(1) by simp
    ultimately show ?thesis
      using w1(2) cur b(1,3) unfolding writer_ok_def w'_def last(2) [symmetric] by auto
  qed
  moreover have "shows_terminal w' (term_put (writer_color w) byte t)"
    using w1(4) False by (simp add: shows_terminal_def w'_def term_put_def Let_def) (simp add: screen_def)
  ultimately show ?thesis using w1(3) by (auto simp: w'_def)
qed

lemma write_string_refines:
  assumes "writer_ok w" and "shows_terminal w t"
  shows "\<exists>w'. write_string s w = Inr w' \<and> writer_ok w' \<and> writer_color w' = writer_color w \<and>
    shows_terminal w' (fold (term_put (writer_color w)) (map sanitize s) t)"
  using assms
proof (induction s arbitrary: w t)
  case (Cons byte s)
  obtain w1 where w1: "write_byte (sanitize byte) w = Inr w1" "writer_ok w1" "writer_color w1 = writer_color w"
    "shows_terminal w1 (term_put (writer_color w) (sanitize byte) t)"
    using write_byte_refines [OF Cons.prems] by blast
  show ?case using Cons.IH [OF w1(2,4)] w1(1,3) by simp
qed simp

lemma write_string_total: "writer_ok w \<Longrightarrow> \<exists>w'. write_string s w = Inr w' \<and> writer_ok w'"
  using write_string_refines [OF _ shows_terminal_of] by blast

lemma put_line:
  assumes "CHR 0x0A \<notin> set s" and "cursor t + length s \<le> 80" and "length (bottom t) = 80"
  shows "fold (term_put cc) s t =
    t\<lparr>bottom := take (cursor t) (bottom t) @ map (\<lambda>c. \<lparr>ascii_character = c, cell_color = cc\<rparr>) s
        @ drop (cursor t + length s) (bottom t),
      cursor := cursor t + length s\<rparr>"
  using assms
proof (induction s arbitrary: t)
  case (Cons c s)
  let ?c = "\<lparr>ascii_character = c, cell_color = cc\<rparr>"
  let ?t = "t\<lparr>bottom := (bottom t)[cursor t := ?c], cursor := Suc (cursor t)\<rparr>"
  have "term_put cc c t = ?t"
    using Cons.prems by (auto simp: term_put_def)
  moreover have "take (Suc (cursor t)) ((bottom t)[cursor t := ?c]) = take (cursor t) (bottom t) @ [?c]"
    using Cons.prems by (simp add: take_Suc_conv_app_nth)
  moreover have "drop (Suc (cursor t + length s)) ((bottom t)[cursor t := ?c]) = drop (Suc (cursor t + length s)) (bottom t)"
    by simp
  ultimately show ?case
    using Cons.IH [of ?t] Cons.prems by simp
qed simp

subsection \<open>Properties\<close>

text \<open>
  C15: on a well-formed writer \<^verbatim>\<open>write_string\<close> never indexes out of bounds, keeps the writer well formed
  (25 rows of 80 cells, column at most 80), and leaves on the screen the last 25 rows of the
  abstract terminal that was fed the same bytes, with every byte outside printable ASCII and newline
  replaced by \<^verbatim>\<open>0xfe\<close>.
\<close>

theorem write_string_refines_terminal:
  assumes "writer_ok w"
  shows "\<exists>w'. write_string s w = Inr w' \<and> writer_ok w' \<and>
    (let t = fold (term_put (writer_color w)) (map sanitize s) (terminal_of w)
     in chars w' = screen t \<and> column_position w' = cursor t)"
  using write_string_refines [OF assms shows_terminal_of [OF assms], of s]
  by (auto simp: shows_terminal_def Let_def)

definition blank_screen :: buffer where
  "blank_screen = replicate 25 (replicate 80 (blank 0))"

lemma blank_screen_ok: "writer_ok (WRITER_init blank_screen)"
  by (simp add: writer_ok_def WRITER_init_def blank_screen_def)

theorem write_string_refines_terminal_witness:
  "writer_ok (WRITER_init blank_screen) \<and>
   (\<exists>w'. write_string ''agent> '' (WRITER_init blank_screen) = Inr w' \<and> writer_ok w')"
  using write_string_refines_terminal [OF blank_screen_ok, of "''agent> ''"] blank_screen_ok by auto

text \<open>
  The two nested copy loops of \<^verbatim>\<open>new_line\<close> followed by \<^verbatim>\<open>clear_row\<close> scroll the screen: the top row is
  dropped, the others move up by one, the bottom row is blank in the writer's colour and the
  column is zero.
\<close>

lemma new_line_scrolls:
  assumes "writer_ok w"
  shows "new_line w =
    Inr (w\<lparr>chars := tl (chars w) @ [replicate 80 (blank (writer_color w))], column_position := 0\<rparr>)"
  using assms by (rule new_line_eq)

lemma new_line_scrolls_witness:
  "writer_ok (WRITER_init blank_screen) \<and>
   new_line (WRITER_init blank_screen) =
     Inr ((WRITER_init blank_screen)\<lparr>chars := replicate 24 (replicate 80 (blank 0)) @
        [replicate 80 (blank (color_code_new LightCyan Black))]\<rparr>)"
  using new_line_scrolls [OF blank_screen_ok] blank_screen_ok
  by (simp add: WRITER_init_def blank_screen_def)

text \<open>
  Printable text that fits behind the cursor is laid out from the cursor on in the bottom row, in
  the writer's colour; the rest of that row and all other rows stay as they are.
\<close>

lemma write_string_fits_line:
  assumes "writer_ok w" and "\<forall>c \<in> set s. printable c" and "column_position w + length s \<le> 80"
  shows "\<exists>w'. write_string s w = Inr w' \<and> column_position w' = column_position w + length s \<and>
    chars w' = butlast (chars w) @
      [take (column_position w) (last (chars w)) @
       map (\<lambda>c. \<lparr>ascii_character = c, cell_color = writer_color w\<rparr>) s @
       drop (column_position w + length s) (last (chars w))]"
proof -
  have b: "length (chars w) = 25" "length (last (chars w)) = 80"
    using assms(1) by (cases "chars w" rule: rev_cases; simp add: writer_ok_def)+
  have "map sanitize s = s" using assms(2) by (auto simp: sanitize_def intro: map_idI)
  moreover have "CHR 0x0A \<notin> set s" using assms(2) by (auto simp: printable_def)
  ultimately have "fold (term_put (writer_color w)) (map sanitize s) (terminal_of w) =
    (terminal_of w)\<lparr>bottom := take (column_position w) (last (chars w)) @
       map (\<lambda>c. \<lparr>ascii_character = c, cell_color = writer_color w\<rparr>) s @
       drop (column_position w + length s) (last (chars w)),
      cursor := column_position w + length s\<rparr>"
    using put_line [of s "terminal_of w" "writer_color w"] assms(3) b by (simp add: terminal_of_def)
  then show ?thesis
    using write_string_refines [OF assms(1) shows_terminal_of [OF assms(1)], of s] b(1)
    by (auto simp: shows_terminal_def) (simp add: screen_def terminal_of_def)
qed

lemma write_string_fits_line_witness:
  "writer_ok (WRITER_init blank_screen) \<and> (\<forall>c \<in> set ''ok''. printable c) \<and>
   (\<exists>w'. write_string ''ok'' (WRITER_init blank_screen) = Inr w' \<and> column_position w' = 2 \<and>
      map ascii_character (take 3 (last (chars w'))) = ''ok '')"
proof -
  have p: "\<forall>c \<in> set ''ok''. printable c" by (simp add: printable_def)
  have "last blank_screen = replicate 80 (blank 0)" by (simp add: blank_screen_def)
  then show ?thesis
    using write_string_fits_line [OF blank_screen_ok p] p blank_screen_ok
    by (auto simp: WRITER_init_def blank_def)
qed

text \<open>
  A colour code holds both colours: the low nibble of \<^verbatim>\<open>ColorCode::new\<close> is the foreground, the high
  nibble the background.
\<close>

lemma color_code_nibbles:
  "color_code_new f b AND 15 = color_u8 f \<and> drop_bit 4 (color_code_new f b) = color_u8 b"
  by (cases f; cases b; simp add: color_code_new_def color_u8_def)

end
