(* ===== verification/Descriptors.thy ===== *)
theory Descriptors
  imports X86
begin

text \<open>
  The processor's tables: the task state segment and the global descriptor table of \<^verbatim>\<open>src/gdt.rs\<close>, the interrupt
  descriptor table and the interrupt controllers of \<^verbatim>\<open>src/interrupts.rs\<close>.

  A descriptor table is seen the way the processor reads it, from selectors to descriptors. How the crate \<^verbatim>\<open>x86_64\<close>
  lays out its table is a parameter; the locale \<open>gdt_contract\<close> states what its documentation says of \<^verbatim>\<open>add_entry\<close>.
\<close>

subsection \<open>Task state segment and global descriptor table\<close>

definition DOUBLE_FAULT_IST_INDEX :: nat where "DOUBLE_FAULT_IST_INDEX = 0"

definition STACK_SIZE :: nat where "STACK_SIZE = 4096 * 5"

record tss =
  interrupt_stack_table :: "u64 list"

datatype descriptor = Kernel_code_segment | Tss_segment tss

type_synonym gdt = "nat \<rightharpoonup> descriptor"

record gdt_library =
  tss_new :: tss
  gdt_new :: gdt
  add_entry :: "descriptor \<Rightarrow> gdt \<Rightarrow> (nat \<times> gdt) rust"

text \<open>The address of the static \<^verbatim>\<open>STACK\<close> is an argument; the stack grows downward from its end.\<close>

definition TSS :: "x86 \<Rightarrow> gdt_library \<Rightarrow> u64 \<Rightarrow> tss rust" where
  "TSS X L stack_start =
     bind_rust (virt_add X stack_start STACK_SIZE) (\<lambda>stack_end.
       Inr (tss_new L\<lparr>interrupt_stack_table := (interrupt_stack_table (tss_new L))[DOUBLE_FAULT_IST_INDEX := stack_end]\<rparr>))"

record selectors =
  code_selector :: nat
  tss_selector :: nat

definition GDT :: "x86 \<Rightarrow> gdt_library \<Rightarrow> u64 \<Rightarrow> (gdt \<times> selectors) rust" where
  "GDT X L stack_start =
     bind_rust (add_entry L Kernel_code_segment (gdt_new L)) (\<lambda>(code, g1).
       bind_rust (TSS X L stack_start) (\<lambda>tss.
         bind_rust (add_entry L (Tss_segment tss) g1) (\<lambda>(task, g2).
           Inr (g2, \<lparr>code_selector = code, tss_selector = task\<rparr>))))"

subsection \<open>Interrupt vectors\<close>

definition PIC_1_OFFSET :: nat where "PIC_1_OFFSET = 32"
definition PIC_2_OFFSET :: nat where "PIC_2_OFFSET = PIC_1_OFFSET + 8"

text \<open>The chained controllers, by the vectors at which their eight lines each begin.\<close>

definition PICS_new :: "nat \<times> nat" where
  "PICS_new = (PIC_1_OFFSET, PIC_2_OFFSET)"

definition pic_vector :: "nat \<times> nat \<Rightarrow> nat \<Rightarrow> nat" where
  "pic_vector offsets line = (if line < 8 then fst offsets + line else snd offsets + (line - 8))"

datatype interrupt_index = Timer | Keyboard

definition as_u8 :: "interrupt_index \<Rightarrow> nat" where
  "as_u8 i = (case i of Timer \<Rightarrow> PIC_1_OFFSET | Keyboard \<Rightarrow> PIC_1_OFFSET + 1)"

definition as_usize :: "interrupt_index \<Rightarrow> nat" where
  "as_usize i = as_u8 i"

text \<open>On a PC the timer is line 0 and the keyboard line 1.\<close>

definition irq_line :: "interrupt_index \<Rightarrow> nat" where
  "irq_line i = (case i of Timer \<Rightarrow> 0 | Keyboard \<Rightarrow> 1)"

datatype handler =
  Breakpoint_handler | Double_fault_handler nat | Page_fault_handler | Timer_handler | Keyboard_handler

type_synonym idt = "nat \<rightharpoonup> handler"

text \<open>The vectors of the three exceptions are those of the processor.\<close>

definition IDT :: idt where
  "IDT = Map.empty
     (3 \<mapsto> Breakpoint_handler, 8 \<mapsto> Double_fault_handler DOUBLE_FAULT_IST_INDEX, 14 \<mapsto> Page_fault_handler,
      as_usize Timer \<mapsto> Timer_handler, as_usize Keyboard \<mapsto> Keyboard_handler)"

subsection \<open>The processor's registers\<close>

record cpu_tables =
  gdtr :: gdt
  cs_reg :: nat
  task_reg :: nat
  idtr :: idt
  pic_offsets :: "(nat \<times> nat) option"

text \<open>The stack on which the processor starts the handler of a double fault, if the tables give it one.\<close>

definition double_fault_stack :: "cpu_tables \<Rightarrow> u64 option" where
  "double_fault_stack t =
     (case idtr t 8 of
        Some (Double_fault_handler i) \<Rightarrow>
          (case gdtr t (task_reg t) of
             Some (Tss_segment s) \<Rightarrow> if i < length (interrupt_stack_table s) then Some (interrupt_stack_table s ! i) else None
           | _ \<Rightarrow> None)
      | _ \<Rightarrow> None)"

text \<open>What the initialisation loads.\<close>

definition init_tables :: "gdt \<times> selectors \<Rightarrow> cpu_tables" where
  "init_tables g =
     \<lparr>gdtr = fst g, cs_reg = code_selector (snd g), task_reg = tss_selector (snd g), idtr = IDT,
      pic_offsets = Some PICS_new\<rparr>"

subsection \<open>The contract of the descriptor table\<close>

locale gdt_contract =
  fixes L :: gdt_library
  assumes stacks: "length (interrupt_stack_table (tss_new L)) = 7"
    and new_empty: "gdt_new L = Map.empty"
    and added: "add_entry L d g = Inr (s, g') \<Longrightarrow> s \<notin> dom g \<and> g' = g(s \<mapsto> d)"
    and room_empty: "\<exists>r. add_entry L d Map.empty = Inr r"
    and room_code: "\<exists>r. add_entry L d [s \<mapsto> Kernel_code_segment] = Inr r"
begin

text \<open>
  The table holds a code segment and a task state segment whose stack for double faults ends where the static
  stack does.
\<close>

lemma GDT_built:
  assumes "x86_addresses X" and "stack_start + STACK_SIZE < virt_bound"
  shows "\<exists>code task s. GDT X L stack_start =
      Inr ([code \<mapsto> Kernel_code_segment, task \<mapsto> Tss_segment s], \<lparr>code_selector = code, tss_selector = task\<rparr>) \<and>
    code \<noteq> task \<and> length (interrupt_stack_table s) = 7 \<and>
    interrupt_stack_table s ! DOUBLE_FAULT_IST_INDEX = stack_start + STACK_SIZE"
proof -
  obtain code g1 where 1: "add_entry L Kernel_code_segment Map.empty = Inr (code, g1)" using room_empty by fastforce
  then have g1: "g1 = [code \<mapsto> Kernel_code_segment]" using added by blast
  let ?s = "tss_new L\<lparr>interrupt_stack_table := (interrupt_stack_table (tss_new L))[DOUBLE_FAULT_IST_INDEX := stack_start + STACK_SIZE]\<rparr>"
  obtain task g2 where 2: "add_entry L (Tss_segment ?s) g1 = Inr (task, g2)" using room_code [of "Tss_segment ?s" code] g1 by auto
  then have "task \<noteq> code" "g2 = [code \<mapsto> Kernel_code_segment, task \<mapsto> Tss_segment ?s]" using added [OF 2] g1 by auto
  moreover have "TSS X L stack_start = Inr ?s"
    using x86_addresses.virt_add_valid [OF assms(1) assms(2)] by (simp add: TSS_def)
  ultimately show ?thesis
    using 1 2 new_empty stacks
    by (intro exI [of _ code] exI [of _ task] exI [of _ ?s]) (simp add: GDT_def DOUBLE_FAULT_IST_INDEX_def)
qed

end

text \<open>
  The crate's table of eight slots: a code segment takes one, a task state segment two, and a selector is eight
  times its slot.
\<close>

definition slot_free :: "gdt \<Rightarrow> nat \<Rightarrow> bool" where
  "slot_free g k \<longleftrightarrow> g (8 * k) = None \<and> (case g (8 * (k - 1)) of Some (Tss_segment _) \<Rightarrow> False | _ \<Rightarrow> True)"

definition x86_64_gdt :: gdt_library where
  "x86_64_gdt =
     \<lparr>tss_new = \<lparr>interrupt_stack_table = replicate 7 0\<rparr>, gdt_new = Map.empty,
      add_entry = (\<lambda>d g.
        case find (slot_free g) (if d = Kernel_code_segment then [1..<8] else [1..<7]) of
          None \<Rightarrow> Inl (Explicit_panic ''GDT full'')
        | Some k \<Rightarrow> Inr (8 * k, g(8 * k \<mapsto> d)))\<rparr>"

lemma slot_two:
  assumes "\<not> slot_free [s \<mapsto> Kernel_code_segment] 1"
  shows "slot_free [s \<mapsto> Kernel_code_segment] 2"
  using assms by (auto simp: slot_free_def split: option.splits if_splits)

lemma slot_found:
  assumes "slot_free g 1 \<or> slot_free g 2"
  shows "\<exists>r. add_entry x86_64_gdt d g = Inr r"
proof -
  have "1 \<in> set (if d = Kernel_code_segment then [1..<8] else [1..<7])" "2 \<in> set (if d = Kernel_code_segment then [1..<8] else [1..<7])"
    by simp_all
  then have "find (slot_free g) (if d = Kernel_code_segment then [1..<8] else [1..<7]) \<noteq> None"
    using assms unfolding find_None_iff by blast
  then show ?thesis by (auto simp: x86_64_gdt_def)
qed

interpretation xg: gdt_contract x86_64_gdt
proof
  show "length (interrupt_stack_table (tss_new x86_64_gdt)) = 7" "gdt_new x86_64_gdt = Map.empty"
    by (simp_all add: x86_64_gdt_def)
next
  fix d g s g' assume "add_entry x86_64_gdt d g = Inr (s, g')"
  then obtain k where k: "find (slot_free g) (if d = Kernel_code_segment then [1..<8] else [1..<7]) = Some k" "s = 8 * k" "g' = g(8 * k \<mapsto> d)"
    by (cases "find (slot_free g) (if d = Kernel_code_segment then [1..<8] else [1..<7])") (auto simp: x86_64_gdt_def simp del: upt_rec_numeral)
  then have "slot_free g k" unfolding find_Some_iff by blast
  then show "s \<notin> dom g \<and> g' = g(s \<mapsto> d)" using k(2,3) by (simp add: slot_free_def domIff)
next
  fix d
  show "\<exists>r. add_entry x86_64_gdt d Map.empty = Inr r" by (rule slot_found) (simp add: slot_free_def)
next
  fix d s
  show "\<exists>r. add_entry x86_64_gdt d [s \<mapsto> Kernel_code_segment] = Inr r"
    using slot_two [of s] by (intro slot_found) blast
qed

end
