(* ===== verification/Interrupts.thy ===== *)
theory Interrupts
  imports VgaBuffer Descriptors "HOL-Library.Multiset"
begin

text \<open>
  Interrupts and the locks they share with the kernel: \<^verbatim>\<open>src/interrupts.rs\<close>, the print functions of
  \<^verbatim>\<open>src/serial.rs\<close> and \<^verbatim>\<open>src/vga_buffer.rs\<close> and the initialisation of \<^verbatim>\<open>src/gdt.rs\<close> and \<^verbatim>\<open>src/lib.rs\<close>.

  Code is a list of primitive instructions. The machine runs the instructions of its top frame; when
  the interrupt flag is set a line of the interrupt controllers may be raised between any two instructions,
  which looks up the handler in the loaded table, pushes it as a new frame and clears the flag, as an interrupt
  gate does. A vector without a handler has no step, and neither has a segment register loaded with a
  selector of the wrong kind: the processor would fault. Taking a spin lock that is held blocks the machine for ever,
  because nobody but the blocked frame can run with interrupts disabled. The step relation has no step for that
  case either: a machine that is about to take a held lock is stuck.

  Only the lines of the timer and the keyboard are raised. The thread of the kernel is idle, in its halt loop, when
  its list of instructions is empty.
\<close>

subsection \<open>Instructions\<close>

datatype lock = WRITER | SERIAL1 | PICS | KEYBOARD

datatype instr =
    Save_and_disable
  | Restore
  | Enable
  | Lock_acquire lock
  | Lock_release lock
  | Vga_write string
  | Serial_write string
  | Lgdt gdt
  | Set_cs nat
  | Load_tss nat
  | Lidt idt
  | Initialize_pics
  | Notify_end_of_interrupt nat
  | Read_scancode

text \<open>\<^verbatim>\<open>without_interrupts\<close> around a print; the lock guard ends with the statement.\<close>

definition vga_print :: "string \<Rightarrow> instr list" where
  "vga_print s = [Save_and_disable, Lock_acquire WRITER, Vga_write s, Lock_release WRITER, Restore]"

definition serial_print :: "string \<Rightarrow> instr list" where
  "serial_print s = [Save_and_disable, Lock_acquire SERIAL1, Serial_write s, Lock_release SERIAL1, Restore]"

definition print_console :: "console \<Rightarrow> instr list" where
  "print_console c = (case c of Vga s \<Rightarrow> vga_print s | Serial s \<Rightarrow> serial_print s)"

definition gdt_init :: "gdt \<times> selectors \<Rightarrow> instr list" where
  "gdt_init g = [Lgdt (fst g), Set_cs (code_selector (snd g)), Load_tss (tss_selector (snd g))]"

definition init_idt :: "instr list" where
  "init_idt = [Lidt IDT]"

definition lib_init :: "gdt \<times> selectors \<Rightarrow> instr list" where
  "lib_init g = gdt_init g @ init_idt @ [Lock_acquire PICS, Initialize_pics, Lock_release PICS, Enable]"

definition timer_interrupt_handler :: "instr list" where
  "timer_interrupt_handler =
     [Lock_acquire PICS, Notify_end_of_interrupt (as_u8 Timer), Lock_release PICS]"

definition keyboard_interrupt_handler :: "instr list" where
  "keyboard_interrupt_handler =
     [Lock_acquire KEYBOARD, Read_scancode,
      Lock_acquire PICS, Notify_end_of_interrupt (as_u8 Keyboard), Lock_release PICS, Lock_release KEYBOARD]"

text \<open>
  The exception handlers, for the text of the stack frame, the accessed address and the error code.
  The page-fault handler never returns: it ends in the halt loop. The double-fault handler panics.
\<close>

definition breakpoint_handler :: "string \<Rightarrow> instr list" where
  "breakpoint_handler stack_frame =
     vga_print (''EXCEPTION: BREAKPOINT'' @ [CHR 0x0A] @ stack_frame @ [CHR 0x0A])"

definition double_fault_handler :: "string \<Rightarrow> panic" where
  "double_fault_handler stack_frame =
     Explicit_panic (''EXCEPTION: DOUBLE FAULT'' @ [CHR 0x0A] @ stack_frame)"

definition page_fault_handler :: "string \<Rightarrow> string \<Rightarrow> string \<Rightarrow> instr list" where
  "page_fault_handler cr2 error_code stack_frame =
     vga_print (''EXCEPTION: PAGE FAULT'' @ [CHR 0x0A]) @
     vga_print (''Accessed Address: '' @ cr2 @ [CHR 0x0A]) @
     vga_print (''Error Code: '' @ error_code @ [CHR 0x0A]) @
     vga_print (stack_frame @ [CHR 0x0A])"

text \<open>The code of the handlers of the hardware interrupts.\<close>

definition handler_code :: "handler \<Rightarrow> instr list option" where
  "handler_code h =
     (case h of
        Timer_handler \<Rightarrow> Some timer_interrupt_handler
      | Keyboard_handler \<Rightarrow> Some keyboard_interrupt_handler
      | _ \<Rightarrow> None)"

subsection \<open>The keyboard decoder\<close>

text \<open>
  The crate \<^verbatim>\<open>pc_keyboard\<close> is a parameter: its state \<open>'k\<close>, key events \<open>'e\<close>, and the two calls. A
  decoded key is the text it prints.
\<close>

datatype decoded_key = Unicode string | RawKey string

record ('k, 'e) keyboard_driver =
  add_byte :: "'k \<Rightarrow> nat \<Rightarrow> (string + 'e option) \<times> 'k"
  process_keyevent :: "'k \<Rightarrow> 'e \<Rightarrow> decoded_key option \<times> 'k"

definition decode_scancode :: "('k, 'e) keyboard_driver \<Rightarrow> nat \<Rightarrow> 'k \<Rightarrow> instr list \<times> 'k" where
  "decode_scancode drv scancode k =
     (case add_byte drv k scancode of
        (Inr (Some key_event), k1) \<Rightarrow>
          (case process_keyevent drv k1 key_event of
             (Some (Unicode character), k2) \<Rightarrow> (vga_print character, k2)
           | (Some (RawKey key), k2) \<Rightarrow> (vga_print key, k2)
           | (None, k2) \<Rightarrow> ([], k2))
      | (_, k1) \<Rightarrow> ([], k1))"

subsection \<open>The machine\<close>

record 'k machine =
  if_flag :: bool
  saved_flags :: "bool list"
  held :: "lock set"
  tabs :: cpu_tables
  vga :: writer
  serial_out :: string
  kbd :: 'k
  delivered :: "nat list"
  eoi_log :: "nat list"
  frames :: "instr list list"

text \<open>Loading a table or a register; a selector has to name a descriptor of the right kind.\<close>

fun load_instr :: "instr \<Rightarrow> cpu_tables \<Rightarrow> cpu_tables option" where
  "load_instr (Lgdt g) t = Some (t\<lparr>gdtr := g\<rparr>)"
| "load_instr (Set_cs s) t = (if gdtr t s = Some Kernel_code_segment then Some (t\<lparr>cs_reg := s\<rparr>) else None)"
| "load_instr (Load_tss s) t = (case gdtr t s of Some (Tss_segment _) \<Rightarrow> Some (t\<lparr>task_reg := s\<rparr>) | _ \<Rightarrow> None)"
| "load_instr (Lidt i) t = Some (t\<lparr>idtr := i\<rparr>)"
| "load_instr Initialize_pics t = Some (t\<lparr>pic_offsets := Some PICS_new\<rparr>)"
| "load_instr _ t = None"

inductive execute_instr ::
  "('k, 'e) keyboard_driver \<Rightarrow> instr \<Rightarrow> instr list \<Rightarrow> instr list list \<Rightarrow> 'k machine \<Rightarrow> 'k machine \<Rightarrow> bool"
  for drv :: "('k, 'e) keyboard_driver"
where
  save: "execute_instr drv Save_and_disable is fs m
    (m\<lparr>saved_flags := if_flag m # saved_flags m, if_flag := False, frames := is # fs\<rparr>)"
| restore: "saved_flags m = b # bs \<Longrightarrow>
    execute_instr drv Restore is fs m (m\<lparr>saved_flags := bs, if_flag := b, frames := is # fs\<rparr>)"
| enable: "execute_instr drv Enable is fs m (m\<lparr>if_flag := True, frames := is # fs\<rparr>)"
| acquire: "l \<notin> held m \<Longrightarrow>
    execute_instr drv (Lock_acquire l) is fs m (m\<lparr>held := insert l (held m), frames := is # fs\<rparr>)"
| release: "execute_instr drv (Lock_release l) is fs m (m\<lparr>held := held m - {l}, frames := is # fs\<rparr>)"
| vga_write: "write_string s (vga m) = Inr w \<Longrightarrow>
    execute_instr drv (Vga_write s) is fs m (m\<lparr>vga := w, frames := is # fs\<rparr>)"
| serial_write: "execute_instr drv (Serial_write s) is fs m
    (m\<lparr>serial_out := serial_out m @ s, frames := is # fs\<rparr>)"
| load: "load_instr i (tabs m) = Some t \<Longrightarrow> execute_instr drv i is fs m (m\<lparr>tabs := t, frames := is # fs\<rparr>)"
| eoi: "execute_instr drv (Notify_end_of_interrupt v) is fs m
    (m\<lparr>eoi_log := eoi_log m @ [v], frames := is # fs\<rparr>)"
| scan: "decode_scancode drv scancode (kbd m) = (code, k) \<Longrightarrow>
    execute_instr drv Read_scancode is fs m (m\<lparr>kbd := k, frames := (code @ is) # fs\<rparr>)"

text \<open>The vector at which a device's interrupt arrives and the code it starts.\<close>

definition dispatch :: "cpu_tables \<Rightarrow> interrupt_index \<Rightarrow> (nat \<times> instr list) option" where
  "dispatch t i =
     Option.bind (pic_offsets t) (\<lambda>offsets.
       let v = pic_vector offsets (irq_line i) in Option.bind (idtr t v) (\<lambda>h. map_option (Pair v) (handler_code h)))"

inductive quiet_step :: "('k, 'e) keyboard_driver \<Rightarrow> 'k machine \<Rightarrow> 'k machine \<Rightarrow> bool"
  for drv :: "('k, 'e) keyboard_driver"
where
  exec: "frames m = (i # is) # fs \<Longrightarrow> execute_instr drv i is fs m m' \<Longrightarrow> quiet_step drv m m'"
| iret: "frames m = [] # f # fs \<Longrightarrow> quiet_step drv m (m\<lparr>if_flag := True, frames := f # fs\<rparr>)"

inductive machine_step :: "('k, 'e) keyboard_driver \<Rightarrow> 'k machine \<Rightarrow> 'k machine \<Rightarrow> bool"
  for drv :: "('k, 'e) keyboard_driver"
where
  quiet_machine: "quiet_step drv m m' \<Longrightarrow> machine_step drv m m'"
| interrupt: "if_flag m \<Longrightarrow> dispatch (tabs m) i = Some (v, code) \<Longrightarrow> machine_step drv m
    (m\<lparr>if_flag := False, delivered := delivered m @ [v], frames := code # frames m\<rparr>)"

definition machine_reach :: "('k, 'e) keyboard_driver \<Rightarrow> 'k machine \<Rightarrow> 'k machine \<Rightarrow> bool" where
  "machine_reach drv = (machine_step drv)\<^sup>*\<^sup>*"

definition power_on :: "cpu_tables \<Rightarrow> writer \<Rightarrow> 'k \<Rightarrow> instr list \<Rightarrow> 'k machine" where
  "power_on t w k code =
     \<lparr>if_flag = False, saved_flags = [], held = {}, tabs = t, vga = w, serial_out = [], kbd = k,
      delivered = [], eoi_log = [], frames = [code]\<rparr>"

text \<open>
  The kernel's own thread from the point of view of the locks: text it prints before the hardware is
  initialised, the initialisation, and text it prints with interrupts enabled.
\<close>

definition kernel_thread :: "gdt \<times> selectors \<Rightarrow> console list \<Rightarrow> console list \<Rightarrow> instr list" where
  "kernel_thread g before after =
     concat (map print_console before) @ lib_init g @ concat (map print_console after)"

subsection \<open>Lock discipline\<close>

text \<open>
  \<open>disciplined g e b bs h t code\<close>: started with interrupt flag \<open>b\<close>, saved flags \<open>bs\<close>, locks \<open>h\<close> held and tables
  \<open>t\<close> loaded, the code takes a lock only while interrupts are disabled and never twice, turns interrupts on only
  when it holds none and everything is loaded, and ends with no lock and no saved flag; with interrupts enabled
  when \<open>e\<close> asks for it.
\<close>

fun disciplined ::
  "gdt \<times> selectors \<Rightarrow> bool \<Rightarrow> bool \<Rightarrow> bool list \<Rightarrow> lock set \<Rightarrow> cpu_tables \<Rightarrow> instr list \<Rightarrow> bool" where
  "disciplined g e b bs h t [] \<longleftrightarrow> bs = [] \<and> h = {} \<and> (e \<longrightarrow> b)"
| "disciplined g e b bs h t (i # is) \<longleftrightarrow>
     (case i of
        Save_and_disable \<Rightarrow> disciplined g e False (b # bs) h t is
      | Restore \<Rightarrow> bs \<noteq> [] \<and> (hd bs \<longrightarrow> tl bs = [] \<and> h = {} \<and> t = init_tables g) \<and> disciplined g e (hd bs) (tl bs) h t is
      | Enable \<Rightarrow> bs = [] \<and> h = {} \<and> t = init_tables g \<and> disciplined g e True bs h t is
      | Lock_acquire l \<Rightarrow> \<not> b \<and> l \<notin> h \<and> disciplined g e b bs (insert l h) t is
      | Lock_release l \<Rightarrow> l \<in> h \<and> disciplined g e b bs (h - {l}) t is
      | Read_scancode \<Rightarrow> \<not> b \<and> WRITER \<notin> h \<and> disciplined g e b bs h t is
      | Vga_write s \<Rightarrow> disciplined g e b bs h t is
      | Serial_write s \<Rightarrow> disciplined g e b bs h t is
      | Notify_end_of_interrupt v \<Rightarrow> disciplined g e b bs h t is
      | _ \<Rightarrow> \<not> b \<and> (case load_instr i t of None \<Rightarrow> False | Some t' \<Rightarrow> disciplined g e b bs h t' is))"

fun is_load :: "instr \<Rightarrow> bool" where
  "is_load (Lgdt g) = True"
| "is_load (Set_cs s) = True"
| "is_load (Load_tss s) = True"
| "is_load (Lidt i) = True"
| "is_load Initialize_pics = True"
| "is_load _ = False"

abbreviation load_free :: "instr list \<Rightarrow> bool" where
  "load_free code \<equiv> list_all (\<lambda>i. \<not> is_load i) code"

lemma load_instr_is_load: "load_instr i t = Some t' \<Longrightarrow> is_load i"
  by (cases i) simp_all

lemma disciplined_load:
  "load_instr i t = Some t' \<Longrightarrow> disciplined g e b bs h t (i # is) \<longleftrightarrow> \<not> b \<and> disciplined g e b bs h t' is"
  by (cases i) simp_all

lemma disciplined_vga_print:
  assumes "disciplined g e b bs h t is" and "WRITER \<notin> h" and "b \<longrightarrow> bs = [] \<and> h = {} \<and> t = init_tables g"
  shows "disciplined g e b bs h t (vga_print s @ is)"
  using assms by (cases b) (simp_all add: vga_print_def insert_Diff_if)

lemma disciplined_serial_print:
  assumes "disciplined g e b bs h t is" and "SERIAL1 \<notin> h" and "b \<longrightarrow> bs = [] \<and> h = {} \<and> t = init_tables g"
  shows "disciplined g e b bs h t (serial_print s @ is)"
  using assms by (cases b) (simp_all add: serial_print_def insert_Diff_if)

lemma disciplined_console:
  assumes "disciplined g e b [] {} t is" and "b \<longrightarrow> t = init_tables g"
  shows "disciplined g e b [] {} t (concat (map print_console cs) @ is)"
  using assms
proof (induction cs)
  case (Cons c cs)
  then show ?case
    by (cases c) (simp_all add: print_console_def disciplined_vga_print disciplined_serial_print)
qed simp

text \<open>What \<open>lib_init\<close> needs of the table: its selectors name a code segment and a task state segment.\<close>

definition selectors_ok :: "gdt \<times> selectors \<Rightarrow> bool" where
  "selectors_ok g \<longleftrightarrow> fst g (code_selector (snd g)) = Some Kernel_code_segment \<and>
     (\<exists>s. fst g (tss_selector (snd g)) = Some (Tss_segment s))"

lemma disciplined_init:
  assumes "selectors_ok g" and "disciplined g e True [] {} (init_tables g) is"
  shows "disciplined g e False [] {} t (lib_init g @ is)"
proof -
  have "t\<lparr>gdtr := fst g, cs_reg := code_selector (snd g), task_reg := tss_selector (snd g), idtr := IDT,
    pic_offsets := Some PICS_new\<rparr> = init_tables g" by (simp add: init_tables_def)
  then show ?thesis
    using assms by (auto simp: lib_init_def gdt_init_def init_idt_def insert_Diff_if selectors_ok_def)
qed

lemma dispatch_init: "dispatch (init_tables g) i =
  Some (as_u8 i, case i of Timer \<Rightarrow> timer_interrupt_handler | Keyboard \<Rightarrow> keyboard_interrupt_handler)"
  by (cases i) (simp_all add: dispatch_def init_tables_def PICS_new_def pic_vector_def irq_line_def IDT_def as_usize_def
      as_u8_def PIC_1_OFFSET_def handler_code_def)

lemma disciplined_handler:
  assumes "dispatch (init_tables g') i = Some (v, code)"
  shows "disciplined g False False [] {} t code \<and> load_free code"
  using assms unfolding dispatch_init
  by (cases i) (auto simp: timer_interrupt_handler_def keyboard_interrupt_handler_def insert_Diff_if)

text \<open>
  An exception raised by code that does not hold the writer's lock prints its report and leaves locks
  and flags as they were.
\<close>

lemma disciplined_exceptions:
  assumes "disciplined g e False bs h t is" and "WRITER \<notin> h"
  shows "disciplined g e False bs h t (breakpoint_handler sf @ is)"
    and "disciplined g e False bs h t (page_fault_handler cr2 err sf @ is)"
  using assms by (simp_all add: breakpoint_handler_def page_fault_handler_def disciplined_vga_print)

lemma decoded_cases:
  assumes "decode_scancode drv sc k = (code, k')"
  shows "code = [] \<or> (\<exists>s. code = vga_print s)"
  using assms by (auto simp: decode_scancode_def split: prod.splits sum.splits option.splits decoded_key.splits)

lemma disciplined_decode:
  assumes "decode_scancode drv sc k = (code, k')" and "disciplined g e False bs h t is" and "WRITER \<notin> h"
  shows "disciplined g e False bs h t (code @ is)"
  using decoded_cases [OF assms(1)] disciplined_vga_print [OF assms(2,3)] assms(2) by auto

lemma load_free_decode: "decode_scancode drv sc k = (code, k') \<Longrightarrow> load_free code"
  using decoded_cases by (fastforce simp: vga_print_def)

text \<open>Below the running frame lie interrupted frames, with the kernel's thread last.\<close>

fun suspended :: "gdt \<times> selectors \<Rightarrow> cpu_tables \<Rightarrow> instr list list \<Rightarrow> bool" where
  "suspended g t [] \<longleftrightarrow> True"
| "suspended g t (f # fs) \<longleftrightarrow> disciplined g (fs = []) True [] {} t f \<and> (fs \<noteq> [] \<longrightarrow> load_free f) \<and> suspended g t fs"

definition machine_ok :: "gdt \<times> selectors \<Rightarrow> 'k machine \<Rightarrow> bool" where
  "machine_ok g m \<longleftrightarrow>
     (\<exists>code rest. frames m = code # rest \<and> suspended g (tabs m) rest \<and>
        disciplined g (rest = []) (if_flag m) (saved_flags m) (held m) (tabs m) code \<and>
        (rest \<noteq> [] \<longrightarrow> load_free code \<and> tabs m = init_tables g)) \<and>
     (if_flag m \<longrightarrow> saved_flags m = [] \<and> held m = {} \<and> tabs m = init_tables g) \<and> writer_ok (vga m)"

lemma execute_instr_ok:
  assumes "execute_instr drv i is fs m m'" and "frames m = (i # is) # fs" and "machine_ok g m"
  shows "machine_ok g m'"
  using assms
proof (induction rule: execute_instr.induct)
  case (vga_write s m w "is" fs)
  then have "writer_ok w" using write_string_total [of "vga m" s] by (auto simp: machine_ok_def)
  with vga_write show ?case by (auto simp: machine_ok_def)
next
  case (load i m t "is" fs)
  then have "fs = []" using load_instr_is_load [OF load(1)] by (auto simp: machine_ok_def)
  with load show ?case using disciplined_load [OF load(1)] by (auto simp: machine_ok_def)
next
  case (scan scancode m code k "is" fs)
  then show ?case using load_free_decode [OF scan(1)] by (auto simp: machine_ok_def intro: disciplined_decode)
qed (auto simp: machine_ok_def)

lemma quiet_step_ok:
  assumes "quiet_step drv m m'" and "machine_ok g m"
  shows "machine_ok g m'"
  using assms
proof (induction rule: quiet_step.induct)
  case (exec m i "is" fs m')
  then show ?case using execute_instr_ok by blast
next
  case (iret m f fs)
  then show ?case by (auto simp: machine_ok_def)
qed

lemma machine_step_ok:
  assumes "machine_step drv m m'" and "machine_ok g m"
  shows "machine_ok g m'"
  using assms
proof (induction rule: machine_step.induct)
  case (interrupt m i v code)
  then have "tabs m = init_tables g" by (simp add: machine_ok_def)
  then show ?case
    using interrupt disciplined_handler [of g i v code g "init_tables g"] by (auto simp: machine_ok_def)
qed (rule quiet_step_ok)

lemma machine_reach_ok: "machine_reach drv m m' \<Longrightarrow> machine_ok g m \<Longrightarrow> machine_ok g m'"
  unfolding machine_reach_def by (induction rule: rtranclp_induct) (auto intro: machine_step_ok)

text \<open>A disciplined machine can always execute the next instruction of its top frame.\<close>

lemma disciplined_loads:
  assumes "disciplined g e b bs h t (i # is)" and "is_load i"
  shows "\<exists>t'. load_instr i t = Some t'"
  using assms by (cases i) (auto split: option.splits if_splits)

lemma machine_ok_progress:
  assumes "machine_ok g m" and "frames m = (i # is) # fs"
  shows "\<exists>m'. execute_instr drv i is fs m m'"
proof -
  have w: "writer_ok (vga m)" and d: "disciplined g (fs = []) (if_flag m) (saved_flags m) (held m) (tabs m) (i # is)"
    using assms by (auto simp: machine_ok_def)
  show ?thesis
  proof (cases "is_load i")
    case True
    then show ?thesis using disciplined_loads [OF d] by (blast intro: execute_instr.load)
  next
    case False
    show ?thesis
    proof (cases i)
      case Restore
      then obtain b bs where "saved_flags m = b # bs" using d by (cases "saved_flags m") auto
      then show ?thesis using Restore by (auto intro: execute_instr.intros)
    next
      case (Vga_write s)
      then show ?thesis using write_string_total [OF w, of s] by (auto intro: execute_instr.intros)
    next
      case Read_scancode
      obtain code k where "decode_scancode drv 0 (kbd m) = (code, k)" by fastforce
      then show ?thesis using Read_scancode by (auto intro: execute_instr.intros)
    qed (use d False in \<open>auto intro: execute_instr.intros\<close>)
  qed
qed

lemma machine_ok_quiet:
  assumes "machine_ok g m" and "frames m \<noteq> [[]]"
  shows "\<exists>m'. quiet_step drv m m'"
proof -
  obtain code rest where f: "frames m = code # rest" using assms(1) by (auto simp: machine_ok_def)
  show ?thesis
  proof (cases code)
    case Nil
    then obtain f fs where "frames m = [] # f # fs" using f assms(2) by (cases rest) auto
    then show ?thesis using quiet_step.iret by blast
  next
    case (Cons i "is")
    then show ?thesis using machine_ok_progress [OF assms(1)] f quiet_step.exec by blast
  qed
qed

text \<open>The kernel's thread is disciplined from power on.\<close>

lemma power_on_ok:
  assumes "writer_ok w" and "selectors_ok g"
  shows "machine_ok g (power_on t w k (kernel_thread g before after))"
proof -
  have "disciplined g True True [] {} (init_tables g) (concat (map print_console after))"
    using disciplined_console [of g True True "init_tables g" "[]" after] by simp
  then have "disciplined g True False [] {} t (kernel_thread g before after)"
    unfolding kernel_thread_def by (intro disciplined_console disciplined_init assms(2)) simp_all
  then show ?thesis using assms(1) by (simp add: machine_ok_def power_on_def)
qed

subsection \<open>End of interrupt\<close>

fun eois :: "instr list \<Rightarrow> nat list" where
  "eois [] = []"
| "eois (Notify_end_of_interrupt v # is) = v # eois is"
| "eois (i # is) = eois is"

lemma eois_append [simp]: "eois (xs @ ys) = eois xs @ eois ys"
  by (induction xs rule: eois.induct) auto

lemma eois_decode: "decode_scancode drv sc k = (code, k') \<Longrightarrow> eois code = []"
  using decoded_cases by (fastforce simp: vga_print_def)

lemma eois_load: "load_instr i t = Some t' \<Longrightarrow> eois (i # is) = eois is"
  by (cases i) simp_all

text \<open>Each handler signals the vector it was started for.\<close>

lemma eois_handler: "dispatch t i = Some (v, code) \<Longrightarrow> t = init_tables g \<Longrightarrow> eois code = [v]"
  by (cases i) (auto simp: dispatch_init timer_interrupt_handler_def keyboard_interrupt_handler_def)

lemma eois_console: "eois (concat (map print_console cs)) = []"
  by (induction cs) (auto simp: print_console_def vga_print_def serial_print_def split: console.splits)

lemma kernel_thread_eois: "eois (kernel_thread g before after) = []"
  by (simp add: kernel_thread_def eois_console lib_init_def gdt_init_def init_idt_def)

definition acknowledged :: "'k machine \<Rightarrow> bool" where
  "acknowledged m \<longleftrightarrow> mset (delivered m) = mset (eoi_log m) + mset (concat (map eois (frames m)))"

subsection \<open>Serial output\<close>

text \<open>What code sends to the serial line: handlers send nothing.\<close>

fun serials :: "instr list \<Rightarrow> string" where
  "serials [] = []"
| "serials (Serial_write s # is) = s @ serials is"
| "serials (i # is) = serials is"

lemma serials_append [simp]: "serials (xs @ ys) = serials xs @ serials ys"
  by (induction xs rule: serials.induct) auto

lemma serials_decode: "decode_scancode drv sc k = (code, k') \<Longrightarrow> serials code = []"
  using decoded_cases by (fastforce simp: vga_print_def)

lemma serials_load: "load_instr i t = Some t' \<Longrightarrow> serials (i # is) = serials is"
  by (cases i) simp_all

lemma serials_handler: "dispatch t i = Some (v, code) \<Longrightarrow> t = init_tables g \<Longrightarrow> serials code = []"
  by (cases i) (auto simp: dispatch_init timer_interrupt_handler_def keyboard_interrupt_handler_def)

definition serial_text :: "console list \<Rightarrow> string" where
  "serial_text cs = concat (map (\<lambda>c. case c of Serial s \<Rightarrow> s | Vga s \<Rightarrow> []) cs)"

lemma serials_console: "serials (concat (map print_console cs)) = serial_text cs"
  by (induction cs) (auto simp: serial_text_def print_console_def vga_print_def serial_print_def split: console.splits)

lemma kernel_thread_serials: "serials (kernel_thread g before after) = serial_text (before @ after)"
  by (simp add: kernel_thread_def serials_console lib_init_def gdt_init_def init_idt_def serial_text_def)

text \<open>Text sent and text ahead, in the order of the frames.\<close>

definition serial_total :: "'k machine \<Rightarrow> string" where
  "serial_total m = serial_out m @ concat (map serials (frames m))"

lemma accounts_quiet:
  assumes "quiet_step drv m m'"
  shows "acknowledged m \<Longrightarrow> acknowledged m'" and "serial_total m' = serial_total m"
  using assms
proof (induction rule: quiet_step.induct)
  case (exec m i "is" fs m')
  have "(acknowledged m \<longrightarrow> acknowledged m') \<and> serial_total m' = serial_total m"
    using exec(2,1)
  proof (induction rule: execute_instr.induct)
    case (scan scancode m code k "is" fs)
    then show ?case by (simp add: acknowledged_def serial_total_def eois_decode serials_decode)
  next
    case (load i m t "is" fs)
    then show ?case using eois_load [OF load(1)] serials_load [OF load(1)] by (simp add: acknowledged_def serial_total_def)
  qed (simp_all add: acknowledged_def serial_total_def)
  then show "acknowledged m \<Longrightarrow> acknowledged m'" "serial_total m' = serial_total m" by blast+
qed (simp_all add: acknowledged_def serial_total_def)

lemma accounts_step:
  assumes "machine_step drv m m'" and "machine_ok g m" and "acknowledged m"
  shows "acknowledged m' \<and> serial_total m' = serial_total m"
  using assms
proof (induction rule: machine_step.induct)
  case (interrupt m i v code)
  then have t: "tabs m = init_tables g" by (simp add: machine_ok_def)
  show ?case
    using interrupt(4) eois_handler [OF interrupt(2) t] serials_handler [OF interrupt(2) t]
    by (simp add: acknowledged_def serial_total_def)
qed (simp add: accounts_quiet)

lemma accounts_reach:
  assumes "machine_reach drv m m'" and "machine_ok g m" and "acknowledged m"
  shows "acknowledged m' \<and> serial_total m' = serial_total m"
proof -
  have "acknowledged m' \<and> serial_total m' = serial_total m \<and> machine_ok g m'"
    using assms unfolding machine_reach_def
    by (induction rule: rtranclp_induct) (auto intro: accounts_step machine_step_ok dest: accounts_step)
  then show ?thesis by blast
qed

subsection \<open>Termination\<close>

text \<open>
  The work ahead: one for each instruction and each frame, and for reading the keyboard one more than the
  five instructions of a print.
\<close>

fun instr_work :: "instr \<Rightarrow> nat" where
  "instr_work Read_scancode = 6"
| "instr_work i = 1"

definition machine_work :: "'k machine \<Rightarrow> nat" where
  "machine_work m = sum_list (map (\<lambda>f. 1 + sum_list (map instr_work f)) (frames m))"

lemma work_decode:
  assumes "decode_scancode drv sc k = (code, k')"
  shows "sum_list (map instr_work code) \<le> 5"
  using decoded_cases [OF assms] by (auto simp: vga_print_def)

lemma instr_work_pos: "1 \<le> instr_work i"
  by (cases i) simp_all

lemma quiet_work:
  assumes "quiet_step drv m m'"
  shows "machine_work m' < machine_work m"
  using assms
proof (induction rule: quiet_step.induct)
  case (exec m i "is" fs m')
  from exec(2,1) show ?case
  proof (induction rule: execute_instr.induct)
    case (load i m t "is" fs)
    then show ?case using instr_work_pos [of i] by (simp add: machine_work_def)
  next
    case (scan scancode m code k "is" fs)
    then show ?case using work_decode [OF scan(1)] by (simp add: machine_work_def)
  qed (simp_all add: machine_work_def)
qed (simp add: machine_work_def)

lemma quiet_bounded:
  assumes "(quiet_step drv ^^ n) m m'"
  shows "n + machine_work m' \<le> machine_work m"
  using assms
proof (induction n arbitrary: m')
  case (Suc n)
  then obtain m1 where m1: "(quiet_step drv ^^ n) m m1" "quiet_step drv m1 m'" by auto
  then show ?case using Suc.IH [OF m1(1)] quiet_work [OF m1(2)] by simp
qed simp

lemma quiet_reach: "(quiet_step drv)\<^sup>*\<^sup>* m m' \<Longrightarrow> machine_reach drv m m'"
  unfolding machine_reach_def by (induction rule: rtranclp_induct) (auto intro: machine_step.quiet_machine rtranclp.rtrancl_into_rtrancl)

lemma quiet_finishes:
  assumes "machine_ok g m"
  shows "\<exists>m'. (quiet_step drv)\<^sup>*\<^sup>* m m' \<and> frames m' = [[]]"
  using assms
proof (induction "machine_work m" arbitrary: m rule: less_induct)
  case less
  show ?case
  proof (cases "frames m = [[]]")
    case False
    then obtain m1 where m1: "quiet_step drv m m1" using machine_ok_quiet [OF less.prems] by blast
    then show ?thesis
      using less.hyps [OF quiet_work [OF m1] quiet_step_ok [OF m1 less.prems]] by (blast intro: converse_rtranclp_into_rtranclp)
  qed blast
qed

text \<open>An idle machine waits with interrupts enabled, no lock held and nothing left to acknowledge.\<close>

lemma idle_machine:
  assumes "machine_ok g m" and "acknowledged m" and "frames m = [[]]"
  shows "if_flag m \<and> held m = {} \<and> saved_flags m = [] \<and> mset (delivered m) = mset (eoi_log m) \<and> serial_out m = serial_total m"
  using assms by (auto simp: machine_ok_def acknowledged_def serial_total_def)

lemma power_on_accounts:
  "acknowledged (power_on t w k (kernel_thread g before after))"
  "serial_total (power_on t w k (kernel_thread g before after)) = serial_text (before @ after)"
  by (simp_all add: acknowledged_def serial_total_def power_on_def kernel_thread_eois kernel_thread_serials)

lemma GDT_selectors:
  assumes "gdt_contract L" and "x86_addresses X" and "stack_start + STACK_SIZE < virt_bound" and "GDT X L stack_start = Inr g"
  shows "selectors_ok g \<and> double_fault_stack (init_tables g) = Some (stack_start + STACK_SIZE)"
  using gdt_contract.GDT_built [OF assms(1-3)] assms(4)
  by (auto simp: selectors_ok_def double_fault_stack_def init_tables_def IDT_def as_usize_def as_u8_def PIC_1_OFFSET_def DOUBLE_FAULT_IST_INDEX_def)

subsection \<open>Properties\<close>

text \<open>
  C8: whatever the kernel prints before and after initialisation, and whenever timer and keyboard
  interrupts arrive, the machine never stands before a lock that is already held: the print functions
  disable interrupts while they hold a lock, so a handler that prints cannot spin for ever. The next
  instruction of the running frame can always be executed.
\<close>

theorem kernel_never_deadlocks:
  assumes "gdt_contract L" and "x86_addresses X" and "stack_start + STACK_SIZE < virt_bound" and "GDT X L stack_start = Inr g"
    and "writer_ok w" and "machine_reach drv (power_on t w k (kernel_thread g before after)) m"
    and "frames m = (i # is) # fs"
  shows "(\<forall>l. i = Lock_acquire l \<longrightarrow> l \<notin> held m) \<and> (\<exists>m'. machine_step drv m m' \<and> execute_instr drv i is fs m m')"
proof -
  have ok: "machine_ok g m"
    using machine_reach_ok [OF assms(6) power_on_ok [OF assms(5)]] GDT_selectors [OF assms(1-4)] by blast
  then have "disciplined g (fs = []) (if_flag m) (saved_flags m) (held m) (tabs m) (i # is)"
    using assms(7) by (auto simp: machine_ok_def)
  moreover obtain m' where "execute_instr drv i is fs m m'"
    using machine_ok_progress [OF ok assms(7)] by blast
  ultimately show ?thesis using assms(7) by (auto intro: machine_step.intros quiet_step.exec)
qed

definition echo_driver :: "(unit, nat) keyboard_driver" where
  "echo_driver = \<lparr>add_byte = (\<lambda>k sc. (Inr (Some sc), k)), process_keyevent = (\<lambda>k ev. (Some (Unicode [char_of ev]), k))\<rparr>"

definition reset_tables :: cpu_tables where
  "reset_tables = \<lparr>gdtr = Map.empty, cs_reg = 0, task_reg = 0, idtr = Map.empty, pic_offsets = None\<rparr>"

lemma example_stack: "0x200000 + STACK_SIZE < virt_bound"
  by (simp add: STACK_SIZE_def virt_bound_def)

lemma example_gdt: "\<exists>g. GDT x86_documented x86_64_gdt 0x200000 = Inr g"
  using xg.GDT_built [OF xd.x86_addresses_axioms example_stack] by auto

lemmas example_gdt_laws = xg.gdt_contract_axioms xd.x86_addresses_axioms example_stack

abbreviation example_machine :: "gdt \<times> selectors \<Rightarrow> console list \<Rightarrow> unit machine" where
  "example_machine g before \<equiv> power_on reset_tables (WRITER_init blank_screen) () (kernel_thread g before [])"

lemma example_idle:
  assumes "GDT x86_documented x86_64_gdt 0x200000 = Inr g"
  shows "\<exists>m. machine_reach echo_driver (example_machine g before) m \<and> if_flag m"
proof -
  have s: "selectors_ok g" using GDT_selectors [OF example_gdt_laws assms] by blast
  note ok = power_on_ok [OF blank_screen_ok s, of reset_tables "()" before "[]"]
  obtain m where m: "(quiet_step echo_driver)\<^sup>*\<^sup>* (example_machine g before) m" "frames m = [[]]"
    using quiet_finishes [OF ok] by blast
  have r: "machine_reach echo_driver (example_machine g before) m" by (rule quiet_reach [OF m(1)])
  have "machine_ok g m \<and> acknowledged m"
    using machine_reach_ok [OF r ok] accounts_reach [OF r ok power_on_accounts(1)] by blast
  then show ?thesis using idle_machine [OF _ _ m(2)] r by blast
qed

theorem kernel_never_deadlocks_witness:
  "\<exists>g m'. GDT x86_documented x86_64_gdt 0x200000 = Inr g \<and>
     execute_instr echo_driver Save_and_disable (tl (kernel_thread g [vga_println ''boot''] [])) []
       (power_on reset_tables (WRITER_init blank_screen) () (kernel_thread g [vga_println ''boot''] [])) m'"
proof -
  obtain g where g: "GDT x86_documented x86_64_gdt 0x200000 = Inr g" using example_gdt by blast
  let ?m = "power_on reset_tables (WRITER_init blank_screen) () (kernel_thread g [vga_println ''boot''] [])"
  have r: "machine_reach echo_driver ?m ?m" by (simp add: machine_reach_def)
  have f: "frames ?m = (Save_and_disable # tl (kernel_thread g [vga_println ''boot''] [])) # []"
    by (simp add: power_on_def kernel_thread_def vga_println_def print_console_def vga_print_def)
  from kernel_never_deadlocks [OF example_gdt_laws g blank_screen_ok r f] g show ?thesis by blast
qed

text \<open>
  C9: interrupts are enabled only once the processor can take them: in every machine in which one may arrive, the
  lines of the timer and the keyboard start their own handlers at their own vectors, the code selector names the
  kernel's code segment, and a double fault is handled on the top of its own stack.
\<close>

theorem interrupts_find_handlers:
  assumes "gdt_contract L" and "x86_addresses X" and "stack_start + STACK_SIZE < virt_bound" and "GDT X L stack_start = Inr g"
    and "writer_ok w" and "machine_reach drv (power_on t w k (kernel_thread g before after)) m" and "if_flag m"
  shows "dispatch (tabs m) Timer = Some (as_u8 Timer, timer_interrupt_handler) \<and>
    dispatch (tabs m) Keyboard = Some (as_u8 Keyboard, keyboard_interrupt_handler) \<and>
    gdtr (tabs m) (cs_reg (tabs m)) = Some Kernel_code_segment \<and>
    double_fault_stack (tabs m) = Some (stack_start + STACK_SIZE) \<and> held m = {}"
proof -
  have s: "selectors_ok g \<and> double_fault_stack (init_tables g) = Some (stack_start + STACK_SIZE)"
    by (rule GDT_selectors [OF assms(1-4)])
  then have "machine_ok g m" using machine_reach_ok [OF assms(6) power_on_ok [OF assms(5)]] by blast
  then have "tabs m = init_tables g" "held m = {}" using assms(7) by (simp_all add: machine_ok_def)
  then show ?thesis using s by (simp add: dispatch_init) (simp add: selectors_ok_def init_tables_def)
qed

theorem interrupts_find_handlers_witness:
  "\<exists>g m. GDT x86_documented x86_64_gdt 0x200000 = Inr g \<and>
     machine_reach echo_driver (example_machine g [vga_println ''boot'']) m \<and> if_flag m \<and>
     dispatch (tabs m) Keyboard = Some (33, keyboard_interrupt_handler) \<and> double_fault_stack (tabs m) = Some 0x205000"
proof -
  obtain g where g: "GDT x86_documented x86_64_gdt 0x200000 = Inr g" using example_gdt by blast
  obtain m where m: "machine_reach echo_driver (example_machine g [vga_println ''boot'']) m" "if_flag m"
    using example_idle [OF g] by blast
  show ?thesis
    using interrupts_find_handlers [OF example_gdt_laws g blank_screen_ok m] g m
    by (auto simp: as_u8_def PIC_1_OFFSET_def STACK_SIZE_def)
qed

text \<open>
  C10: the kernel's thread always gets to its halt loop. From every machine it can reach, with any interrupts so far,
  the work ahead bounds the number of steps until the next interrupt; a machine that cannot take such a step is
  idle in the halt loop, and one that is idle has interrupts enabled and no lock held, has acknowledged every
  interrupt, and has sent exactly the kernel's own lines, in order, to the serial line.
\<close>

theorem kernel_thread_finishes:
  assumes "gdt_contract L" and "x86_addresses X" and "stack_start + STACK_SIZE < virt_bound" and "GDT X L stack_start = Inr g"
    and "writer_ok w" and "machine_reach drv (power_on t w k (kernel_thread g before after)) m"
  shows "(\<forall>n m'. (quiet_step drv ^^ n) m m' \<longrightarrow> n \<le> machine_work m) \<and>
    (\<exists>m'. (quiet_step drv)\<^sup>*\<^sup>* m m' \<and> frames m' = [[]]) \<and>
    ((\<nexists>m'. quiet_step drv m m') \<longrightarrow> frames m = [[]]) \<and>
    (frames m = [[]] \<longrightarrow> if_flag m \<and> held m = {} \<and> mset (delivered m) = mset (eoi_log m) \<and> serial_out m = serial_text (before @ after))"
proof -
  let ?m0 = "power_on t w k (kernel_thread g before after)"
  have ok0: "machine_ok g ?m0" by (intro power_on_ok assms(5) GDT_selectors [OF assms(1-4), THEN conjunct1])
  have ok: "machine_ok g m" by (rule machine_reach_ok [OF assms(6) ok0])
  have a: "acknowledged m \<and> serial_total m = serial_text (before @ after)"
    using accounts_reach [OF assms(6) ok0 power_on_accounts(1)] power_on_accounts(2) [of t w k g before after] by simp
  show ?thesis
    using quiet_finishes [OF ok] machine_ok_quiet [OF ok] quiet_bounded idle_machine [OF ok] a by fastforce
qed


theorem kernel_thread_finishes_witness:
  "\<exists>g m. GDT x86_documented x86_64_gdt 0x200000 = Inr g \<and>
     machine_reach echo_driver (example_machine g [serial_println ''boot'']) m \<and> frames m = [[]] \<and> if_flag m \<and>
     serial_out m = ''boot'' @ [CHR 0x0A]"
proof -
  obtain g where g: "GDT x86_documented x86_64_gdt 0x200000 = Inr g" using example_gdt by blast
  let ?m0 = "example_machine g [serial_println ''boot'']"
  note finishes = kernel_thread_finishes [OF example_gdt_laws g blank_screen_ok, of echo_driver reset_tables "()" "[serial_println ''boot'']" "[]"]
  have "machine_reach echo_driver ?m0 ?m0" by (simp add: machine_reach_def)
  from finishes [OF this] obtain m where m: "(quiet_step echo_driver)\<^sup>*\<^sup>* ?m0 m" "frames m = [[]]" by blast
  show ?thesis
    using finishes [OF quiet_reach [OF m(1)]] quiet_reach [OF m(1)] g m(2)
    by (auto simp: serial_text_def serial_println_def)
qed

text \<open>
  C23: every interrupt is acknowledged exactly once, with its own vector: at any time the vectors
  delivered are, as a multiset, those already signalled to the interrupt controllers and those still
  ahead in the handlers on the stack; when only the kernel's thread is left, all are signalled.
\<close>

theorem interrupts_acknowledged_once:
  assumes "gdt_contract L" and "x86_addresses X" and "stack_start + STACK_SIZE < virt_bound" and "GDT X L stack_start = Inr g"
    and "writer_ok w" and "machine_reach drv (power_on t w k (kernel_thread g before after)) m"
  shows "mset (delivered m) = mset (eoi_log m) + mset (concat (map eois (frames m)))"
  using accounts_reach [OF assms(6) power_on_ok power_on_accounts(1)] assms(5) GDT_selectors [OF assms(1-4)]
  by (simp add: acknowledged_def)

theorem interrupts_acknowledged_once_witness:
  "\<exists>g m. GDT x86_documented x86_64_gdt 0x200000 = Inr g \<and> machine_reach echo_driver (example_machine g []) m \<and>
     33 \<in># mset (delivered m) \<and> mset (delivered m) = mset (eoi_log m) + mset (concat (map eois (frames m)))"
proof -
  obtain g where g: "GDT x86_documented x86_64_gdt 0x200000 = Inr g" using example_gdt by blast
  obtain m where m: "machine_reach echo_driver (example_machine g []) m" "if_flag m"
    using example_idle [OF g] by blast
  have "dispatch (tabs m) Keyboard = Some (33, keyboard_interrupt_handler)"
    using machine_reach_ok [OF m(1) power_on_ok [OF blank_screen_ok]] GDT_selectors [OF example_gdt_laws g] m(2)
    by (auto simp: machine_ok_def dispatch_init as_u8_def PIC_1_OFFSET_def)
  from machine_step.interrupt [OF m(2) this] m(1)
  have r: "machine_reach echo_driver (example_machine g [])
    (m\<lparr>if_flag := False, delivered := delivered m @ [33], frames := keyboard_interrupt_handler # frames m\<rparr>)"
    unfolding machine_reach_def by (rule rtranclp.rtrancl_into_rtrancl [rotated])
  from interrupts_acknowledged_once [OF example_gdt_laws g blank_screen_ok r] r g show ?thesis by fastforce
qed

end
