(* ===== verification/KernelMain.thy ===== *)
theory KernelMain
  imports Agent KernelMemory BootInfoMap Interrupts
begin

text \<open>
  The kernel's entry point (\<^verbatim>\<open>src/main.rs\<close>), its panic handler and the test runner of
  \<^verbatim>\<open>src/lib.rs\<close>. \<open>kernel_main\<close> composes the components in the order of the code: banner, hardware
  initialisation, page table and frame allocator, heap, agent. It returns the text printed before and
  after the initialisation of the hardware, which is what the kernel's thread of \<open>Interrupts\<close>
  prints, and how the run ends: in the halt loop or in the panic handler.

  The frame in register CR3 and the page table seen at a virtual address are arguments, and so is
  the text \<open>info\<close> a panic is displayed as.
\<close>

subsection \<open>Entry point\<close>

definition active_level_4_table :: "x86 \<Rightarrow> u64 \<Rightarrow> u64 \<Rightarrow> u64 rust" where
  "active_level_4_table X physical_memory_offset cr3 = virt_add X physical_memory_offset cr3"

text \<open>
  The mapper works on the page table the pointer leads to. What is seen at a virtual address is the argument
  \<open>table_at\<close>: with a wrong offset the pointer leads elsewhere.
\<close>

definition memory_init :: "x86 \<Rightarrow> (u64 \<Rightarrow> 'pt) \<Rightarrow> u64 \<Rightarrow> u64 \<Rightarrow> 'pt rust" where
  "memory_init X table_at physical_memory_offset cr3 =
     bind_rust (active_level_4_table X physical_memory_offset cr3) (\<lambda>level_4_table. Inr (table_at level_4_table))"

definition banner :: "console list" where
  "banner =
     [vga_println ''=================================='',
      vga_println ''  LLM OS v0.1.0'',
      vga_println ''  An AI-First Operating System'',
      vga_println ''=================================='',
      serial_println ''[kernel] Booting LLM OS...'']"

record ('pt, 'h) kernel =
  k_page_table :: 'pt
  k_frame_allocator :: boot_info_frame_allocator
  k_heap :: heap
  k_agent :: 'h

text \<open>
  The kernel is built with the feature that gives the boot information its offset field; without it
  the code does not compile, which is the first case.
\<close>

definition start_memory ::
  "('pt, boot_info_frame_allocator) map_to \<Rightarrow> x86 \<Rightarrow> profile \<Rightarrow> u64 \<Rightarrow> (u64 \<Rightarrow> 'pt) \<Rightarrow> boot_info \<Rightarrow>
   ('pt \<times> boot_info_frame_allocator \<times> heap) rust" where
  "start_memory map_to X p cr3 table_at info =
     (case bi_physical_memory_offset info of
        None \<Rightarrow> Inl (Explicit_panic ''no physical memory offset'')
      | Some offset \<Rightarrow>
          if offset = 0
          then Inl (Explicit_panic ''Physical memory offset is 0! Bootloader failed to map memory.'')
          else bind_rust (virt_addr_new X offset) (\<lambda>phys_mem_offset.
            bind_rust (memory_init X table_at phys_mem_offset cr3) (\<lambda>mapper.
              bind_rust (init_heap map_to (bfa_allocate_frame X p) mapper (bfa_init (bi_memory_map info)) None)
                (\<lambda>(r, pt', fa', h).
                   case r of
                     Inl e \<Rightarrow> Inl (Unwrap_failed ''heap initialization failed'')
                   | Inr _ \<Rightarrow> Inr (pt', fa', h)))))"

definition start_agent :: "profile \<Rightarrow> (agent \<times> console list) rust" where
  "start_agent p =
     bind_rust (boot p agent_new) (\<lambda>(ag, out).
       Inr (ag,
         [vga_println '''', vga_println ''Hardware initialized.'', vga_println ''Starting Agent runtime...'',
          serial_println ''[kernel] Starting Agent runtime...''] @ out @
         [vga_println '''', vga_println ''Agent is alive. Entering run loop.'',
          serial_println ''[kernel] Agent run loop started'']))"

datatype ('pt, 'h) ending = Hlt_loop "('pt, 'h) kernel" | Panicked panic

definition panic_handler :: "(panic \<Rightarrow> string) \<Rightarrow> panic \<Rightarrow> console list" where
  "panic_handler info e = [vga_println (''KERNEL PANIC: '' @ info e), serial_println (''KERNEL PANIC: '' @ info e)]"

text \<open>The second component is what is printed once interrupts are enabled.\<close>

definition kernel_main ::
  "(panic \<Rightarrow> string) \<Rightarrow> ('pt, boot_info_frame_allocator) map_to \<Rightarrow> x86 \<Rightarrow> profile \<Rightarrow> u64 \<Rightarrow> (u64 \<Rightarrow> 'pt) \<Rightarrow> boot_info \<Rightarrow>
   console list \<times> console list \<times> ('pt, agent) ending" where
  "kernel_main info map_to X p cr3 table_at bi =
     (banner,
      (let ready = [serial_println ''[kernel] GDT, IDT, PIC initialized'']
       in case start_memory map_to X p cr3 table_at bi of
            Inl e \<Rightarrow> (ready @ panic_handler info e, Panicked e)
          | Inr (pt', fa', h) \<Rightarrow>
              (let mem = ready @ [serial_println ''[kernel] Heap allocator initialized'']
               in case start_agent p of
                    Inl e \<Rightarrow> (mem @ panic_handler info e, Panicked e)
                  | Inr (ag, out) \<Rightarrow>
                      (mem @ out,
                       Hlt_loop \<lparr>k_page_table = pt', k_frame_allocator = fa', k_heap = h, k_agent = ag\<rparr>))))"

text \<open>The macro \<^verbatim>\<open>entry_point!\<close>: the symbol the bootloader calls passes the boot information on.\<close>

definition impl_start :: "(boot_info \<Rightarrow> 'a) \<Rightarrow> boot_info \<Rightarrow> 'a" where
  "impl_start path boot_info = path boot_info"

subsection \<open>Test runner\<close>

datatype qemu_exit_code = Success | Failed

definition exit_code_u32 :: "qemu_exit_code \<Rightarrow> nat" where
  "exit_code_u32 c = (case c of Success \<Rightarrow> 0x10 | Failed \<Rightarrow> 0x11)"

datatype device = Line console | Exit_port nat

text \<open>
  A test is its name and its outcome: a test that panics enters the panic handler of the test build,
  which reports and leaves the machine, so that no later test runs.
\<close>

definition test_panic_handler :: "(panic \<Rightarrow> string) \<Rightarrow> panic \<Rightarrow> device list" where
  "test_panic_handler info e =
     [Line (serial_println (''[failed]'' @ [CHR 0x0A])), Line (serial_println (''Error: '' @ info e @ [CHR 0x0A])),
      Exit_port (exit_code_u32 Failed)]"

fun run_tests :: "(panic \<Rightarrow> string) \<Rightarrow> (string \<times> unit rust) list \<Rightarrow> device list" where
  "run_tests info [] = [Exit_port (exit_code_u32 Success)]"
| "run_tests info ((name, result) # tests) =
     Line (Serial (name @ ''...'' @ [CHR 0x09])) #
     (case result of
        Inl e \<Rightarrow> test_panic_handler info e
      | Inr _ \<Rightarrow> Line (serial_println ''[ok]'') # run_tests info tests)"

definition test_runner :: "(panic \<Rightarrow> string) \<Rightarrow> (string \<times> unit rust) list \<Rightarrow> device list" where
  "test_runner info tests =
     Line (serial_println (''Running '' @ show_nat (length tests) @ '' tests'')) # run_tests info tests"

text \<open>
  The kernel of the test build initialises the hardware and runs the tests: the instructions and then what the
  devices see, before the halt loop.
\<close>

definition test_kernel_main ::
  "(panic \<Rightarrow> string) \<Rightarrow> gdt \<times> selectors \<Rightarrow> (string \<times> unit rust) list \<Rightarrow> boot_info \<Rightarrow> instr list \<times> device list" where
  "test_kernel_main info g tests boot_info = (lib_init g, test_runner info tests)"

subsection \<open>Lemmas\<close>

lemma start_agent_booted: "\<exists>out. start_agent p = Inr (booted, out)"
  using boot_new [of p] by (auto simp: start_agent_def)

lemma start_memory_heap:
  assumes x: "x86_addresses X" and m: "mapper map_to translate mappable"
    and off: "bi_physical_memory_offset bi = Some offset" "offset \<noteq> 0" "offset + cr3 < virt_bound" "table_at (offset + cr3) = pt"
    and map: "mm_wf (bi_memory_map bi)" "sole_usable (bi_memory_map bi)" "1024 \<le> card (usable (bi_memory_map bi))"
    and free: "\<forall>i < 256. mappable pt (HEAP_START + i * 4096)"
  shows "\<exists>pt' fa' fs. start_memory map_to X p cr3 table_at bi = Inr (pt', fa', Some (HEAP_START, HEAP_SIZE)) \<and>
    length fs = 256 \<and> distinct fs \<and> set fs \<subseteq> usable (bi_memory_map bi) \<and>
    (\<forall>i < 256. translate pt' (HEAP_START + i * 4096) = Some (fs ! i * 4096, {PRESENT, WRITABLE})) \<and>
    (\<forall>q. (\<forall>i < 256. q \<noteq> HEAP_START + i * 4096) \<longrightarrow> translate pt' q = translate pt q)"
proof -
  obtain pt' fa' fs flushed where
    r: "init_heap map_to (bfa_allocate_frame X p) pt (bfa_init (bi_memory_map bi)) None =
      Inr (Inr flushed, pt', fa', Some (HEAP_START, HEAP_SIZE))"
    "length fs = 256" "distinct fs" "set fs \<subseteq> usable (bi_memory_map bi)"
    "\<forall>i < 256. translate pt' (HEAP_START + i * 4096) = Some (fs ! i * 4096, {PRESENT, WRITABLE})"
    "\<forall>q. (\<forall>i < 256. q \<noteq> HEAP_START + i * 4096) \<longrightarrow> translate pt' q = translate pt q"
    using init_heap_mapped [OF x m map free, of p None] by blast
  have "virt_addr_new X offset = Inr offset" "virt_add X offset cr3 = Inr (offset + cr3)"
    using off(3) x86_addresses.virt_valid [OF x, of offset] x86_addresses.virt_add_valid [OF x, of offset cr3] by simp_all
  then show ?thesis
    using off(1,2,4) r by (auto simp: start_memory_def memory_init_def active_level_4_table_def)
qed

lemma run_tests_last:
  "last (run_tests info tests) =
     Exit_port (exit_code_u32 (if \<forall>(name, r) \<in> set tests. r = Inr () then Success else Failed))"
proof (induction tests)
  case (Cons t tests)
  obtain name r where t: "t = (name, r)" by force
  have ne: "run_tests info tests \<noteq> []" by (cases tests) auto
  show ?case
  proof (cases r)
    case (Inl e)
    then show ?thesis by (auto simp: t test_panic_handler_def)
  next
    case (Inr u)
    then show ?thesis using Cons ne by (simp add: t)
  qed
qed simp

lemma kernel_main_boots:
  assumes "x86_addresses X" and "mapper map_to translate mappable"
    and "bi_physical_memory_offset bi = Some offset" and "offset \<noteq> 0" and "offset + cr3 < virt_bound"
    and "table_at (offset + cr3) = pt" and "mm_wf (bi_memory_map bi)" and "sole_usable (bi_memory_map bi)"
    and "1024 \<le> card (usable (bi_memory_map bi))"
    and "\<forall>i < 256. mappable pt (HEAP_START + i * 4096)"
  shows "\<exists>after k fs. kernel_main info map_to X p cr3 table_at bi = (banner, after, Hlt_loop k) \<and>
    agent_inv (k_agent k) \<and> messages (ctx (k_agent k)) = [new_message System system_prompt] \<and>
    k_heap k = Some (HEAP_START, HEAP_SIZE) \<and> length fs = 256 \<and> distinct fs \<and> set fs \<subseteq> usable (bi_memory_map bi) \<and>
    (\<forall>i < 256. translate (k_page_table k) (HEAP_START + i * 4096) = Some (fs ! i * 4096, {PRESENT, WRITABLE})) \<and>
    (\<forall>q. (\<forall>i < 256. q \<noteq> HEAP_START + i * 4096) \<longrightarrow> translate (k_page_table k) q = translate pt q)"
proof -
  obtain pt' fa' fs where m: "start_memory map_to X p cr3 table_at bi = Inr (pt', fa', Some (HEAP_START, HEAP_SIZE))"
    "length fs = 256" "distinct fs" "set fs \<subseteq> usable (bi_memory_map bi)"
    "\<forall>i < 256. translate pt' (HEAP_START + i * 4096) = Some (fs ! i * 4096, {PRESENT, WRITABLE})"
    "\<forall>q. (\<forall>i < 256. q \<noteq> HEAP_START + i * 4096) \<longrightarrow> translate pt' q = translate pt q"
    using start_memory_heap [where table_at = table_at, OF assms] by blast
  obtain out where "start_agent p = Inr (booted, out)" using start_agent_booted by blast
  then have "\<exists>after. kernel_main info map_to X p cr3 table_at bi =
      (banner, after, Hlt_loop \<lparr>k_page_table = pt', k_frame_allocator = fa',
         k_heap = Some (HEAP_START, HEAP_SIZE), k_agent = booted\<rparr>)"
    using m(1) by (simp add: kernel_main_def Let_def)
  then show ?thesis
    using m(2-6) agent_inv_booted by (fastforce simp: booted_def prompt_message_def)
qed

subsection \<open>Properties\<close>

text \<open>
  C5: with a physical memory offset that is not zero and at which the active page table is seen, a well-formed boot map without overlapping usable
  regions and with 1024 usable frames, and an unmapped heap range, the kernel boots: it never panics
  and enters the halt loop with the heap mapped page by page to distinct usable frames and a ready
  agent whose window holds the system prompt; no other page is remapped.
\<close>

theorem kernel_boots:
  assumes "x86_addresses X" and "mapper map_to translate mappable"
    and "bi_physical_memory_offset bi = Some offset" and "offset \<noteq> 0" and "offset + cr3 < virt_bound"
    and "table_at (offset + cr3) = pt" and "mm_wf (bi_memory_map bi)" and "sole_usable (bi_memory_map bi)"
    and "1024 \<le> card (usable (bi_memory_map bi))"
    and "\<forall>i < 256. mappable pt (HEAP_START + i * 4096)"
  shows "\<exists>after k fs. kernel_main info map_to X p cr3 table_at bi = (banner, after, Hlt_loop k) \<and>
    agent_inv (k_agent k) \<and> messages (ctx (k_agent k)) = [new_message System system_prompt] \<and>
    k_heap k = Some (HEAP_START, HEAP_SIZE) \<and> length fs = 256 \<and> distinct fs \<and> set fs \<subseteq> usable (bi_memory_map bi) \<and>
    (\<forall>i < 256. translate (k_page_table k) (HEAP_START + i * 4096) = Some (fs ! i * 4096, {PRESENT, WRITABLE})) \<and>
    (\<forall>q. (\<forall>i < 256. q \<noteq> HEAP_START + i * 4096) \<longrightarrow> translate (k_page_table k) q = translate pt q)"
  using kernel_main_boots [where table_at = table_at, OF assms] .

definition small_boot_info :: boot_info where
  "small_boot_info = boot_info_new \<lparr>recursive_page_table = False, map_physical_memory = True\<rparr> small_map None 0 1649267441664"

theorem kernel_boots_witness:
  "x86_addresses x86_documented \<and> mm_wf (bi_memory_map small_boot_info) \<and>
   (\<exists>after k. kernel_main (\<lambda>_. '''') four_level_map_to x86_documented Release 4096
      (\<lambda>_. \<lparr>tables = {}, leaves = Map.empty\<rparr>) small_boot_info = (banner, after, Hlt_loop k) \<and>
      k_heap k = Some (HEAP_START, HEAP_SIZE))"
proof -
  have b: "bi_physical_memory_offset small_boot_info = Some 1649267441664" "bi_memory_map small_boot_info = small_map"
    by (simp_all add: small_boot_info_def boot_info_new_def)
  have "usable small_map = {0 ..< 159} \<union> {256 ..< 32736}"
    by (auto simp: usable_def small_map_owners split: if_splits)
  then have c: "1024 \<le> card (usable (bi_memory_map small_boot_info))"
    using card_mono [of "usable small_map" "{256 ..< 32736}"] b(2) by simp
  have w: "mm_wf (bi_memory_map small_boot_info)" "sole_usable (bi_memory_map small_boot_info)"
    using b(2) small_map_wf small_map_sole by simp_all
  show ?thesis
    using kernel_boots [where table_at = "\<lambda>_. \<lparr>tables = {}, leaves = Map.empty\<rparr>" and ?cr3.0 = 4096 and info = "\<lambda>_. ''''" and p = Release,
        OF xd.x86_addresses_axioms fl.mapper_axioms b(1) _ _ refl w c]
      xd.x86_addresses_axioms w(1) by (auto simp: virt_bound_def)
qed

text \<open>
  With a physical memory offset of zero the kernel does not touch memory management: it prints the
  panic on the screen and on the serial port, in this order, and halts.
\<close>

lemma kernel_main_zero_offset_panics:
  assumes "bi_physical_memory_offset bi = Some 0"
  shows "\<exists>e. kernel_main info map_to X p cr3 table_at bi =
    (banner, [serial_println ''[kernel] GDT, IDT, PIC initialized'', vga_println (''KERNEL PANIC: '' @ info e),
       serial_println (''KERNEL PANIC: '' @ info e)], Panicked e) \<and>
    e = Explicit_panic ''Physical memory offset is 0! Bootloader failed to map memory.''"
  using assms by (simp add: kernel_main_def start_memory_def panic_handler_def)

lemma kernel_main_zero_offset_panics_witness:
  "\<exists>e out. kernel_main (\<lambda>_. ''offset'') four_level_map_to x86_documented Debug 4096
     (\<lambda>_. \<lparr>tables = {}, leaves = Map.empty\<rparr>) (small_boot_info\<lparr>bi_physical_memory_offset := Some 0\<rparr>) = (banner, out, Panicked e)"
  using kernel_main_zero_offset_panics [of "small_boot_info\<lparr>bi_physical_memory_offset := Some 0\<rparr>"
      "\<lambda>_. ''offset''" four_level_map_to x86_documented Debug 4096 "\<lambda>_. \<lparr>tables = {}, leaves = Map.empty\<rparr>"] by auto

text \<open>
  The test runner reports success to the emulator (code \<^verbatim>\<open>0x10\<close>) exactly when every test returned;
  after a test that panicked it reports failure (\<^verbatim>\<open>0x11\<close>) and runs no further test.
\<close>

lemma test_runner_exit:
  "last (test_runner info tests) =
     Exit_port (if \<forall>(name, r) \<in> set tests. r = Inr () then 0x10 else 0x11)"
proof -
  have "run_tests info tests \<noteq> []" by (cases tests) (auto simp: test_panic_handler_def)
  then show ?thesis
    using run_tests_last [of info tests] by (auto simp: test_runner_def exit_code_u32_def)
qed

text \<open>
  The test kernel reports to the emulator as its last action, success exactly when every test returned; its
  initialisation leaves interrupts enabled and no lock held, so that the tests may print.
\<close>

lemma test_kernel_reports:
  assumes "selectors_ok g"
  shows "case impl_start (test_kernel_main info g tests) bi of (code, devices) \<Rightarrow>
    disciplined g True False [] {} t code \<and>
    last devices = Exit_port (if \<forall>(name, r) \<in> set tests. r = Inr () then 0x10 else 0x11)"
  using disciplined_init [OF assms, of True "[]" t] test_runner_exit [of info tests]
  by (simp add: impl_start_def test_kernel_main_def)

lemma test_runner_exit_witness:
  "last (test_runner (\<lambda>_. ''boom'') [(''a'', Inr ()), (''b'', Inl Index_out_of_bounds), (''c'', Inr ())]) = Exit_port 0x11"
  using test_runner_exit [of "\<lambda>_. ''boom''" "[(''a'', Inr ()), (''b'', Inl Index_out_of_bounds), (''c'', Inr ())]"] by simp

end
