(* ===== verification/Level4.thy ===== *)
theory Level4
  imports X86
begin

text \<open>
  The bookkeeping of level 4 page-table entries (\<^verbatim>\<open>bootloader/src/level4_entries.rs\<close>): which of the
  512 entries the kernel uses, and the search for a run of free ones. A program header is reduced to
  the fields the code reads; a type number the crate \<^verbatim>\<open>xmas_elf\<close> does not know is \<open>Invalid_type\<close>.
\<close>

datatype segment_type = Load | Tls | Other_type | Invalid_type

record program_header =
  ph_type :: segment_type
  ph_execute :: bool
  ph_write :: bool
  ph_offset :: u64
  ph_virtual_addr :: u64
  ph_file_size :: u64
  ph_mem_size :: u64

type_synonym level4 = "bool list"

definition mark_index :: "nat \<Rightarrow> level4 \<Rightarrow> level4 rust" where
  "mark_index i st = (if i < length st then Inr (st[i := True]) else Inl Index_out_of_bounds)"

fun mark_indices :: "nat list \<Rightarrow> level4 \<Rightarrow> level4 rust" where
  "mark_indices [] st = Inr st"
| "mark_indices (i # is) st = bind_rust (mark_index i st) (mark_indices is)"

definition mark_segment :: "x86 \<Rightarrow> profile \<Rightarrow> program_header \<Rightarrow> level4 \<Rightarrow> level4 rust" where
  "mark_segment X p seg st =
     bind_rust (virt_addr_new X (ph_virtual_addr seg)) (\<lambda>s.
       bind_rust (u64_add p (ph_virtual_addr seg) (ph_mem_size seg)) (\<lambda>sum.
         bind_rust (virt_addr_new X sum) (\<lambda>e.
           mark_indices [p4_index X (page_containing X s) ..< Suc (p4_index X (page_containing X e))] st)))"

fun mark_segments :: "x86 \<Rightarrow> profile \<Rightarrow> program_header list \<Rightarrow> level4 \<Rightarrow> level4 rust" where
  "mark_segments X p [] st = Inr st"
| "mark_segments X p (seg # segs) st = bind_rust (mark_segment X p seg st) (mark_segments X p segs)"

definition used_level4_entries_new :: "x86 \<Rightarrow> profile \<Rightarrow> program_header list \<Rightarrow> level4 rust" where
  "used_level4_entries_new X p segs = mark_segments X p segs ((replicate 512 False)[0 := True])"

text \<open>\<^verbatim>\<open>windows(num)\<close> panics on a size of zero; window \<open>i\<close> is the slice of \<open>num\<close> entries from \<open>i\<close> on.\<close>

definition window_free :: "level4 \<Rightarrow> nat \<Rightarrow> nat \<Rightarrow> bool" where
  "window_free st num i = list_all (\<lambda>entry. entry = False) (take num (drop i st))"

definition get_free_entries :: "u64 \<Rightarrow> level4 \<Rightarrow> (u64 \<times> level4) rust" where
  "get_free_entries num st =
     (if num = 0 then Inl (Explicit_panic ''window size must be non-zero'')
      else bind_rust (expect ''no usable level 4 entries found''
             (List.find (window_free st num) [0 ..< Suc (length st) - num])) (\<lambda>idx.
        bind_rust (mark_indices [idx ..< idx + num] st) (\<lambda>st'. Inr (idx, st'))))"

subsection \<open>Marking\<close>

lemma mark_indices_upt:
  assumes "b \<le> length st"
  shows "mark_indices [a ..< b] st = Inr (map (\<lambda>i. st ! i \<or> a \<le> i \<and> i < b) [0 ..< length st])"
  using assms
proof (induction "b - a" arbitrary: a st)
  case 0
  then have "map (\<lambda>i. st ! i \<or> a \<le> i \<and> i < b) [0 ..< length st] = st" by (intro nth_equalityI) auto
  with 0 show ?case by simp
next
  case (Suc n)
  let ?st = "st[a := True]"
  have "[a ..< b] = a # [Suc a ..< b]" using Suc.hyps(2) by (simp add: upt_conv_Cons)
  moreover have "mark_indices [Suc a ..< b] ?st =
      Inr (map (\<lambda>i. ?st ! i \<or> Suc a \<le> i \<and> i < b) [0 ..< length ?st])"
    using Suc.hyps(2) Suc.prems by (intro Suc.hyps(1)) simp_all
  moreover have "map (\<lambda>i. ?st ! i \<or> Suc a \<le> i \<and> i < b) [0 ..< length ?st] =
      map (\<lambda>i. st ! i \<or> a \<le> i \<and> i < b) [0 ..< length st]"
    using Suc.hyps(2) Suc.prems by (intro nth_equalityI) (auto simp: nth_list_update split: if_splits)
  ultimately show ?case using Suc.hyps(2) Suc.prems by (simp add: mark_index_def)
qed

lemma find_upt:
  "List.find P [0 ..< n] = Some i \<longleftrightarrow> i < n \<and> P i \<and> (\<forall>j < i. \<not> P j)"
  by (auto simp: find_Some_iff)

lemma window_free_iff:
  "i + num \<le> length st \<Longrightarrow> window_free st num i \<longleftrightarrow> (\<forall>j. i \<le> j \<and> j < i + num \<longrightarrow> \<not> st ! j)"
  by (auto simp: window_free_def list_all_length)
    (metis add_diff_inverse_nat less_diff_conv2 linorder_not_less add.commute nat_add_left_cancel_less)

definition entries_free :: "level4 \<Rightarrow> u64 \<Rightarrow> u64 \<Rightarrow> bool" where
  "entries_free st idx num \<longleftrightarrow> idx + num \<le> length st \<and> (\<forall>j. idx \<le> j \<and> j < idx + num \<longrightarrow> \<not> st ! j)"

lemma get_free_entries_cases:
  assumes "0 < num"
  shows "get_free_entries num st = Inl (Unwrap_failed ''no usable level 4 entries found'') \<and>
      (\<forall>idx. \<not> entries_free st idx num) \<or>
    (\<exists>idx. get_free_entries num st = Inr (idx, map (\<lambda>i. st ! i \<or> idx \<le> i \<and> i < idx + num) [0 ..< length st]) \<and>
      entries_free st idx num \<and> (\<forall>j < idx. \<not> entries_free st j num))"
proof -
  let ?find = "List.find (window_free st num) [0 ..< Suc (length st) - num]"
  have free: "entries_free st i num \<longleftrightarrow> i < Suc (length st) - num \<and> window_free st num i" for i
    using window_free_iff [of i num st] by (auto simp: entries_free_def)
  show ?thesis
  proof (cases ?find)
    case None
    then have "\<forall>i. \<not> entries_free st i num" using free by (auto simp: find_None_iff)
    with None show ?thesis using assms by (simp add: get_free_entries_def)
  next
    case (Some idx)
    then have "idx < Suc (length st) - num" "window_free st num idx" "\<forall>j < idx. \<not> window_free st num j"
      by (simp_all add: find_upt)
    moreover from this have "idx + num \<le> length st" by simp
    ultimately show ?thesis
      using Some assms mark_indices_upt [of "idx + num" st idx] free by (auto simp: get_free_entries_def)
  qed
qed

lemma get_free_entries_Inr:
  assumes "get_free_entries num st = Inr (idx, st')"
  shows "entries_free st idx num" and "length st' = length st"
    and "\<And>i. i < length st \<Longrightarrow> st' ! i \<longleftrightarrow> st ! i \<or> idx \<le> i \<and> i < idx + num"
proof -
  have "0 < num" using assms by (auto simp: get_free_entries_def split: if_splits)
  then have r: "st' = map (\<lambda>i. st ! i \<or> idx \<le> i \<and> i < idx + num) [0 ..< length st]" "entries_free st idx num"
    using get_free_entries_cases [of num st] assms by auto
  show "entries_free st idx num" by (rule r(2))
  show "length st' = length st" "\<And>i. i < length st \<Longrightarrow> st' ! i \<longleftrightarrow> st ! i \<or> idx \<le> i \<and> i < idx + num"
    by (simp_all add: r(1))
qed

definition apart :: "u64 \<times> u64 \<Rightarrow> u64 \<times> u64 \<Rightarrow> bool" where
  "apart a b \<longleftrightarrow> fst a + snd a \<le> fst b \<or> fst b + snd b \<le> fst a"

lemma entries_free_mono:
  assumes "entries_free st' idx num" and "length st' = length st" and "\<And>i. i < length st \<Longrightarrow> st ! i \<Longrightarrow> st' ! i"
  shows "entries_free st idx num"
  using assms unfolding entries_free_def by (metis less_le_trans)

lemma reservations:
  assumes "run_steps get_free_entries nums st = Inr (idxs, st')" and "0 \<notin> set nums"
  shows "(\<forall>(i, n) \<in> set (zip idxs nums). entries_free st i n) \<and> sorted_wrt apart (zip idxs nums)"
  using assms
proof (induction nums arbitrary: st idxs)
  case (Cons n nums)
  then obtain i st1 js where r: "get_free_entries n st = Inr (i, st1)"
    "run_steps get_free_entries nums st1 = Inr (js, st')" "idxs = i # js"
    by (auto simp: run_steps_Cons_Inr simp del: run_steps.simps(2))
  note g = get_free_entries_Inr [OF r(1)]
  have IH: "\<forall>(j, k) \<in> set (zip js nums). entries_free st1 j k" "sorted_wrt apart (zip js nums)"
    using Cons.IH [OF r(2)] Cons.prems(2) by auto
  have "entries_free st j k \<and> apart (i, n) (j, k)" if jk: "(j, k) \<in> set (zip js nums)" for j k
  proof -
    have f: "entries_free st1 j k" using IH(1) jk by auto
    then have "entries_free st j k" using entries_free_mono [OF f g(2)] g(3) by blast
    moreover have "0 < k" using set_zip_rightD [OF jk] Cons.prems(2) by (metis gr0I list.set_intros(2))
    moreover have "st1 ! x" if "i \<le> x" "x < i + n" for x
      using g(1) g(3) [of x] that by (auto simp: entries_free_def)
    moreover have "0 < n" using Cons.prems(2) by auto
    ultimately have "\<not> (i \<le> j \<and> j < i + n)" "\<not> (j \<le> i \<and> i < j + k)"
      using f by (auto simp: entries_free_def)
    with \<open>entries_free st j k\<close> show ?thesis by (auto simp: apart_def)
  qed
  then show ?case using g(1) IH(2) r(3) by auto
qed simp

text \<open>All entries from \<open>k\<close> on are free; first fit then reserves within or right behind the first \<open>k\<close> entries.\<close>

definition free_from :: "level4 \<Rightarrow> u64 \<Rightarrow> bool" where
  "free_from st k \<longleftrightarrow> length st = 512 \<and> (\<forall>i. k \<le> i \<and> i < 512 \<longrightarrow> \<not> st ! i)"

lemma get_free_entries_from:
  assumes "free_from st k" and "0 < n" and "k + n \<le> 512"
  obtains idx st' where "get_free_entries n st = Inr (idx, st')" and "idx \<le> k" and "entries_free st idx n"
    and "free_from st' (k + n)"
    and "\<And>i. i < 512 \<Longrightarrow> \<not> st' ! i \<Longrightarrow> \<not> st ! i \<and> \<not> (idx \<le> i \<and> i < idx + n)"
proof -
  have k: "entries_free st k n" using assms by (simp add: free_from_def entries_free_def)
  then obtain idx st' where g: "get_free_entries n st = Inr (idx, st')" "\<forall>j < idx. \<not> entries_free st j n"
    using get_free_entries_cases [OF assms(2), of st] by blast
  note s = get_free_entries_Inr [OF g(1)]
  have len: "length st = 512" using assms(1) by (simp add: free_from_def)
  have le: "idx \<le> k" using g(2) k by (meson not_le)
  have "free_from st' (k + n)"
    using s(2,3) le assms(1) len by (auto simp: free_from_def)
  moreover have "\<not> st ! i \<and> \<not> (idx \<le> i \<and> i < idx + n)" if "i < 512" "\<not> st' ! i" for i
    using s(3) [of i] that len by simp
  ultimately show thesis using that g(1) le s(1) by blast
qed

context x86_addresses
begin

lemma p4_page: "a < virt_bound \<Longrightarrow> p4_index X (page_containing X a) = a div 2 ^ 39"
proof -
  assume a: "a < virt_bound"
  have "a div 4096 * 4096 div 2 ^ 39 = a div 4096 * 4096 div 4096 div 2 ^ 27"
    by (simp add: div_mult2_eq [symmetric])
  also have "\<dots> = a div 2 ^ 39" by (simp add: div_mult2_eq [symmetric])
  finally show ?thesis using a by (simp add: page_number p4_of virt_bound_def)
qed

lemma mark_segments_correct:
  assumes "length st = 512" and "\<forall>seg \<in> set segs. ph_virtual_addr seg + ph_mem_size seg < virt_bound"
  shows "\<exists>st'. mark_segments X p segs st = Inr st' \<and> length st' = 512 \<and>
    (\<forall>i < 512. st' ! i \<longleftrightarrow> st ! i \<or> (\<exists>seg \<in> set segs. ph_virtual_addr seg div 2 ^ 39 \<le> i \<and>
       i \<le> (ph_virtual_addr seg + ph_mem_size seg) div 2 ^ 39))"
  using assms
proof (induction segs arbitrary: st)
  case (Cons seg segs)
  let ?a = "ph_virtual_addr seg" and ?e = "ph_virtual_addr seg + ph_mem_size seg"
  let ?st = "map (\<lambda>i. st ! i \<or> ?a div 2 ^ 39 \<le> i \<and> i < Suc (?e div 2 ^ 39)) [0 ..< length st]"
  have e: "?e < virt_bound" "?a < virt_bound" using Cons.prems(2) by auto
  have "Suc (?e div 2 ^ 39) \<le> length st" using e(1) Cons.prems(1) by (simp add: virt_bound_def)
  then have "mark_segment X p seg st = Inr ?st"
    using e mark_indices_upt [of "Suc (?e div 2 ^ 39)" st "?a div 2 ^ 39"]
    by (simp add: mark_segment_def virt_valid p4_page u64_add_def u64_bound_def virt_bound_def del: upt_Suc)
  moreover obtain st' where "mark_segments X p segs ?st = Inr st'" "length st' = 512"
    "\<forall>i < 512. st' ! i \<longleftrightarrow> ?st ! i \<or> (\<exists>seg \<in> set segs. ph_virtual_addr seg div 2 ^ 39 \<le> i \<and>
       i \<le> (ph_virtual_addr seg + ph_mem_size seg) div 2 ^ 39)"
    using Cons.IH [of ?st] Cons.prems by auto
  ultimately show ?case using Cons.prems(1) by (auto simp: less_Suc_eq_le simp del: upt_Suc)
qed simp

end

subsection \<open>Properties\<close>

text \<open>
  For segments in the lower half of the address space \<^verbatim>\<open>UsedLevel4Entries::new\<close> never panics and
  marks exactly entry 0 and the entries whose 512 GiB range a segment touches, its end address
  included.
\<close>

lemma used_level4_entries_exact:
  assumes "x86_addresses X" and "\<forall>seg \<in> set segs. ph_virtual_addr seg + ph_mem_size seg < virt_bound"
  shows "\<exists>st. used_level4_entries_new X p segs = Inr st \<and> length st = 512 \<and>
    (\<forall>i < 512. st ! i \<longleftrightarrow> i = 0 \<or> (\<exists>seg \<in> set segs. ph_virtual_addr seg div 2 ^ 39 \<le> i \<and>
       i \<le> (ph_virtual_addr seg + ph_mem_size seg) div 2 ^ 39))"
  using x86_addresses.mark_segments_correct [OF assms(1) _ assms(2), of "(replicate 512 False)[0 := True]" p]
  by (fastforce simp: used_level4_entries_new_def nth_list_update)

definition kernel_segments :: "program_header list" where
  "kernel_segments = [\<lparr>ph_type = Load, ph_execute = True, ph_write = False, ph_offset = 4096, ph_virtual_addr = 2097152, ph_file_size = 40960, ph_mem_size = 45056\<rparr>]"

lemma used_level4_entries_exact_witness:
  "x86_addresses x86_documented \<and>
   (\<exists>st. used_level4_entries_new x86_documented Debug kernel_segments = Inr st \<and> st ! 0 \<and> \<not> st ! 1)"
proof -
  have "\<forall>seg \<in> set kernel_segments. ph_virtual_addr seg + ph_mem_size seg < virt_bound"
    by (simp add: kernel_segments_def virt_bound_def)
  from used_level4_entries_exact [OF xd.x86_addresses_axioms this, of Debug] obtain st where
    st: "used_level4_entries_new x86_documented Debug kernel_segments = Inr st"
    "\<forall>i < 512. st ! i \<longleftrightarrow> i = 0 \<or> (\<exists>seg \<in> set kernel_segments. ph_virtual_addr seg div 2 ^ 39 \<le> i \<and>
       i \<le> (ph_virtual_addr seg + ph_mem_size seg) div 2 ^ 39)" by blast
  have "st ! 0" "\<not> st ! 1" using st(2) by (simp_all add: kernel_segments_def)
  then show ?thesis using st(1) xd.x86_addresses_axioms by blast
qed

text \<open>
  C33: \<^verbatim>\<open>get_free_entries\<close> is first fit: it returns the lowest index from which the wanted number of
  entries is free and marks exactly those, and it panics exactly when there is no such run.
\<close>

theorem get_free_entries_first_fit:
  assumes "0 < num"
  shows "if \<exists>idx. entries_free st idx num
    then \<exists>idx st'. get_free_entries num st = Inr (idx, st') \<and> entries_free st idx num \<and>
      (\<forall>j < idx. \<not> entries_free st j num) \<and> length st' = length st \<and>
      (\<forall>i < length st. st' ! i \<longleftrightarrow> st ! i \<or> idx \<le> i \<and> i < idx + num)
    else get_free_entries num st = Inl (Unwrap_failed ''no usable level 4 entries found'')"
  using get_free_entries_cases [OF assms, of st] by auto

theorem get_free_entries_first_fit_witness:
  "(0::nat) < 2 \<and> get_free_entries 2 [True, False, True, False, False] =
     Inr (3, [True, False, True, True, True]) \<and>
   (\<exists>idx st'. get_free_entries 2 [True, False, True, False, False] = Inr (idx, st') \<and>
      (\<forall>j < idx. \<not> entries_free [True, False, True, False, False] j 2))"
proof -
  have "entries_free [True, False, True, False, False] 3 2"
    by (auto simp: entries_free_def nth_Cons less_Suc_eq numeral_eq_Suc split: nat.splits)
  then have "\<exists>idx. entries_free [True, False, True, False, False] idx 2" by blast
  moreover have "get_free_entries 2 [True, False, True, False, False] = Inr (3, [True, False, True, True, True])"
    by code_simp
  ultimately show ?thesis
    using get_free_entries_first_fit [of 2 "[True, False, True, False, False]"] by auto
qed

text \<open>
  Successive reservations (the recursive entry, the boot information page, the physical memory
  window) never overlap each other nor any entry that was in use before the first.
\<close>

lemma level4_reservations_disjoint:
  assumes "run_steps get_free_entries nums st = Inr (idxs, st')" and "0 \<notin> set nums"
  shows "(\<forall>(i, n) \<in> set (zip idxs nums). entries_free st i n) \<and> sorted_wrt apart (zip idxs nums)"
  using reservations [OF assms] .

lemma level4_reservations_disjoint_witness:
  "run_steps get_free_entries [1, 1, 2] [True, False, True, False, False, False] =
     Inr ([1, 3, 4], [True, True, True, True, True, True]) \<and>
   sorted_wrt apart (zip [1, 3, 4] [1, 1, 2])"
proof -
  have r: "run_steps get_free_entries [1, 1, 2] [True, False, True, False, False, False] =
      Inr ([1, 3, 4], [True, True, True, True, True, True])" by code_simp
  from level4_reservations_disjoint [OF r] show ?thesis using r by simp
qed

end
