(* ===== verification/KernelLoad.thy ===== *)
theory KernelLoad
  imports BootInfoMap Paging Level4
begin

text \<open>
  Loading the kernel (\<^verbatim>\<open>bootloader/src/page_table.rs\<close>): mapping the pages of ELF segments and of the
  stack, and clearing what a segment has in memory beyond its file contents.

  The state is the page table, the memory map behind the frame allocator and the bytes of the
  physical memory, page tables not included. An access through a virtual address goes to the frame
  its page translates to; an access to an unmapped page is a panic. \<open>env_translate\<close> is the translation
  of the 4 KiB pages, those of the recursive window aside, in which the page tables themselves appear. Write protection is not yet
  enabled at this point, so every mapped page can be written. An operation either panics or returns
  \<^verbatim>\<open>Ok\<close> or \<^verbatim>\<open>Err\<close> together with the state.

  Operations are specified by the judgement \<open>runs E err n f s Q\<close>: from the state \<open>s\<close> the operation
  returns \<^verbatim>\<open>Ok\<close> with a result and state that satisfy \<open>Q\<close>, or it returns the error \<open>err\<close> because no
  usable frame is left, or it panics because the memory map has no slot left; the latter two are
  excluded when the next \<open>n\<close> allocations hand out a frame. At most \<open>n\<close> frames stop being usable.
\<close>

subsection \<open>State and sequencing\<close>

record 'pt loader =
  ld_pt :: 'pt
  ld_map :: memory_map
  ld_mem :: "u64 \<Rightarrow> nat"

type_synonym ('e, 'a, 'pt) ld = "'pt loader \<Rightarrow> (('e + 'a) \<times> 'pt loader) rust"

definition bind_ld :: "('e, 'a, 'pt) ld \<Rightarrow> ('a \<Rightarrow> ('e, 'b, 'pt) ld) \<Rightarrow> ('e, 'b, 'pt) ld" where
  "bind_ld f g s =
     bind_rust (f s) (\<lambda>(r, s1). case r of Inl e \<Rightarrow> Inr (Inl e, s1) | Inr x \<Rightarrow> g x s1)"

definition ok_ld :: "'a \<Rightarrow> ('e, 'a, 'pt) ld" where
  "ok_ld x s = Inr (Inr x, s)"

definition err_ld :: "'e \<Rightarrow> ('e, 'a, 'pt) ld" where
  "err_ld e s = Inr (Inl e, s)"

definition lift_ld :: "'a rust \<Rightarrow> ('e, 'a, 'pt) ld" where
  "lift_ld r s = bind_rust r (\<lambda>x. Inr (Inr x, s))"

text \<open>\<^verbatim>\<open>?\<close> with a conversion of the error, and \<^verbatim>\<open>expect\<close>.\<close>

definition map_err :: "('e \<Rightarrow> 'd) \<Rightarrow> ('e, 'a, 'pt) ld \<Rightarrow> ('d, 'a, 'pt) ld" where
  "map_err h f s = bind_rust (f s) (\<lambda>(r, s1). Inr (map_sum h id r, s1))"

datatype unmap_error = Unmap_huge_page | Page_not_mapped | Invalid_frame_address u64

text \<open>The crates the loader calls, and the profile it is built with.\<close>

record 'pt loader_env =
  env_sort :: "memory_region sort_by"
  env_x86 :: x86
  env_profile :: profile
  env_map_to :: "('pt, memory_map) map_to"
  env_unmap :: "u64 \<Rightarrow> 'pt \<Rightarrow> (unmap_error + u64) \<times> 'pt"
  env_translate :: "'pt \<Rightarrow> u64 \<Rightarrow> (u64 \<times> page_flags) option"

definition alloc_region :: "'pt loader_env \<Rightarrow> memory_region_type \<Rightarrow> memory_map frame_source" where
  "alloc_region E t = allocate_frame (env_sort E) (env_x86 E) (env_profile E) t"

text \<open>\<^verbatim>\<open>allocate_frame(t).ok_or(FrameAllocationFailed)?\<close>\<close>

definition alloc_ld :: "'pt loader_env \<Rightarrow> memory_region_type \<Rightarrow> (map_error, u64, 'pt) ld" where
  "alloc_ld E t s =
     bind_rust (alloc_region E t (ld_map s)) (\<lambda>(f, m).
       Inr (case f of None \<Rightarrow> Inl FrameAllocationFailed | Some a \<Rightarrow> Inr a, s\<lparr>ld_map := m\<rparr>))"

definition map_page :: "'pt loader_env \<Rightarrow> u64 \<Rightarrow> u64 \<Rightarrow> page_flags \<Rightarrow> (map_error, u64, 'pt) ld" where
  "map_page E page phys_frame flags s =
     bind_rust (env_map_to E (alloc_region E PageTable) page phys_frame flags (ld_pt s) (ld_map s))
       (\<lambda>(r, pt, m). Inr (r, s\<lparr>ld_pt := pt, ld_map := m\<rparr>))"

subsection \<open>Memory accesses\<close>

definition phys_of :: "'pt loader_env \<Rightarrow> 'pt \<Rightarrow> u64 \<Rightarrow> u64 option" where
  "phys_of E pt a =
     (case env_translate E pt (a div 4096 * 4096) of None \<Rightarrow> None | Some (f, _) \<Rightarrow> Some (f + a mod 4096))"

definition page_fault :: panic where
  "page_fault = Explicit_panic ''page fault''"

definition write_byte_ld :: "'pt loader_env \<Rightarrow> u64 \<Rightarrow> nat \<Rightarrow> ('e, unit, 'pt) ld" where
  "write_byte_ld E a b s =
     (case phys_of E (ld_pt s) a of
        None \<Rightarrow> Inl page_fault
      | Some pa \<Rightarrow> Inr (Inr (), s\<lparr>ld_mem := (ld_mem s)(pa := b)\<rparr>))"

text \<open>\<^verbatim>\<open>dst_ptr.write(src_ptr.read())\<close> on whole pages.\<close>

definition copied :: "u64 \<Rightarrow> u64 \<Rightarrow> (u64 \<Rightarrow> nat) \<Rightarrow> u64 \<Rightarrow> nat" where
  "copied d r mem pa = (if d \<le> pa \<and> pa < d + 4096 then mem (r + (pa - d)) else mem pa)"

definition copy_page :: "'pt loader_env \<Rightarrow> u64 \<Rightarrow> u64 \<Rightarrow> ('e, unit, 'pt) ld" where
  "copy_page E dst src s =
     (case (phys_of E (ld_pt s) dst, phys_of E (ld_pt s) src) of
        (Some d, Some r) \<Rightarrow> Inr (Inr (), s\<lparr>ld_mem := copied d r (ld_mem s)\<rparr>)
      | _ \<Rightarrow> Inl page_fault)"

subsection \<open>Segments\<close>

definition frames_inclusive :: "u64 \<Rightarrow> u64 \<Rightarrow> u64 list" where
  "frames_inclusive a b = map (\<lambda>n. n * 4096) [a div 4096 ..< Suc (b div 4096)]"

fun map_frames :: "'pt loader_env \<Rightarrow> u64 \<Rightarrow> u64 \<Rightarrow> page_flags \<Rightarrow> u64 list \<Rightarrow> (map_error, unit, 'pt) ld" where
  "map_frames E start_page start_frame flags [] = ok_ld ()"
| "map_frames E start_page start_frame flags (frame # frames) =
     bind_ld (lift_ld (page_add (env_x86 E) start_page ((frame - start_frame) div 4096))) (\<lambda>page.
       bind_ld (map_page E page frame flags) (\<lambda>_.
         map_frames E start_page start_frame flags frames))"

fun map_fresh :: "'pt loader_env \<Rightarrow> memory_region_type \<Rightarrow> page_flags \<Rightarrow> u64 list \<Rightarrow> (map_error, unit, 'pt) ld" where
  "map_fresh E t flags [] = ok_ld ()"
| "map_fresh E t flags (page # pages) =
     bind_ld (alloc_ld E t) (\<lambda>frame.
       bind_ld (map_page E page frame flags) (\<lambda>_. map_fresh E t flags pages))"

fun zero_bytes :: "'pt loader_env \<Rightarrow> u64 \<Rightarrow> u64 list \<Rightarrow> (map_error, unit, 'pt) ld" where
  "zero_bytes E virt_start_addr [] = ok_ld ()"
| "zero_bytes E virt_start_addr (offset # offsets) =
     bind_ld (lift_ld (virt_add (env_x86 E) virt_start_addr offset)) (\<lambda>addr.
       bind_ld (write_byte_ld E addr 0) (\<lambda>_. zero_bytes E virt_start_addr offsets))"

definition segment_flags :: "program_header \<Rightarrow> page_flags" where
  "segment_flags seg =
     {PRESENT} \<union> (if \<not> ph_execute seg then {NO_EXECUTE} else {}) \<union> (if ph_write seg then {WRITABLE} else {})"

definition TEMP_PAGE :: u64 where "TEMP_PAGE = 0xfeeefeee000"

definition unmap_ld :: "'pt loader_env \<Rightarrow> u64 \<Rightarrow> (map_error, unit, 'pt) ld" where
  "unmap_ld E page s =
     (case env_unmap E page (ld_pt s) of
        (Inr _, pt) \<Rightarrow> Inr (Inr (), s\<lparr>ld_pt := pt\<rparr>)
      | (Inl Unmap_huge_page, pt) \<Rightarrow> Inr (Inl ParentEntryHugePage, s\<lparr>ld_pt := pt\<rparr>)
      | (Inl _, pt) \<Rightarrow> Inl (Explicit_panic ''internal error: entered unreachable code''))"

text \<open>The last page with file contents gets a frame of its own before it is partly zeroed.\<close>

definition remap_last_page :: "'pt loader_env \<Rightarrow> u64 \<Rightarrow> u64 \<Rightarrow> page_flags \<Rightarrow> (map_error, unit, 'pt) ld" where
  "remap_last_page E virt_start_addr file_size flags =
     bind_ld (lift_ld (virt_addr_new (env_x86 E) TEMP_PAGE)) (\<lambda>temp.
       bind_ld (alloc_ld E Kernel) (\<lambda>new_frame.
         bind_ld (map_page E (page_containing (env_x86 E) temp) new_frame flags) (\<lambda>_.
           bind_ld (lift_ld (bind_rust (virt_add (env_x86 E) virt_start_addr file_size)
                               (\<lambda>a. virt_sub (env_x86 E) a 1))) (\<lambda>last_addr.
             bind_ld (copy_page E (page_containing (env_x86 E) temp) (page_containing (env_x86 E) last_addr)) (\<lambda>_.
               bind_ld (unmap_ld E (page_containing (env_x86 E) last_addr)) (\<lambda>_.
                 bind_ld (map_page E (page_containing (env_x86 E) last_addr) new_frame flags) (\<lambda>_. ok_ld ())))))))"

definition map_bss :: "'pt loader_env \<Rightarrow> u64 \<Rightarrow> u64 \<Rightarrow> u64 \<Rightarrow> page_flags \<Rightarrow> (map_error, unit, 'pt) ld" where
  "map_bss E virt_start_addr file_size mem_size flags =
     bind_ld (lift_ld (virt_add (env_x86 E) virt_start_addr file_size)) (\<lambda>zero_start.
       bind_ld (lift_ld (virt_add (env_x86 E) virt_start_addr mem_size)) (\<lambda>zero_end.
         bind_ld (if zero_start mod 4096 \<noteq> 0 then remap_last_page E virt_start_addr file_size flags else ok_ld ()) (\<lambda>_.
           bind_ld (lift_ld (virt_addr_new (env_x86 E) (align_up (env_x86 E) zero_start 4096))) (\<lambda>start.
             bind_ld (map_fresh E Kernel flags
               (frames_inclusive (page_containing (env_x86 E) start) (page_containing (env_x86 E) zero_end))) (\<lambda>_.
               zero_bytes E virt_start_addr [file_size ..< mem_size])))))"

definition map_segment ::
  "'pt loader_env \<Rightarrow> program_header \<Rightarrow> u64 \<Rightarrow> (map_error, tls_template option, 'pt) ld" where
  "map_segment E seg kernel_start =
     (case ph_type seg of
        Invalid_type \<Rightarrow> lift_ld (Inl (Unwrap_failed ''called `Result::unwrap()` on an `Err` value''))
      | Load \<Rightarrow>
          bind_ld (lift_ld (phys_add (env_x86 E) kernel_start (ph_offset seg))) (\<lambda>phys_start_addr.
            bind_ld (lift_ld (virt_addr_new (env_x86 E) (ph_virtual_addr seg))) (\<lambda>virt_start_addr.
              bind_ld (lift_ld (bind_rust (phys_add (env_x86 E) phys_start_addr (ph_file_size seg))
                                  (\<lambda>a. phys_sub (env_x86 E) a 1))) (\<lambda>end_addr.
                bind_ld (map_frames E (page_containing (env_x86 E) virt_start_addr)
                           (frame_containing (env_x86 E) phys_start_addr) (segment_flags seg)
                           (frames_inclusive (frame_containing (env_x86 E) phys_start_addr)
                              (frame_containing (env_x86 E) end_addr))) (\<lambda>_.
                  bind_ld (if ph_mem_size seg > ph_file_size seg
                           then map_bss E virt_start_addr (ph_file_size seg) (ph_mem_size seg) (segment_flags seg)
                           else ok_ld ()) (\<lambda>_. ok_ld None)))))
      | Tls \<Rightarrow> ok_ld (Some \<lparr>tls_start_addr = ph_virtual_addr seg, tls_file_size = ph_file_size seg,
                           tls_mem_size = ph_mem_size seg\<rparr>)
      | Other_type \<Rightarrow> ok_ld None)"

subsection \<open>The kernel\<close>

datatype map_kernel_error = Mapping map_error | MultipleTlsSegments

record memory_info =
  stack_end :: u64
  tls_segment :: "tls_template option"

fun map_segments ::
  "'pt loader_env \<Rightarrow> u64 \<Rightarrow> program_header list \<Rightarrow> tls_template option \<Rightarrow> (map_kernel_error, tls_template option, 'pt) ld" where
  "map_segments E kernel_start [] found = ok_ld found"
| "map_segments E kernel_start (segment # segments) found =
     bind_ld (map_err Mapping (map_segment E segment kernel_start)) (\<lambda>tls.
       case tls of
         None \<Rightarrow> map_segments E kernel_start segments found
       | Some t \<Rightarrow>
           (if found \<noteq> None then err_ld MultipleTlsSegments
            else map_segments E kernel_start segments (Some t)))"

definition map_stack :: "'pt loader_env \<Rightarrow> u64 \<Rightarrow> u64 \<Rightarrow> (map_error, u64, 'pt) ld" where
  "map_stack E stack_start stack_size =
     bind_ld (lift_ld (page_add (env_x86 E) stack_start 1)) (\<lambda>first.
       bind_ld (lift_ld (page_add (env_x86 E) first stack_size)) (\<lambda>behind.
         bind_ld (map_fresh E KernelStack {PRESENT, WRITABLE}
                    (map (\<lambda>n. n * 4096) [first div 4096 ..< behind div 4096])) (\<lambda>_. ok_ld behind)))"

definition map_kernel ::
  "'pt loader_env \<Rightarrow> u64 \<Rightarrow> u64 \<Rightarrow> u64 \<Rightarrow> program_header list \<Rightarrow> (map_kernel_error, memory_info, 'pt) ld" where
  "map_kernel E kernel_start stack_start stack_size segments =
     bind_ld (map_segments E kernel_start segments None) (\<lambda>tls.
       bind_ld (map_err Mapping (map_stack E stack_start stack_size)) (\<lambda>behind.
         ok_ld \<lparr>stack_end = behind, tls_segment = tls\<rparr>))"

subsection \<open>Enough frames\<close>

text \<open>\<open>ample E n m\<close>: the next \<open>n\<close> allocations, of whatever types, hand out a frame.\<close>

primrec ample :: "'pt loader_env \<Rightarrow> nat \<Rightarrow> memory_map \<Rightarrow> bool" where
  "ample E 0 m \<longleftrightarrow> True"
| "ample E (Suc n) m \<longleftrightarrow> (\<forall>t. \<exists>f m'. alloc_region E t m = Inr (Some f, m') \<and> ample E n m')"

lemma ample_mono: "ample E n m \<Longrightarrow> k \<le> n \<Longrightarrow> ample E k m"
proof (induction k arbitrary: n m)
  case (Suc k)
  then obtain n' where n': "n = Suc n'" "k \<le> n'" by (cases n) auto
  show ?case using Suc.IH [OF _ n'(2)] Suc.prems(1) unfolding n'(1) ample.simps by blast
qed simp

lemma ample_drawn: "ample E (length fs + n) m \<Longrightarrow> drawn (alloc_region E t) fs m m' \<Longrightarrow> ample E n m'"
proof (induction fs arbitrary: m)
  case (Cons f fs)
  obtain g m1 where a: "alloc_region E t m = Inr (Some g, m1)" "ample E (length fs + n) m1"
    using Cons.prems(1) by (metis add_Suc ample.simps(2) length_Cons)
  then show ?case using Cons.IH [OF a(2)] Cons.prems(2) by simp
qed simp

definition map_full :: panic where
  "map_full = Explicit_panic ''too many memory regions in memory map''"

text \<open>From \<open>m\<close> to \<open>m'\<close> at most \<open>n\<close> frames have been handed out.\<close>

definition spends :: "'pt loader_env \<Rightarrow> nat \<Rightarrow> memory_map \<Rightarrow> memory_map \<Rightarrow> bool" where
  "spends E n m m' \<longleftrightarrow>
     (\<forall>k. ample E (n + k) m \<longrightarrow> ample E k m') \<and> (\<exists>F. finite F \<and> card F \<le> n \<and> usable m \<subseteq> usable m' \<union> F)"

lemma spends_ample: "spends E n m m' \<Longrightarrow> ample E (n + k) m \<Longrightarrow> ample E k m'"
  by (simp add: spends_def)

lemma spends_refl [simp]: "spends E 0 m m"
  unfolding spends_def by (intro conjI exI [of _ "{}"]) simp_all

lemma spends_mono:
  assumes "spends E n m m'" and "n \<le> n'"
  shows "spends E n' m m'"
proof -
  have "ample E k m'" if "ample E (n' + k) m" for k
    using spends_ample [OF assms(1), of "n' - n + k"] ample_mono [of E "n' - n + k" m' k] that assms(2) by simp
  then show ?thesis using assms unfolding spends_def by (meson le_trans)
qed

lemma spends_trans:
  assumes "spends E n m m1" and "spends E k m1 m2"
  shows "spends E (n + k) m m2"
proof -
  obtain F G where "finite F" "card F \<le> n" "usable m \<subseteq> usable m1 \<union> F" "finite G" "card G \<le> k" "usable m1 \<subseteq> usable m2 \<union> G"
    using assms unfolding spends_def by blast
  then have "finite (F \<union> G) \<and> card (F \<union> G) \<le> n + k \<and> usable m \<subseteq> usable m2 \<union> (F \<union> G)"
    using card_Un_le [of F G] by auto
  moreover have "ample E l m2" if "ample E (n + k + l) m" for l
    using that spends_ample [OF assms(2), of l] spends_ample [OF assms(1), of "k + l"] by (simp add: add.assoc)
  ultimately show ?thesis unfolding spends_def by blast
qed

lemma usable_finite: "finite (usable m)"
proof (rule finite_subset)
  show "usable m \<subseteq> (\<Union>r \<in> set (mm_deref m). {..< end_frame_number (rng r)})"
    by (auto simp: usable_def owners_def types_at_def type_at_def holds_def split: if_splits)
qed simp

lemma spends_card:
  assumes "spends E n m m'"
  shows "card (usable m) \<le> n + card (usable m')"
proof -
  obtain F where "finite F" "card F \<le> n" "usable m \<subseteq> usable m' \<union> F" using assms(1) unfolding spends_def by blast
  then have "card (usable m) \<le> card (usable m' \<union> F)" by (intro card_mono) (simp_all add: usable_finite)
  also have "\<dots> \<le> card (usable m') + card F" by (rule card_Un_le)
  finally show ?thesis using \<open>card F \<le> n\<close> by simp
qed

definition runs ::
  "'pt loader_env \<Rightarrow> 'e \<Rightarrow> nat \<Rightarrow> ('e, 'a, 'pt) ld \<Rightarrow> 'pt loader \<Rightarrow> ('a \<Rightarrow> 'pt loader \<Rightarrow> bool) \<Rightarrow> bool" where
  "runs E err n f s Q \<longleftrightarrow>
     (case f s of
        Inl p \<Rightarrow> p = map_full \<and> \<not> ample E n (ld_map s)
      | Inr (Inl e, s') \<Rightarrow> e = err \<and> usable (ld_map s') = {} \<and> \<not> ample E n (ld_map s)
      | Inr (Inr x, s') \<Rightarrow> Q x s' \<and> spends E n (ld_map s) (ld_map s'))"

lemma runs_cases:
  assumes "runs E err n f s Q"
  obtains (ok) x s' where "f s = Inr (Inr x, s')" and "Q x s'" and "spends E n (ld_map s) (ld_map s')"
  | (err) s' where "f s = Inr (Inl err, s')" and "usable (ld_map s') = {}" and "\<not> ample E n (ld_map s)"
  | (panic) "f s = Inl map_full" and "\<not> ample E n (ld_map s)"
proof (cases "f s")
  case (Inl p)
  with assms panic show thesis by (simp add: runs_def)
next
  case (Inr a)
  obtain r s' where a: "a = (r, s')" by force
  show thesis
  proof (cases r)
    case (Inl e)
    with assms err Inr a show thesis by (simp add: runs_def)
  next
    case (Inr x)
    with assms ok \<open>f s = Inr a\<close> a show thesis by (simp add: runs_def)
  qed
qed

lemma runs_return:
  "f s = Inr (Inr x, s') \<Longrightarrow> Q x s' \<Longrightarrow> ld_map s' = ld_map s \<Longrightarrow> runs E err 0 f s Q"
  by (simp add: runs_def)

lemma runs_ok: "Q x s \<Longrightarrow> runs E err 0 (ok_ld x) s Q"
  by (simp add: runs_def ok_ld_def)

lemma runs_mono:
  assumes "runs E err n f s Q" and "n \<le> m" and "\<And>x s'. Q x s' \<Longrightarrow> Q' x s'"
  shows "runs E err m f s Q'"
  using assms(1)
proof (cases rule: runs_cases)
  case (ok x s')
  with assms(3) spends_mono [OF ok(3) assms(2)] show ?thesis by (simp add: runs_def)
next
  case (err s')
  then show ?thesis using ample_mono [OF _ assms(2)] by (auto simp: runs_def)
next
  case panic
  then show ?thesis using ample_mono [OF _ assms(2)] by (auto simp: runs_def)
qed

lemma runs_weaken: "runs E err n f s Q \<Longrightarrow> (\<And>x s'. Q x s' \<Longrightarrow> Q' x s') \<Longrightarrow> runs E err n f s Q'"
  by (erule runs_mono) auto

lemma runs_bind:
  assumes "runs E err n f s P" and "\<And>x s'. P x s' \<Longrightarrow> runs E err m (g x) s' Q"
  shows "runs E err (n + m) (bind_ld f g) s Q"
  using assms(1)
proof (cases rule: runs_cases)
  case f: (ok x s1)
  then have b: "bind_ld f g s = g x s1" by (simp add: bind_ld_def)
  from assms(2) [OF f(2)] show ?thesis
  proof (cases rule: runs_cases)
    case (ok y s2)
    with spends_trans [OF f(3) ok(3)] show ?thesis by (simp add: runs_def b)
  qed (use spends_ample [OF f(3), of m] in \<open>auto simp: runs_def b\<close>)
next
  case (err s')
  then show ?thesis using ample_mono [of E "n + m" "ld_map s" n] by (auto simp: runs_def bind_ld_def)
next
  case panic
  then show ?thesis using ample_mono [of E "n + m" "ld_map s" n] by (auto simp: runs_def bind_ld_def)
qed

lemma runs_lift: "r = Inr x \<Longrightarrow> runs E err m (g x) s Q \<Longrightarrow> runs E err m (bind_ld (lift_ld r) g) s Q"
  by (simp add: runs_def bind_ld_def lift_ld_def)

lemma runs_map_err: "runs E err n f s Q \<Longrightarrow> runs E (h err) n (map_err h f) s Q"
  by (erule runs_cases) (simp_all add: runs_def map_err_def)

text \<open>With enough frames a judgement is total correctness.\<close>

lemma runs_total:
  "runs E err n f s Q \<Longrightarrow> ample E n (ld_map s) \<Longrightarrow> \<exists>x s'. f s = Inr (Inr x, s') \<and> Q x s'"
  by (erule runs_cases) auto

end
