(* ===== verification/KernelLoadCorrect.thy ===== *)
theory KernelLoadCorrect
  imports KernelLoad
begin

text \<open>
  Correctness of the loader of \<open>KernelLoad\<close>: what every operation leaves alone (\<open>keeps\<close>), what the
  memory of a loaded segment holds (\<open>loaded\<close>), and a rule for each operation in terms of \<open>runs\<close>, up to
  \<^verbatim>\<open>map_kernel\<close>. The rules are proved in the locale \<open>kernel_loader\<close>, which puts together the frame
  allocator and the page-table mapper with the documented behaviour of \<^verbatim>\<open>unmap\<close>.
\<close>

subsection \<open>What an operation leaves alone\<close>

definition sound :: "memory_map \<Rightarrow> bool" where
  "sound m \<longleftrightarrow> mm_wf m \<and> sole_usable m"

text \<open>
  \<open>keeps E mappable entry R s s'\<close>: no frame has become usable, the memory outside the usable frames is as it
  was, and so are the pages other than those with a number in \<open>R\<close>; what is under an entry of the top-level
  table changes only for the entries of pages in \<open>R\<close>.
\<close>

definition level4_of :: "u64 \<Rightarrow> u64" where
  "level4_of q = q div 2 ^ 27"

definition keeps ::
  "'pt loader_env \<Rightarrow> ('pt \<Rightarrow> u64 \<Rightarrow> bool) \<Rightarrow> ('pt \<Rightarrow> u64 \<Rightarrow> 'sub) \<Rightarrow> u64 set \<Rightarrow>
   'pt loader \<Rightarrow> 'pt loader \<Rightarrow> bool" where
  "keeps E mappable entry R s s' \<longleftrightarrow>
     sound (ld_map s') \<and> usable (ld_map s') \<subseteq> usable (ld_map s) \<and>
     (\<forall>f x. f \<notin> usable (ld_map s) \<and> x < 4096 \<longrightarrow> ld_mem s' (f * 4096 + x) = ld_mem s (f * 4096 + x)) \<and>
     (\<forall>q. q \<notin> R \<longrightarrow> env_translate E (ld_pt s') (q * 4096) = env_translate E (ld_pt s) (q * 4096)) \<and>
     (\<forall>q. q \<notin> R \<and> mappable (ld_pt s) (q * 4096) \<longrightarrow> mappable (ld_pt s') (q * 4096)) \<and>
     (\<forall>i. i \<notin> level4_of ` R \<longrightarrow> entry (ld_pt s') i = entry (ld_pt s) i)"

lemma level4_of_page: "q * 4096 div 2 ^ 39 = level4_of q"
proof -
  have "q * 4096 div (4096 * 2 ^ 27) = q * 4096 div 4096 div 2 ^ 27" by (rule div_mult2_eq)
  then show ?thesis by (simp add: level4_of_def)
qed

lemma keepsI:
  assumes "sound (ld_map s')" and "usable (ld_map s') \<subseteq> usable (ld_map s)"
    and "\<And>f x. f \<notin> usable (ld_map s) \<Longrightarrow> x < 4096 \<Longrightarrow> ld_mem s' (f * 4096 + x) = ld_mem s (f * 4096 + x)"
    and "\<And>q. q \<notin> R \<Longrightarrow> env_translate E (ld_pt s') (q * 4096) = env_translate E (ld_pt s) (q * 4096)"
    and "\<And>q. q \<notin> R \<Longrightarrow> mappable (ld_pt s) (q * 4096) \<Longrightarrow> mappable (ld_pt s') (q * 4096)"
    and "\<And>i. i \<notin> level4_of ` R \<Longrightarrow> entry (ld_pt s') i = entry (ld_pt s) i"
  shows "keeps E mappable entry R s s'"
  using assms by (simp add: keeps_def)

lemma keeps_refl: "sound (ld_map s) \<Longrightarrow> keeps E mappable entry R s s"
  by (simp add: keeps_def)

lemma keeps_mono: "keeps E mappable entry R s s' \<Longrightarrow> R \<subseteq> R' \<Longrightarrow> keeps E mappable entry R' s s'"
  unfolding keeps_def by blast

lemma keeps_soundD: "keeps E mappable entry R s s' \<Longrightarrow> sound (ld_map s')"
  by (simp add: keeps_def)

lemma keeps_usableD: "keeps E mappable entry R s s' \<Longrightarrow> f \<notin> usable (ld_map s) \<Longrightarrow> f \<notin> usable (ld_map s')"
  by (auto simp: keeps_def)

lemma keeps_translateD:
  "keeps E mappable entry R s s' \<Longrightarrow> q \<notin> R \<Longrightarrow> env_translate E (ld_pt s') (q * 4096) = env_translate E (ld_pt s) (q * 4096)"
  by (simp add: keeps_def)

lemma keeps_mappableD:
  "keeps E mappable entry R s s' \<Longrightarrow> q \<notin> R \<Longrightarrow> mappable (ld_pt s) (q * 4096) \<Longrightarrow> mappable (ld_pt s') (q * 4096)"
  by (simp add: keeps_def)

lemma keeps_entryD:
  "keeps E mappable entry R s s' \<Longrightarrow> i \<notin> level4_of ` R \<Longrightarrow> entry (ld_pt s') i = entry (ld_pt s) i"
  by (simp add: keeps_def)

lemma keeps_memD:
  assumes "keeps E mappable entry R s s'" and "pa div 4096 \<notin> usable (ld_map s)"
  shows "ld_mem s' pa = ld_mem s pa"
proof -
  have "\<forall>x < 4096. ld_mem s' (pa div 4096 * 4096 + x) = ld_mem s (pa div 4096 * 4096 + x)"
    using assms by (simp add: keeps_def)
  from this [rule_format, of "pa mod 4096"] show ?thesis by simp
qed

lemma keeps_trans:
  assumes "keeps E mappable entry R s s1" and "keeps E mappable entry R' s1 s2" and "R \<union> R' \<subseteq> T"
  shows "keeps E mappable entry T s s2"
proof (rule keepsI)
  show "sound (ld_map s2)" by (rule keeps_soundD [OF assms(2)])
  show "usable (ld_map s2) \<subseteq> usable (ld_map s)" using keeps_usableD [OF assms(1)] keeps_usableD [OF assms(2)] by blast
next
  fix f x :: nat assume "f \<notin> usable (ld_map s)" "x < 4096"
  then show "ld_mem s2 (f * 4096 + x) = ld_mem s (f * 4096 + x)"
    using keeps_memD [OF assms(1), of "f * 4096 + x"] keeps_memD [OF assms(2), of "f * 4096 + x"]
      keeps_usableD [OF assms(1), of f] by simp
next
  fix q assume q: "q \<notin> T"
  then have o: "q \<notin> R" "q \<notin> R'" using assms(3) by blast+
  show "env_translate E (ld_pt s2) (q * 4096) = env_translate E (ld_pt s) (q * 4096)"
    using keeps_translateD [OF assms(1) o(1)] keeps_translateD [OF assms(2) o(2)] by simp
  show "mappable (ld_pt s2) (q * 4096)" if "mappable (ld_pt s) (q * 4096)"
    by (rule keeps_mappableD [OF assms(2) o(2) keeps_mappableD [OF assms(1) o(1) that]])
next
  fix i assume "i \<notin> level4_of ` T"
  then have o: "i \<notin> level4_of ` R" "i \<notin> level4_of ` R'" using assms(3) by blast+
  show "entry (ld_pt s2) i = entry (ld_pt s) i" using keeps_entryD [OF assms(2) o(2)] keeps_entryD [OF assms(1) o(1)] by simp
qed

lemmas keepsD = keeps_usableD keeps_translateD keeps_mappableD keeps_memD

text \<open>The byte at a virtual address, in a frame that will not be handed out.\<close>

definition stored :: "'pt loader_env \<Rightarrow> 'pt loader \<Rightarrow> u64 \<Rightarrow> nat \<Rightarrow> bool" where
  "stored E s a b \<longleftrightarrow>
     (\<exists>pa. phys_of E (ld_pt s) a = Some pa \<and> ld_mem s pa = b \<and> pa div 4096 \<notin> usable (ld_map s))"

lemma stored_keeps:
  assumes "stored E s a b" and "keeps E mappable entry R s s'" and "a div 4096 \<notin> R"
  shows "stored E s' a b"
proof -
  obtain pa where pa: "phys_of E (ld_pt s) a = Some pa" "ld_mem s pa = b" "pa div 4096 \<notin> usable (ld_map s)"
    using assms(1) by (auto simp: stored_def)
  then show ?thesis
    using keepsD [OF assms(2)] assms(3) unfolding stored_def phys_of_def by metis
qed

text \<open>The pages \<open>Q\<close> go, one to one, to the frames \<open>h\<close>, none of which can be handed out.\<close>

definition backs :: "'pt loader_env \<Rightarrow> 'pt loader \<Rightarrow> page_flags \<Rightarrow> (u64 \<Rightarrow> u64) \<Rightarrow> u64 set \<Rightarrow> bool" where
  "backs E s fl h Q \<longleftrightarrow>
     (\<forall>q \<in> Q. env_translate E (ld_pt s) (q * 4096) = Some (h q * 4096, fl)) \<and> inj_on h Q \<and>
     h ` Q \<inter> usable (ld_map s) = {}"

lemma backs_phys:
  assumes "backs E s fl h Q" and "a div 4096 \<in> Q"
  shows "phys_of E (ld_pt s) a = Some (h (a div 4096) * 4096 + a mod 4096)"
  using assms by (simp add: backs_def phys_of_def)

lemma backs_stored:
  assumes "backs E s fl h Q" and "a div 4096 \<in> Q" and "ld_mem s (h (a div 4096) * 4096 + a mod 4096) = b"
  shows "stored E s a b"
  using assms backs_phys [OF assms(1,2)] by (auto simp: stored_def backs_def)

lemma backs_keeps:
  assumes "backs E s fl h Q" and "keeps E mappable entry R s s'" and "Q \<inter> R = {}"
  shows "backs E s' fl h Q"
proof -
  have "q \<notin> R" if "q \<in> Q" for q using assms(3) that by blast
  moreover have "usable (ld_map s') \<subseteq> usable (ld_map s)" using assms(2) by (simp add: keeps_def)
  ultimately show ?thesis using assms(1) keeps_translateD [OF assms(2)] unfolding backs_def by auto
qed

lemma backs_join:
  assumes h: "backs E s fl h Q" and g: "backs E s fl g R" and "h ` Q \<inter> g ` R = {}" and "Q \<inter> R = {}"
  shows "backs E s fl (\<lambda>q. if q \<in> Q then h q else g q) (Q \<union> R)"
proof -
  have hg: "h p \<noteq> g q" if "p \<in> Q" "q \<in> R" for p q
    using assms(3) that by (metis IntI empty_iff imageI)
  have "inj_on (\<lambda>q. if q \<in> Q then h q else g q) (Q \<union> R)"
  proof (rule inj_onI)
    fix p q
    assume "p \<in> Q \<union> R" "q \<in> Q \<union> R" "(if p \<in> Q then h p else g p) = (if q \<in> Q then h q else g q)"
    then show "p = q"
      using hg [of p q] hg [of q p] h g unfolding backs_def inj_on_def by (cases "p \<in> Q"; cases "q \<in> Q") auto
  qed
  then show ?thesis using h g assms(4) by (auto simp: backs_def)
qed

lemma frame_offset_inj:
  fixes f g x y :: nat
  assumes "f * 4096 + x = g * 4096 + y" and "x < 4096" and "y < 4096"
  shows "f = g \<and> x = y"
proof -
  have "(f * 4096 + x) div 4096 = f" "(g * 4096 + y) div 4096 = g" using assms(2,3) by simp_all
  with assms(1) show ?thesis by simp
qed

lemma backs_phys_inj:
  assumes "backs E s fl h Q" and "a div 4096 \<in> Q" and "b div 4096 \<in> Q"
    and "h (a div 4096) * 4096 + a mod 4096 = h (b div 4096) * 4096 + b mod 4096"
  shows "a = b"
proof -
  have "h (a div 4096) = h (b div 4096)" "a mod 4096 = b mod 4096"
    using frame_offset_inj [OF assms(4)] by simp_all
  moreover from this have "a div 4096 = b div 4096"
    using assms(1-3) by (auto simp: backs_def dest: inj_onD)
  ultimately show ?thesis by (metis div_mult_mod_eq)
qed

lemma copied_frame:
  "x < 4096 \<Longrightarrow> copied (d * 4096) (r * 4096) mem (f * 4096 + x) = mem ((if f = d then r else f) * 4096 + x)"
  by (cases f d rule: linorder_cases) (auto simp: copied_def)

definition zeroed :: "u64 set \<Rightarrow> (u64 \<Rightarrow> nat) \<Rightarrow> u64 \<Rightarrow> nat" where
  "zeroed A mem pa = (if pa \<in> A then 0 else mem pa)"

lemma zeroed_empty [simp]: "zeroed {} mem = mem"
  by (simp add: zeroed_def fun_eq_iff)

subsection \<open>Specification\<close>

text \<open>The numbers of the pages that loading a segment maps.\<close>

definition file_pages :: "program_header \<Rightarrow> u64 set" where
  "file_pages seg =
     {ph_virtual_addr seg div 4096 ..< (ph_virtual_addr seg + ph_file_size seg + 4095) div 4096}"

definition bss_temp :: "program_header \<Rightarrow> u64 set" where
  "bss_temp seg =
     (if ph_file_size seg < ph_mem_size seg \<and> (ph_virtual_addr seg + ph_file_size seg) mod 4096 \<noteq> 0
      then {TEMP_PAGE div 4096} else {})"

definition segment_pages :: "program_header \<Rightarrow> u64 set" where
  "segment_pages seg =
     (if ph_file_size seg < ph_mem_size seg
      then {ph_virtual_addr seg div 4096 ..< Suc ((ph_virtual_addr seg + ph_mem_size seg) div 4096)}
      else file_pages seg)"

definition touched_pages :: "program_header \<Rightarrow> u64 set" where
  "touched_pages seg = (if ph_type seg = Load then segment_pages seg \<union> bss_temp seg else {})"

definition partial_bss :: "program_header \<Rightarrow> bool" where
  "partial_bss seg \<longleftrightarrow> ph_type seg = Load \<and> bss_temp seg \<noteq> {}"

definition file_frames :: "u64 \<Rightarrow> program_header \<Rightarrow> u64 set" where
  "file_frames kernel_start seg =
     {(kernel_start + ph_offset seg) div 4096 ..< (kernel_start + ph_offset seg + ph_file_size seg + 4095) div 4096}"

text \<open>
  A segment of the kernel file as a linker lays it out: the offset in the file and the virtual address
  agree modulo the page size, the ranges are within bounds and do not contain the temporary page.
\<close>

definition segment_ok :: "u64 \<Rightarrow> program_header \<Rightarrow> bool" where
  "segment_ok kernel_start seg \<longleftrightarrow>
     ph_type seg \<noteq> Invalid_type \<and>
     (ph_type seg = Load \<longrightarrow>
        ph_virtual_addr seg mod 4096 = (kernel_start + ph_offset seg) mod 4096 \<and>
        0 < kernel_start + ph_offset seg + ph_file_size seg \<and>
        kernel_start + ph_offset seg + ph_file_size seg < phys_bound \<and>
        ph_file_size seg \<le> ph_mem_size seg \<and>
        ph_virtual_addr seg + ph_mem_size seg + 4096 < virt_bound \<and>
        segment_pages seg \<inter> bss_temp seg = {})"

text \<open>
  The memory a loaded segment occupies holds the bytes of the file, followed by zeros, in pages with the
  segment's access rights; the pages go one to one to frames of the file or of \<open>A\<close>, none of which is usable.
\<close>

definition placed :: "'pt loader_env \<Rightarrow> u64 \<Rightarrow> u64 set \<Rightarrow> 'pt loader \<Rightarrow> program_header \<Rightarrow> bool" where
  "placed E kernel_start A s seg \<longleftrightarrow>
     (\<exists>h. backs E s (segment_flags seg) h (segment_pages seg) \<and> h ` segment_pages seg \<subseteq> file_frames kernel_start seg \<union> A)"

definition loaded ::
  "'pt loader_env \<Rightarrow> u64 \<Rightarrow> u64 set \<Rightarrow> (u64 \<Rightarrow> nat) \<Rightarrow> 'pt loader \<Rightarrow> program_header \<Rightarrow> bool" where
  "loaded E kernel_start A mem s seg \<longleftrightarrow>
     (ph_type seg = Load \<longrightarrow>
        (\<forall>i < ph_file_size seg. stored E s (ph_virtual_addr seg + i) (mem (kernel_start + ph_offset seg + i))) \<and>
        (\<forall>i. ph_file_size seg \<le> i \<and> i < ph_mem_size seg \<longrightarrow> stored E s (ph_virtual_addr seg + i) 0) \<and>
        placed E kernel_start A s seg)"

definition tls_of :: "program_header \<Rightarrow> tls_template option" where
  "tls_of seg =
     (if ph_type seg = Tls
      then Some \<lparr>tls_start_addr = ph_virtual_addr seg, tls_file_size = ph_file_size seg, tls_mem_size = ph_mem_size seg\<rparr>
      else None)"

definition loading_cost :: "program_header \<Rightarrow> nat" where
  "loading_cost seg = (if ph_type seg = Load then 7 * card (segment_pages seg) + 7 else 0)"

definition stack_pages :: "u64 \<Rightarrow> u64 \<Rightarrow> u64 set" where
  "stack_pages p len = {p + 1 ..< p + 1 + len}"

text \<open>
  What \<^verbatim>\<open>map_kernel\<close> relies on: well-formed segments whose file contents are not in usable memory, and
  pages, those of the stack after page \<open>p\<close> included, that are free and do not collide.
\<close>

definition kernel_layout ::
  "('pt \<Rightarrow> u64 \<Rightarrow> bool) \<Rightarrow> u64 \<Rightarrow> u64 \<Rightarrow> u64 \<Rightarrow> program_header list \<Rightarrow> 'pt loader \<Rightarrow> bool" where
  "kernel_layout mappable k p len segs s \<longleftrightarrow>
     sound (ld_map s) \<and>
     (\<forall>seg \<in> set segs. segment_ok k seg \<and>
        (ph_type seg = Load \<longrightarrow> file_frames k seg \<inter> usable (ld_map s) = {}) \<and>
        touched_pages seg \<inter> insert p (stack_pages p len) = {} \<and>
        (\<forall>q \<in> touched_pages seg. mappable (ld_pt s) (q * 4096))) \<and>
     sorted_wrt (\<lambda>a b. touched_pages a \<inter> touched_pages b = {}) segs \<and>
     length (filter (\<lambda>seg. ph_type seg = Tls) segs) \<le> 1 \<and>
     (p + 1 + len) * 4096 < virt_bound \<and>
     (\<forall>q \<in> stack_pages p len. mappable (ld_pt s) (q * 4096))"

definition tls_segment_of :: "program_header list \<Rightarrow> tls_template option" where
  "tls_segment_of segs = (case filter (\<lambda>seg. ph_type seg = Tls) segs of [] \<Rightarrow> None | seg # _ \<Rightarrow> tls_of seg)"

lemma ceiling_pages:
  fixes a v n :: nat
  assumes "v mod 4096 = a mod 4096"
  shows "(v + n + 4095) div 4096 = v div 4096 + ((a + n + 4095) div 4096 - a div 4096)"
    and "a div 4096 \<le> (a + n + 4095) div 4096"
    and "(v + n) div 4096 = v div 4096 + ((a + n) div 4096 - a div 4096)" "a div 4096 \<le> (a + n) div 4096"
proof -
  have *: "(x + k) div 4096 = x div 4096 + (x mod 4096 + k) div 4096" for x k :: nat
  proof -
    have "(x div 4096 * 4096 + (x mod 4096 + k)) div 4096 = x div 4096 + (x mod 4096 + k) div 4096"
      by (simp only: div_mult_self3 [OF zero_neq_numeral [symmetric]])
    then show ?thesis by (simp only: add.assoc [symmetric] div_mult_mod_eq)
  qed
  show "(v + n + 4095) div 4096 = v div 4096 + ((a + n + 4095) div 4096 - a div 4096)"
    "a div 4096 \<le> (a + n + 4095) div 4096"
    "(v + n) div 4096 = v div 4096 + ((a + n) div 4096 - a div 4096)" "a div 4096 \<le> (a + n) div 4096"
    using * [of v "n + 4095"] * [of a "n + 4095"] * [of v n] * [of a n] assms by (simp_all add: add.assoc)
qed

lemma segment_page:
  assumes "i < ph_mem_size seg" and "ph_file_size seg \<le> ph_mem_size seg"
  shows "(ph_virtual_addr seg + i) div 4096 \<in> segment_pages seg"
proof -
  have "ph_virtual_addr seg div 4096 \<le> (ph_virtual_addr seg + i) div 4096" by (intro div_le_mono) simp
  moreover have "(ph_virtual_addr seg + i) div 4096 \<le> (ph_virtual_addr seg + ph_mem_size seg) div 4096"
    using assms by (intro div_le_mono) simp
  moreover have "(ph_virtual_addr seg + i) div 4096 < (ph_virtual_addr seg + ph_file_size seg + 4095) div 4096" if "i < ph_file_size seg"
    using that div_le_mono [of "ph_virtual_addr seg + i + 4096" "ph_virtual_addr seg + ph_file_size seg + 4095" 4096] by simp
  ultimately show ?thesis using assms by (auto simp: segment_pages_def file_pages_def)
qed

lemma loaded_keeps:
  assumes "loaded E k A mem s seg" and "keeps E mappable entry R s s'" and "touched_pages seg \<inter> R = {}"
    and "ph_type seg = Load \<longrightarrow> ph_file_size seg \<le> ph_mem_size seg"
  shows "loaded E k A mem s' seg"
proof (cases "ph_type seg = Load")
  case True
  then have le: "ph_file_size seg \<le> ph_mem_size seg" using assms(4) by simp
  have pages: "segment_pages seg \<inter> R = {}" using assms(3) True by (auto simp: touched_pages_def)
  then have "(ph_virtual_addr seg + i) div 4096 \<notin> R" if "i < ph_mem_size seg" for i
    using segment_page [OF that le] by blast
  then have "stored E s' (ph_virtual_addr seg + i) b" if "stored E s (ph_virtual_addr seg + i) b" "i < ph_mem_size seg" for i b
    using stored_keeps [OF that(1) assms(2)] that(2) by blast
  moreover have "placed E k A s' seg" if "placed E k A s seg"
    using that backs_keeps [OF _ assms(2) pages] unfolding placed_def by blast
  ultimately show ?thesis
    using assms(1) le True unfolding loaded_def by simp
qed (simp add: loaded_def)

lemma placed_mono: "placed E k A s seg \<Longrightarrow> A \<subseteq> A' \<Longrightarrow> placed E k A' s seg"
  unfolding placed_def by blast

text \<open>The file is not in usable frames, so it can be compared with its contents before an operation.\<close>

lemma loaded_source:
  assumes "keeps E mappable entry R s s1" and "ph_type seg = Load \<longrightarrow> file_frames k seg \<inter> usable (ld_map s) = {}"
    and "loaded E k (usable (ld_map s1)) (ld_mem s1) s2 seg"
  shows "loaded E k (usable (ld_map s)) (ld_mem s) s2 seg"
proof -
  have "ld_mem s1 (k + ph_offset seg + i) = ld_mem s (k + ph_offset seg + i)" if "ph_type seg = Load" "i < ph_file_size seg" for i
  proof (rule keeps_memD [OF assms(1)])
    let ?a = "k + ph_offset seg"
    have "?a div 4096 \<le> (?a + i) div 4096" by (intro div_le_mono) simp
    moreover have "(?a + i) div 4096 < (?a + ph_file_size seg + 4095) div 4096"
      using that(2) div_le_mono [of "?a + i + 4096" "?a + ph_file_size seg + 4095" 4096] by simp
    ultimately have "(?a + i) div 4096 \<in> file_frames k seg" by (simp add: file_frames_def)
    then show "(?a + i) div 4096 \<notin> usable (ld_map s)" using assms(2) that(1) by blast
  qed
  moreover have "usable (ld_map s1) \<subseteq> usable (ld_map s)" using assms(1) by (simp add: keeps_def)
  note placed_mono [OF _ this, of E k s2 seg]
  ultimately show ?thesis using assms(3) by (simp add: loaded_def)
qed

subsection \<open>The operations\<close>

locale kernel_loader =
  frame_allocation "env_sort E" "env_x86 E" + mapper "env_map_to E" "env_translate E" mappable
  for E :: "'pt loader_env" and mappable :: "'pt \<Rightarrow> u64 \<Rightarrow> bool" +
  fixes entry :: "'pt \<Rightarrow> u64 \<Rightarrow> 'sub"
  assumes unmap_ok: "env_translate E pt page = Some (f, fl) \<Longrightarrow>
    \<exists>pt'. env_unmap E page pt = (Inr f, pt') \<and> env_translate E pt' = (env_translate E pt)(page := None) \<and>
      mappable pt' page \<and> (\<forall>q. mappable pt q \<longrightarrow> mappable pt' q)"
    and unmap_entry: "env_unmap E page pt = (Inr f, pt') \<Longrightarrow> i \<noteq> page div 2 ^ 39 \<Longrightarrow> entry pt' i = entry pt i"
    and map_entry: "env_map_to E alloc page frame fl pt fa = Inr (Inr u, pt', fa') \<Longrightarrow> i \<noteq> page div 2 ^ 39 \<Longrightarrow>
      entry pt' i = entry pt i"
begin

lemma alloc_region_cases:
  assumes "sound m" and "t \<noteq> Usable"
  obtains (some) f m' where "alloc_region E t m = Inr (Some (f * 4096), m')" and "sound m'" and "f \<in> usable m"
    and "usable m' = usable m - {f}"
  | (none) "alloc_region E t m = Inr (None, m)" and "usable m = {}"
  | (full) "alloc_region E t m = Inl map_full"
proof -
  have wf: "mm_wf m" "sole_usable m" using assms(1) by (simp_all add: sound_def)
  show thesis
    using allocate_frame_spec [OF wf(1), of "env_profile E" t] some none full allocate_frame_usable [OF wf(2) assms(2)]
    unfolding alloc_region_def [symmetric] map_full_def sound_def usable_def by blast
qed

lemma alloc_region_failed: "\<nexists>f m'. alloc_region E t m = Inr (Some f, m') \<Longrightarrow> \<not> ample E (Suc n) m"
  unfolding ample.simps by blast

lemma spends_alloc:
  assumes "alloc_region E t m = Inr (Some a, m')" and "usable m' = usable m - {f}"
  shows "spends E 1 m m'"
proof -
  have "ample E k m'" if "ample E (1 + k) m" for k
    using that assms(1) by (metis ample.simps(2) plus_1_eq_Suc Pair_inject sum.inject(2))
  then show ?thesis using assms(2) unfolding spends_def by (auto intro!: exI [of _ "{f}"])
qed

lemma drawn_usable:
  assumes "sound m" and "t \<noteq> Usable" and "drawn (alloc_region E t) fs m m'"
  shows "sound m' \<and> usable m' \<subseteq> usable m \<and> spends E (length fs) m m'"
  using assms(1,3)
proof (induction fs arbitrary: m)
  case (Cons f fs)
  from Cons.prems(1) assms(2) show ?case
  proof (cases rule: alloc_region_cases)
    case (some g m1)
    then have "sound m' \<and> usable m' \<subseteq> usable m1 \<and> spends E (length fs) m1 m'" using Cons.IH [of m1] Cons.prems(2) by auto
    then show ?thesis using spends_trans [OF spends_alloc [OF some(1)], of g] some by auto
  qed (use Cons.prems(2) in simp_all)
qed simp

lemma runs_alloc:
  assumes "sound (ld_map s)" and "t \<noteq> Usable"
  shows "runs E FrameAllocationFailed 1 (alloc_ld E t) s
    (\<lambda>a s'. \<exists>f. a = f * 4096 \<and> f \<in> usable (ld_map s) \<and> f \<notin> usable (ld_map s') \<and>
       keeps E mappable entry {} s s' \<and> ld_mem s' = ld_mem s \<and> ld_pt s' = ld_pt s)"
  using assms
proof (cases rule: alloc_region_cases)
  case (some f m')
  with spends_alloc [OF some(1), of f] show ?thesis by (auto simp: runs_def alloc_ld_def keeps_def)
next
  case none
  with alloc_region_failed [of t "ld_map s" 0] show ?thesis by (simp add: runs_def alloc_ld_def)
next
  case full
  with alloc_region_failed [of t "ld_map s" 0] show ?thesis by (simp add: runs_def alloc_ld_def)
qed

text \<open>A mapping operation, which takes frames for tables from the allocator.\<close>

lemma runs_done_within:
  assumes "sound (ld_map s)" and "done_within (alloc_region E PageTable) n (ld_map s) x r"
    and f: "f s = bind_rust r (\<lambda>(e, pt, m). Inr (e, s\<lparr>ld_pt := pt, ld_map := m\<rparr>))"
    and Q: "\<And>pt m. r = Inr (Inr x, pt, m) \<Longrightarrow> sound m \<Longrightarrow> usable m \<subseteq> usable (ld_map s) \<Longrightarrow> Q x (s\<lparr>ld_pt := pt, ld_map := m\<rparr>)"
  shows "runs E FrameAllocationFailed n f s Q"
proof -
  let ?alloc = "alloc_region E PageTable"
  obtain fs m where d: "drawn ?alloc fs (ld_map s) m" and c:
    "length fs \<le> n \<and> (\<exists>pt'. r = Inr (Inr x, pt', m)) \<or>
     length fs < n \<and> (\<exists>pt' m2. ?alloc m = Inr (None, m2) \<and> r = Inr (Inl FrameAllocationFailed, pt', m2)) \<or>
     length fs < n \<and> (\<exists>p. ?alloc m = Inl p \<and> r = Inl p)"
    using assms(2) unfolding done_within_def by blast
  have m: "sound m" "usable m \<subseteq> usable (ld_map s)" and sp: "spends E (length fs) (ld_map s) m" using drawn_usable [OF assms(1) _ d] by simp_all
  have am: "ample E k m" if "length fs \<le> n" "ample E (n + k) (ld_map s)" for n k
    using ample_drawn [OF _ d, of k] ample_mono [OF that(2), of "length fs + k"] that(1) by simp
  have fail: "\<not> ample E n (ld_map s)" if "length fs < n" "\<nexists>f m'. ?alloc m = Inr (Some f, m')"
  proof
    assume "ample E n (ld_map s)"
    then have "ample E (Suc 0) m" using am [of "n - 1" 1] that(1) by (simp del: ample.simps)
    then show False using alloc_region_failed [OF that(2)] by blast
  qed
  from m(1) consider f m' where "?alloc m = Inr (Some (f * 4096), m')" | "?alloc m = Inr (None, m)" "usable m = {}"
    | "?alloc m = Inl map_full" by (rule alloc_region_cases [of m PageTable]) auto
  note alloc = this
  from c show ?thesis
  proof (elim disjE conjE exE)
    fix pt' assume r: "r = Inr (Inr x, pt', m)" and l: "length fs \<le> n"
    show ?thesis using r Q [OF r m] spends_mono [OF sp l] by (simp add: runs_def f)
  next
    fix pt' m2 assume r: "?alloc m = Inr (None, m2)" "r = Inr (Inl FrameAllocationFailed, pt', m2)" "length fs < n"
    then have "\<not> ample E n (ld_map s)" by (intro fail) simp_all
    moreover have "m2 = m" "usable m = {}" using alloc r(1) by (cases; simp)+
    ultimately show ?thesis unfolding runs_def f r(2) by simp
  next
    fix p assume r: "?alloc m = Inl p" "r = Inl p" "length fs < n"
    then have "\<not> ample E n (ld_map s)" by (intro fail) simp_all
    moreover have "p = map_full" using alloc r(1) by (cases; simp)
    ultimately show ?thesis unfolding runs_def f r(2) by simp
  qed
qed

lemma runs_map_page:
  assumes "sound (ld_map s)" and "mappable (ld_pt s) (q * 4096)"
  shows "runs E FrameAllocationFailed 3 (map_page E (q * 4096) a fl) s
    (\<lambda>_ s'. keeps E mappable entry {q} s s' \<and> ld_mem s' = ld_mem s \<and>
       env_translate E (ld_pt s') (q * 4096) = Some (a, fl))"
proof (rule runs_done_within [where f = "map_page E (q * 4096) a fl", OF assms(1) map_outcome [OF assms(2)] map_page_def])
  fix pt' m assume r: "env_map_to E (alloc_region E PageTable) (q * 4096) a fl (ld_pt s) (ld_map s) = Inr (Inr (q * 4096), pt', m)"
    and m: "sound m" "usable m \<subseteq> usable (ld_map s)"
  have "keeps E mappable entry {q} s (s\<lparr>ld_pt := pt', ld_map := m\<rparr>)"
    using m map_ok [OF r] map_mappable [OF r] map_entry [OF r, unfolded level4_of_page] by (simp add: keeps_def)
  then show "keeps E mappable entry {q} s (s\<lparr>ld_pt := pt', ld_map := m\<rparr>) \<and> ld_mem (s\<lparr>ld_pt := pt', ld_map := m\<rparr>) = ld_mem s \<and>
      env_translate E (ld_pt (s\<lparr>ld_pt := pt', ld_map := m\<rparr>)) (q * 4096) = Some (a, fl)"
    using map_ok [OF r] by simp
qed

lemma runs_map_frames:
  assumes "sound (ld_map s)" and "pf \<le> lo" and "lo \<le> hi" and "pv + (hi - pf) \<le> virt_bound div 4096"
    and "\<forall>q \<in> {pv + (lo - pf) ..< pv + (hi - pf)}. mappable (ld_pt s) (q * 4096)"
  shows "runs E FrameAllocationFailed (3 * (hi - lo))
    (map_frames E (pv * 4096) (pf * 4096) fl (map (\<lambda>n. n * 4096) [lo ..< hi])) s
    (\<lambda>_ s'. keeps E mappable entry {pv + (lo - pf) ..< pv + (hi - pf)} s s' \<and> ld_mem s' = ld_mem s \<and>
       (\<forall>q \<in> {pv + (lo - pf) ..< pv + (hi - pf)}.
          env_translate E (ld_pt s') (q * 4096) = Some ((pf + (q - pv)) * 4096, fl)))"
  using assms
proof (induction "hi - lo" arbitrary: lo s)
  case 0
  then show ?case by (simp add: runs_ok keeps_refl)
next
  case (Suc k)
  let ?p = "pv + (lo - pf)" and ?R = "{pv + (Suc lo - pf) ..< pv + (hi - pf)}"
  have lt: "lo < hi" and k: "k = hi - Suc lo" using Suc.hyps(2) by simp_all
  have R: "{?p ..< pv + (hi - pf)} = insert ?p ?R" "?p \<notin> ?R" "3 * (hi - lo) = 3 + 3 * (hi - Suc lo)"
    using lt Suc.prems(2) by auto
  have "(lo * 4096 - pf * 4096) div 4096 = lo - pf" by (simp add: diff_mult_distrib [symmetric])
  moreover have "pv * 4096 + (lo - pf) * 4096 < virt_bound"
    using Suc.prems(2,4) lt by (simp add: virt_bound_def)
  ultimately have page: "page_add (env_x86 E) (pv * 4096) ((lo * 4096 - pf * 4096) div 4096) = Inr (?p * 4096)"
    using add_pages [of "pv * 4096" "lo - pf"] by (simp add: add_mult_distrib)
  have m: "mappable (ld_pt s) (?p * 4096)" using Suc.prems(5) R(1) by blast
  have "runs E FrameAllocationFailed (3 + 3 * (hi - Suc lo))
    (bind_ld (map_page E (?p * 4096) (lo * 4096) fl) (\<lambda>_. map_frames E (pv * 4096) (pf * 4096) fl (map (\<lambda>n. n * 4096) [Suc lo ..< hi]))) s
    (\<lambda>_ s'. keeps E mappable entry (insert ?p ?R) s s' \<and> ld_mem s' = ld_mem s \<and>
       (\<forall>q \<in> insert ?p ?R. env_translate E (ld_pt s') (q * 4096) = Some ((pf + (q - pv)) * 4096, fl)))"
  proof (rule runs_bind [OF runs_map_page [OF Suc.prems(1) m]], elim conjE)
    fix s1 assume s1: "keeps E mappable entry {?p} s s1" "ld_mem s1 = ld_mem s"
      "env_translate E (ld_pt s1) (?p * 4096) = Some (lo * 4096, fl)"
    have f: "\<forall>q \<in> ?R. mappable (ld_pt s1) (q * 4096)"
    proof
      fix q assume q: "q \<in> ?R"
      then have "mappable (ld_pt s) (q * 4096)" using Suc.prems(5) R(1) by blast
      with q R(2) show "mappable (ld_pt s1) (q * 4096)" by (intro keeps_mappableD [OF s1(1)]) blast+
    qed
    show "runs E FrameAllocationFailed (3 * (hi - Suc lo)) (map_frames E (pv * 4096) (pf * 4096) fl (map (\<lambda>n. n * 4096) [Suc lo ..< hi])) s1
      (\<lambda>_ s'. keeps E mappable entry (insert ?p ?R) s s' \<and> ld_mem s' = ld_mem s \<and>
        (\<forall>q \<in> insert ?p ?R. env_translate E (ld_pt s') (q * 4096) = Some ((pf + (q - pv)) * 4096, fl)))"
    proof (rule runs_weaken [OF Suc.hyps(1) [OF k keeps_soundD [OF s1(1)] _ _ Suc.prems(4) f]], goal_cases)
      case (3 _ s2)
      then show ?case
        using keeps_trans [OF s1(1), of ?R s2 "insert ?p ?R"] keeps_translateD [of E mappable entry ?R s1 s2 ?p] s1(2,3) R(2) Suc.prems(2)
        by auto
    qed (use Suc.prems(2) lt in simp_all)
  qed
  then show ?case unfolding R upt_conv_Cons [OF lt] by (simp add: runs_lift [OF page])
qed

lemma runs_map_fresh:
  assumes "sound (ld_map s)" and "t \<noteq> Usable" and "\<forall>q \<in> {lo ..< hi}. mappable (ld_pt s) (q * 4096)"
  shows "runs E FrameAllocationFailed (4 * (hi - lo)) (map_fresh E t fl (map (\<lambda>n. n * 4096) [lo ..< hi])) s
    (\<lambda>_ s'. keeps E mappable entry {lo ..< hi} s s' \<and> ld_mem s' = ld_mem s \<and>
       (\<exists>g. backs E s' fl g {lo ..< hi} \<and> g ` {lo ..< hi} \<subseteq> usable (ld_map s)))"
  using assms
proof (induction "hi - lo" arbitrary: lo s)
  case 0
  then show ?case by (simp add: runs_ok keeps_refl backs_def)
next
  case (Suc k)
  let ?R = "{Suc lo ..< hi}" and ?f = "map_fresh E t fl (map (\<lambda>n. n * 4096) [Suc lo ..< hi])"
  let ?Q = "\<lambda>_ s'. keeps E mappable entry (insert lo ?R) s s' \<and> ld_mem s' = ld_mem s \<and>
    (\<exists>g. backs E s' fl g (insert lo ?R) \<and> g ` insert lo ?R \<subseteq> usable (ld_map s))"
  have lt: "lo < hi" and k: "k = hi - Suc lo" using Suc.hyps(2) by simp_all
  have R: "{lo ..< hi} = insert lo ?R" "4 * (hi - lo) = 1 + (3 + 4 * (hi - Suc lo))" using lt by auto
  have step: "runs E FrameAllocationFailed (4 * (hi - Suc lo)) ?f s2 ?Q"
    if f: "f \<in> usable (ld_map s)" "f \<notin> usable (ld_map s1)"
      and s1: "keeps E mappable entry {} s s1" "ld_mem s1 = ld_mem s" "ld_pt s1 = ld_pt s"
      and s2: "keeps E mappable entry {lo} s1 s2" "ld_mem s2 = ld_mem s1" "env_translate E (ld_pt s2) (lo * 4096) = Some (f * 4096, fl)"
    for f s1 s2
  proof -
    have k12: "keeps E mappable entry {lo} s s2" using keeps_trans [OF s1(1) s2(1)] by simp
    have free: "\<forall>q \<in> ?R. mappable (ld_pt s2) (q * 4096)"
      using keeps_mappableD [OF k12] Suc.prems(3) R(1) by auto
    have f2: "f \<notin> usable (ld_map s2)" using keeps_usableD [OF s2(1)] f(2) by blast
    show ?thesis
    proof (rule runs_weaken [OF Suc.hyps(1) [OF k keeps_soundD [OF k12] Suc.prems(2) free]], elim conjE exE)
      fix s3 g assume s3: "keeps E mappable entry ?R s2 s3" "ld_mem s3 = ld_mem s2" "backs E s3 fl g ?R" "g ` ?R \<subseteq> usable (ld_map s2)"
      have "backs E s3 fl (\<lambda>_. f) {lo}"
        using keeps_translateD [OF s3(1), of lo] keeps_usableD [OF s3(1)] s2(3) f2 by (simp add: backs_def)
      moreover have "(\<lambda>_. f) ` {lo} \<inter> g ` ?R = {}" using s3(4) f2 by auto
      ultimately have "backs E s3 fl (\<lambda>q. if q \<in> {lo} then f else g q) (insert lo ?R)"
        using backs_join [OF _ s3(3), of "\<lambda>_. f" "{lo}"] by simp
      moreover have "(\<lambda>q. if q \<in> {lo} then f else g q) ` insert lo ?R \<subseteq> usable (ld_map s)"
        using s3(4) k12 f(1) by (auto simp: keeps_def)
      moreover have "keeps E mappable entry (insert lo ?R) s s3" using keeps_trans [OF k12 s3(1), of "insert lo ?R"] by auto
      moreover have "ld_mem s3 = ld_mem s" using s3(2) s2(2) s1(2) by simp
      ultimately show "?Q u s3" for u :: unit by blast
    qed
  qed
  have "runs E FrameAllocationFailed (1 + (3 + 4 * (hi - Suc lo)))
    (bind_ld (alloc_ld E t) (\<lambda>frame. bind_ld (map_page E (lo * 4096) frame fl) (\<lambda>_. ?f))) s ?Q"
  proof (rule runs_bind [OF runs_alloc [OF Suc.prems(1,2)]], elim exE conjE, hypsubst)
    fix s1 f assume s1: "f \<in> usable (ld_map s)" "f \<notin> usable (ld_map s1)" "keeps E mappable entry {} s s1" "ld_mem s1 = ld_mem s" "ld_pt s1 = ld_pt s"
    have "mappable (ld_pt s1) (lo * 4096)" using Suc.prems(3) lt s1(5) by simp
    then show "runs E FrameAllocationFailed (3 + 4 * (hi - Suc lo)) (bind_ld (map_page E (lo * 4096) (f * 4096) fl) (\<lambda>_. ?f)) s1 ?Q"
      by (rule runs_bind [OF runs_map_page [OF keeps_soundD [OF s1(3)]]]) (use step s1 in blast)
  qed
  then show ?case unfolding R upt_conv_Cons [OF lt] by simp
qed

lemma runs_zero_bytes:
  assumes "\<forall>x \<in> set xs. v + x < virt_bound \<and> phys_of E (ld_pt s) (v + x) = Some (at x)"
  shows "zero_bytes E v xs s = Inr (Inr (), s\<lparr>ld_mem := zeroed (at ` set xs) (ld_mem s)\<rparr>)"
  using assms
proof (induction xs arbitrary: s)
  case (Cons x xs)
  let ?s = "s\<lparr>ld_mem := (ld_mem s)(at x := 0)\<rparr>"
  have "virt_add (env_x86 E) v x = Inr (v + x)" using Cons.prems virt_add_valid by simp
  moreover have "zero_bytes E v xs ?s = Inr (Inr (), ?s\<lparr>ld_mem := zeroed (at ` set xs) (ld_mem ?s)\<rparr>)"
    using Cons.prems by (intro Cons.IH) simp
  moreover have "zeroed (at ` set xs) (ld_mem ?s) = zeroed (at ` set (x # xs)) (ld_mem s)"
    by (auto simp: zeroed_def fun_eq_iff)
  ultimately show ?case using Cons.prems by (simp add: bind_ld_def lift_ld_def write_byte_ld_def)
qed (simp add: ok_ld_def)

lemma align_up_page: "align_up (env_x86 E) a 4096 = (a + 4095) div 4096 * 4096"
  using align_up_of [of a 12] by simp

lemma temp_page: "virt_addr_new (env_x86 E) TEMP_PAGE = Inr TEMP_PAGE" "page_containing (env_x86 E) TEMP_PAGE = TEMP_PAGE"
  using virt_valid [of TEMP_PAGE] page_of [of TEMP_PAGE] by (simp_all add: TEMP_PAGE_def virt_bound_def)

lemma runs_copy_page:
  assumes "env_translate E (ld_pt s) (p * 4096) = Some (d * 4096, fl)" and "env_translate E (ld_pt s) (q * 4096) = Some (r * 4096, fl')"
    and "Q () (s\<lparr>ld_mem := copied (d * 4096) (r * 4096) (ld_mem s)\<rparr>)"
  shows "runs E err 0 (copy_page E (p * 4096) (q * 4096)) s Q"
  using assms
  by (intro runs_return [of _ s "()" "s\<lparr>ld_mem := copied (d * 4096) (r * 4096) (ld_mem s)\<rparr>"]) (simp_all add: copy_page_def phys_of_def)

lemma runs_unmap:
  assumes "sound (ld_map s)" and "env_translate E (ld_pt s) (q * 4096) = Some (f, fl)"
  shows "runs E err 0 (unmap_ld E (q * 4096)) s
    (\<lambda>_ s'. keeps E mappable entry {q} s s' \<and> ld_mem s' = ld_mem s \<and> ld_map s' = ld_map s \<and> mappable (ld_pt s') (q * 4096))"
proof -
  obtain pt where pt: "env_unmap E (q * 4096) (ld_pt s) = (Inr f, pt)" "env_translate E pt = (env_translate E (ld_pt s))(q * 4096 := None)"
    "mappable pt (q * 4096)" "\<forall>p. mappable (ld_pt s) p \<longrightarrow> mappable pt p" using unmap_ok [OF assms(2)] by blast
  then show ?thesis using assms(1) by (intro runs_return [of _ s "()" "s\<lparr>ld_pt := pt\<rparr>"]) (simp_all add: unmap_ld_def keeps_def unmap_entry [OF pt(1), unfolded level4_of_page])
qed

text \<open>The page where the zeroed bytes begin, when they begin inside a page, gets a frame of its own.\<close>

lemma runs_remap_last_page:
  fixes v sz
  defines "l \<equiv> (v + sz) div 4096" and "tp \<equiv> TEMP_PAGE div 4096"
  assumes sd: "sound (ld_map s)" and sz: "(v + sz) mod 4096 \<noteq> 0" "v + sz < virt_bound"
    and last: "env_translate E (ld_pt s) (l * 4096) = Some (r * 4096, fl0)" "r \<notin> usable (ld_map s)"
    and temp: "mappable (ld_pt s) (tp * 4096)" "tp \<noteq> l"
  shows "runs E FrameAllocationFailed 7 (remap_last_page E v sz fl) s
    (\<lambda>_ s'. keeps E mappable entry {tp, l} s s' \<and>
       (\<exists>d. d \<in> usable (ld_map s) \<and> d \<notin> usable (ld_map s') \<and> env_translate E (ld_pt s') (l * 4096) = Some (d * 4096, fl) \<and>
          ld_mem s' = copied (d * 4096) (r * 4096) (ld_mem s)))"
proof -
  have tp: "TEMP_PAGE = tp * 4096" by (simp add: tp_def TEMP_PAGE_def)
  have "v + sz - 1 = l * 4096 + ((v + sz) mod 4096 - 1)" 
    using sz(1) div_mult_mod_eq [of "v + sz" 4096] unfolding l_def by simp
  moreover have "(v + sz) mod 4096 - 1 < 4096" by (simp add: less_imp_diff_less)
  ultimately have "(v + sz - 1) div 4096 = l" by simp
  then have lp: "page_containing (env_x86 E) (v + sz - 1) = l * 4096" by (simp add: page_number)
  have "v + sz \<noteq> 0" using sz(1) by (metis mod_0)
  then have "1 \<le> v + sz" by linarith
  then have la: "bind_rust (virt_add (env_x86 E) v sz) (\<lambda>a. virt_sub (env_x86 E) a 1) = Inr (v + sz - 1)"
    using virt_add_valid [OF sz(2)] virt_sub_valid [OF sz(2)] by simp
  let ?Q = "\<lambda>_ s'. keeps E mappable entry {tp, l} s s' \<and>
    (\<exists>d. d \<in> usable (ld_map s) \<and> d \<notin> usable (ld_map s') \<and> env_translate E (ld_pt s') (l * 4096) = Some (d * 4096, fl) \<and>
      ld_mem s' = copied (d * 4096) (r * 4096) (ld_mem s))"
  have tail: "runs E FrameAllocationFailed 3 (bind_ld (unmap_ld E (l * 4096)) (\<lambda>_. bind_ld (map_page E (l * 4096) (d * 4096) fl) (\<lambda>_. ok_ld ()))) s2 ?Q"
    if s2: "keeps E mappable entry {tp} s s2" "ld_mem s2 = copied (d * 4096) (r * 4096) (ld_mem s)"
      and d: "d \<in> usable (ld_map s)" "d \<notin> usable (ld_map s2)" for d s2
  proof -
    have "env_translate E (ld_pt s2) (l * 4096) = Some (r * 4096, fl0)"
      using keeps_translateD [OF s2(1), of l] temp(2) last(1) by simp
    note u = runs_unmap [OF keeps_soundD [OF s2(1)] this, of FrameAllocationFailed]
    have "runs E FrameAllocationFailed (0 + (3 + 0)) (bind_ld (unmap_ld E (l * 4096)) (\<lambda>_. bind_ld (map_page E (l * 4096) (d * 4096) fl) (\<lambda>_. ok_ld ()))) s2 ?Q"
    proof (rule runs_bind [OF u], elim conjE)
      fix s3 assume s3: "keeps E mappable entry {l} s2 s3" "ld_mem s3 = ld_mem s2" "ld_map s3 = ld_map s2" "mappable (ld_pt s3) (l * 4096)"
      show "runs E FrameAllocationFailed (3 + 0) (bind_ld (map_page E (l * 4096) (d * 4096) fl) (\<lambda>_. ok_ld ())) s3 ?Q"
      proof (rule runs_bind [OF runs_map_page [OF keeps_soundD [OF s3(1)] s3(4)]], elim conjE, rule runs_ok)
        fix s4 assume s4: "keeps E mappable entry {l} s3 s4" "ld_mem s4 = ld_mem s3" "env_translate E (ld_pt s4) (l * 4096) = Some (d * 4096, fl)"
        have "keeps E mappable entry {tp, l} s s4"
          by (rule keeps_trans [OF s2(1) keeps_trans [OF s3(1) s4(1), of "{l}"]]) auto
        moreover have "d \<notin> usable (ld_map s4)" using d(2) s3(3) keeps_usableD [OF s4(1)] by simp
        ultimately show "?Q () s4" using s4(2,3) s3(2) s2(2) d(1) by auto
      qed
    qed
    then show ?thesis by simp
  qed
  have "runs E FrameAllocationFailed (1 + (3 + (0 + 3))) (remap_last_page E v sz fl) s ?Q"
    unfolding remap_last_page_def
  proof (rule runs_lift [OF temp_page(1)], unfold temp_page(2),
      rule runs_bind [OF runs_alloc [OF sd]], simp, elim exE conjE, hypsubst)
    fix s1 d assume s1: "d \<in> usable (ld_map s)" "d \<notin> usable (ld_map s1)" "keeps E mappable entry {} s s1" "ld_mem s1 = ld_mem s" "ld_pt s1 = ld_pt s"
    have "mappable (ld_pt s1) (tp * 4096)" using temp(1) s1(5) by simp
    note mp = runs_map_page [OF keeps_soundD [OF s1(3)] this, of "d * 4096" fl]
    show "runs E FrameAllocationFailed (3 + (0 + 3)) (bind_ld (map_page E TEMP_PAGE (d * 4096) fl) (\<lambda>_.
        bind_ld (lift_ld (bind_rust (virt_add (env_x86 E) v sz) (\<lambda>a. virt_sub (env_x86 E) a 1))) (\<lambda>last_addr.
          bind_ld (copy_page E TEMP_PAGE (page_containing (env_x86 E) last_addr)) (\<lambda>_.
            bind_ld (unmap_ld E (page_containing (env_x86 E) last_addr)) (\<lambda>_.
              bind_ld (map_page E (page_containing (env_x86 E) last_addr) (d * 4096) fl) (\<lambda>_. ok_ld ())))))) s1 ?Q"
      unfolding tp
    proof (rule runs_bind [OF mp], elim conjE, rule runs_lift [OF la], unfold lp)
      fix s2 assume s2: "keeps E mappable entry {tp} s1 s2" "ld_mem s2 = ld_mem s1" "env_translate E (ld_pt s2) (tp * 4096) = Some (d * 4096, fl)"
      let ?s2 = "s2\<lparr>ld_mem := copied (d * 4096) (r * 4096) (ld_mem s2)\<rparr>"
      have k: "keeps E mappable entry {tp} s s2" using keeps_trans [OF s1(3) s2(1), of "{tp}"] by simp
      then have "keeps E mappable entry {tp} s ?s2"
        using s1(1) by (auto simp: keeps_def copied_frame)
      then have "runs E FrameAllocationFailed 3 (bind_ld (unmap_ld E (l * 4096)) (\<lambda>_. bind_ld (map_page E (l * 4096) (d * 4096) fl) (\<lambda>_. ok_ld ()))) ?s2 ?Q"
        using s1(1,2,4) s2(2) keeps_usableD [OF s2(1)] by (intro tail) simp_all
      moreover have "env_translate E (ld_pt s2) (l * 4096) = Some (r * 4096, fl0)"
        using keeps_translateD [OF k, of l] temp(2) last(1) by simp
      ultimately show "runs E FrameAllocationFailed (0 + 3) (bind_ld (copy_page E (tp * 4096) (l * 4096)) (\<lambda>_.
          bind_ld (unmap_ld E (l * 4096)) (\<lambda>_. bind_ld (map_page E (l * 4096) (d * 4096) fl) (\<lambda>_. ok_ld ())))) s2 ?Q"
        by (intro runs_bind [where P = "\<lambda>_ s'. s' = ?s2"]) (auto intro: runs_copy_page [OF s2(3)])
    qed
  qed
  then show ?thesis by simp
qed

lemma runs_own_last_page:
  fixes v sz
  defines "Q \<equiv> {v div 4096 ..< (v + sz + 4095) div 4096}"
    and "T \<equiv> if (v + sz) mod 4096 = 0 then {} else {TEMP_PAGE div 4096}"
  assumes sd: "sound (ld_map s)" and fits: "v + sz < virt_bound" and bk: "backs E s fl h Q"
    and temp: "\<forall>q \<in> T. mappable (ld_pt s) (q * 4096)" "T \<inter> Q = {}"
  shows "runs E FrameAllocationFailed 7 (if (v + sz) mod 4096 \<noteq> 0 then remap_last_page E v sz fl else ok_ld ()) s
    (\<lambda>_ s'. keeps E mappable entry (T \<union> Q) s s' \<and>
       (\<exists>h1. backs E s' fl h1 Q \<and> h1 ` Q \<subseteq> h ` Q \<union> usable (ld_map s) \<and> (\<forall>q \<in> Q. v + sz < (q + 1) * 4096 \<longrightarrow> h1 q \<in> usable (ld_map s)) \<and>
          (\<forall>q \<in> Q. \<forall>x < 4096. ld_mem s' (h1 q * 4096 + x) = ld_mem s (h q * 4096 + x))))"
proof (cases "(v + sz) mod 4096 = 0")
  case True
  then have n: "\<not> v + sz < (q + 1) * 4096" if "q \<in> Q" for q
    using that by (auto simp: Q_def elim!: dvdE simp flip: dvd_eq_mod_eq_0)
  have same: "runs E FrameAllocationFailed 0 (ok_ld ()) s (\<lambda>_ s'. s' = s)" by (simp add: runs_ok)
  have br: "(if (v + sz) mod 4096 \<noteq> 0 then remap_last_page E v sz fl else ok_ld ()) = ok_ld ()" using True by simp
  show ?thesis
    unfolding br
  proof (rule runs_mono [OF same], goal_cases)
    case (2 x s')
    show ?case using n unfolding 2 by (intro conjI keeps_refl [OF sd] exI [of _ h] bk) simp_all
  qed simp
next
  case False
  let ?l = "(v + sz) div 4096"
  have l: "(v + sz + 4095) div 4096 = Suc ?l"
  proof -
    have "(v + sz) mod 4096 + 4095 = 4096 + ((v + sz) mod 4096 - 1)" using False by simp
    then have "v + sz + 4095 = ?l * 4096 + 4096 + ((v + sz) mod 4096 - 1)"
      using div_mult_mod_eq [of "v + sz" 4096] by simp
    then have e: "v + sz + 4095 = Suc ?l * 4096 + ((v + sz) mod 4096 - 1)" by simp
    have "(v + sz) mod 4096 - 1 < 4096" by (simp add: less_imp_diff_less)
    then show ?thesis by (simp only: e) simp
  qed
  have lQ: "?l \<in> Q" by (simp add: Q_def l div_le_mono)
  have T: "T = {TEMP_PAGE div 4096}" using False by (simp add: T_def)
  have r: "env_translate E (ld_pt s) (?l * 4096) = Some (h ?l * 4096, fl)" "h ?l \<notin> usable (ld_map s)" "inj_on h Q"
    using bk lQ by (auto simp: backs_def)
  have tp: "mappable (ld_pt s) (TEMP_PAGE div 4096 * 4096)" "TEMP_PAGE div 4096 \<noteq> ?l" using temp lQ by (auto simp: T)
  have ql: "q = ?l" if "q \<in> Q" "v + sz < (q + 1) * 4096" for q
    using less_mult_imp_div_less [OF that(2)] that(1) unfolding Q_def l by simp
  show ?thesis
  proof (simp only: False not_False_eq_True if_True,
      rule runs_weaken [OF runs_remap_last_page [OF sd False fits r(1,2) tp]], elim conjE exE)
    fix s' d assume s': "keeps E mappable entry {TEMP_PAGE div 4096, ?l} s s'" "d \<in> usable (ld_map s)" "d \<notin> usable (ld_map s')"
      "env_translate E (ld_pt s') (?l * 4096) = Some (d * 4096, fl)" "ld_mem s' = copied (d * 4096) (h ?l * 4096) (ld_mem s)"
    have d: "d \<notin> h ` Q" using s'(2) bk by (auto simp: backs_def)
    have "env_translate E (ld_pt s') (q * 4096) = Some ((h(?l := d)) q * 4096, fl)" if "q \<in> Q" for q
      using that s'(4) keeps_translateD [OF s'(1), of q] bk temp(2) by (auto simp: backs_def T)
    moreover have "(h(?l := d)) q \<notin> usable (ld_map s')" if "q \<in> Q" for q
      using that s'(3) keeps_usableD [OF s'(1)] bk by (auto simp: backs_def)
    moreover have "inj_on (h(?l := d)) Q" using r(3) d by (auto simp: inj_on_def)
    ultimately have "backs E s' fl (h(?l := d)) Q" unfolding backs_def disjoint_iff by blast
    moreover have "ld_mem s' ((h(?l := d)) q * 4096 + x) = ld_mem s (h q * 4096 + x)" if "q \<in> Q" "x < 4096" for q x
      using that d unfolding s'(5) by (auto simp: copied_frame)
    moreover have "h(?l := d) ` Q \<subseteq> h ` Q \<union> usable (ld_map s)" using s'(2) by auto
    moreover have "keeps E mappable entry (T \<union> Q) s s'" using keeps_mono [OF s'(1)] lQ T by auto
    moreover have "(h(?l := d)) q \<in> usable (ld_map s)" if "q \<in> Q" "v + sz < (q + 1) * 4096" for q
      using ql [OF that] s'(2) by simp
    ultimately show "keeps E mappable entry (T \<union> Q) s s' \<and>
       (\<exists>h1. backs E s' fl h1 Q \<and> h1 ` Q \<subseteq> h ` Q \<union> usable (ld_map s) \<and> (\<forall>q \<in> Q. v + sz < (q + 1) * 4096 \<longrightarrow> h1 q \<in> usable (ld_map s)) \<and>
          (\<forall>q \<in> Q. \<forall>x < 4096. ld_mem s' (h1 q * 4096 + x) = ld_mem s (h q * 4096 + x)))" by blast
  qed
qed

text \<open>
  Zeroing the bytes from \<open>sz\<close> to \<open>ms\<close> when the pages \<open>R\<close> of the range are backed: what was stored
  before them stays, and only the frames behind the zeroed bytes change.
\<close>

lemma runs_zero_range:
  fixes v sz ms
  defines "R \<equiv> {v div 4096 ..< Suc ((v + ms) div 4096)}"
  assumes "sound (ld_map s)" and "v + ms < virt_bound" and bk: "backs E s fl h R"
  shows "runs E err 0 (zero_bytes E v [sz ..< ms]) s
    (\<lambda>_ s'. backs E s' fl h R \<and> ld_pt s' = ld_pt s \<and> ld_map s' = ld_map s \<and>
       (\<forall>i \<le> ms. stored E s' (v + i) (if sz \<le> i \<and> i < ms then 0 else ld_mem s (h ((v + i) div 4096) * 4096 + (v + i) mod 4096))) \<and>
       (\<forall>f x. (\<forall>i. sz \<le> i \<and> i < ms \<longrightarrow> f \<noteq> h ((v + i) div 4096)) \<and> x < 4096 \<longrightarrow> ld_mem s' (f * 4096 + x) = ld_mem s (f * 4096 + x)))"
proof -
  let ?at = "\<lambda>i. h ((v + i) div 4096) * 4096 + (v + i) mod 4096"
  have page: "(v + i) div 4096 \<in> R" if "i \<le> ms" for i
    using that by (auto simp: R_def div_le_mono less_Suc_eq_le)
  let ?s = "s\<lparr>ld_mem := zeroed (?at ` {sz ..< ms}) (ld_mem s)\<rparr>"
  have run: "zero_bytes E v [sz ..< ms] s = Inr (Inr (), ?s)"
    using runs_zero_bytes [of "[sz ..< ms]" v s ?at] backs_phys [OF bk page] assms(3) by simp
  have bk': "backs E ?s fl h R" using bk by (simp add: backs_def)
  have inj: "?at i \<noteq> ?at j" if "i \<le> ms" "j \<in> {sz ..< ms}" "\<not> (sz \<le> i \<and> i < ms)" for i j
    using that backs_phys_inj [OF bk page page, of i j] by auto
  have "stored E ?s (v + i) (if sz \<le> i \<and> i < ms then 0 else ld_mem s (?at i))" if "i \<le> ms" for i
  proof (rule backs_stored [OF bk' page [OF that]])
    show "ld_mem ?s (?at i) = (if sz \<le> i \<and> i < ms then 0 else ld_mem s (?at i))"
    proof (cases "sz \<le> i \<and> i < ms")
      case False
      then have "?at i \<notin> ?at ` {sz ..< ms}" using inj [OF that] by blast
      with False show ?thesis by (auto simp: zeroed_def)
    qed (auto simp: zeroed_def)
  qed
  moreover have "ld_mem ?s (f * 4096 + x) = ld_mem s (f * 4096 + x)"
    if "\<forall>i. sz \<le> i \<and> i < ms \<longrightarrow> f \<noteq> h ((v + i) div 4096)" "x < 4096" for f x
  proof -
    have "f * 4096 + x \<noteq> ?at i" if "i \<in> {sz ..< ms}" for i
      using frame_offset_inj [of f x "h ((v + i) div 4096)" "(v + i) mod 4096"] \<open>x < 4096\<close> that
        \<open>\<forall>i. sz \<le> i \<and> i < ms \<longrightarrow> f \<noteq> h ((v + i) div 4096)\<close> by auto
    then have "f * 4096 + x \<notin> ?at ` {sz ..< ms}" by blast
    then show ?thesis by (simp add: zeroed_def)
  qed
  ultimately show ?thesis using bk' run by (intro runs_return [where x = "()" and s' = ?s]) auto
qed

lemma runs_map_bss:
  fixes v sz ms
  defines "z \<equiv> (v + sz + 4095) div 4096" and "hi \<equiv> Suc ((v + ms) div 4096)"
    and "T \<equiv> if (v + sz) mod 4096 = 0 then {} else {TEMP_PAGE div 4096}"
  defines "Q \<equiv> {v div 4096 ..< z}" and "R \<equiv> {v div 4096 ..< hi}"
  assumes sd: "sound (ld_map s)" and sz: "sz < ms" "v + ms + 4096 < virt_bound" and bk: "backs E s fl h Q"
    and free: "\<forall>q \<in> T \<union> (R - Q). mappable (ld_pt s) (q * 4096)" "T \<inter> R = {}"
  shows "runs E FrameAllocationFailed (7 + 4 * (hi - z)) (map_bss E v sz ms fl) s
    (\<lambda>_ s'. keeps E mappable entry (T \<union> R) s s' \<and> (\<exists>h'. backs E s' fl h' R \<and> h' ` R \<subseteq> h ` Q \<union> usable (ld_map s)) \<and>
       (\<forall>i < sz. stored E s' (v + i) (ld_mem s (h ((v + i) div 4096) * 4096 + (v + i) mod 4096))) \<and>
       (\<forall>i. sz \<le> i \<and> i < ms \<longrightarrow> stored E s' (v + i) 0))"
proof -
  have z: "z \<le> hi" using sz(1) div_le_mono [of "v + sz + 4095" "v + ms + 4096" 4096] by (simp add: z_def hi_def)
  have lo: "v div 4096 \<le> z" unfolding z_def by (intro div_le_mono) simp
  have R: "R = Q \<union> {z ..< hi}" "Q \<inter> {z ..< hi} = {}" using z lo by (auto simp: Q_def R_def)
  have fits: "v + sz < virt_bound" "v + ms < virt_bound" using sz by simp_all
  let ?Q = "\<lambda>_ s'. keeps E mappable entry (T \<union> R) s s' \<and> (\<exists>h'. backs E s' fl h' R \<and> h' ` R \<subseteq> h ` Q \<union> usable (ld_map s)) \<and>
    (\<forall>i < sz. stored E s' (v + i) (ld_mem s (h ((v + i) div 4096) * 4096 + (v + i) mod 4096))) \<and>
    (\<forall>i. sz \<le> i \<and> i < ms \<longrightarrow> stored E s' (v + i) 0)"
  have zero: "runs E FrameAllocationFailed 0 (zero_bytes E v [sz ..< ms]) s2 ?Q"
    if s1: "keeps E mappable entry (T \<union> Q) s s1" "backs E s1 fl h1 Q" "h1 ` Q \<subseteq> h ` Q \<union> usable (ld_map s)"
        "\<forall>q \<in> Q. v + sz < (q + 1) * 4096 \<longrightarrow> h1 q \<in> usable (ld_map s)"
        "\<forall>q \<in> Q. \<forall>x < 4096. ld_mem s1 (h1 q * 4096 + x) = ld_mem s (h q * 4096 + x)"
      and s2: "keeps E mappable entry {z ..< hi} s1 s2" "ld_mem s2 = ld_mem s1" "backs E s2 fl g {z ..< hi}" "g ` {z ..< hi} \<subseteq> usable (ld_map s1)"
    for s1 h1 s2 g
  proof -
    let ?h = "\<lambda>q. if q \<in> Q then h1 q else g q"
    have "h1 ` Q \<inter> g ` {z ..< hi} = {}" using s1(2) s2(4) by (auto simp: backs_def)
    from backs_join [OF backs_keeps [OF s1(2) s2(1) R(2)] s2(3) this R(2)] have "backs E s2 fl ?h R" unfolding R(1) .
    then have b: "backs E s2 fl ?h {v div 4096 ..< Suc ((v + ms) div 4096)}" by (simp only: R_def hi_def)
    have k: "keeps E mappable entry (T \<union> R) s s2" by (rule keeps_trans [OF s1(1) s2(1)]) (use R(1) in blast)
    have fresh: "?h ((v + i) div 4096) \<in> usable (ld_map s)" if "sz \<le> i" "i < ms" for i
    proof (cases "(v + i) div 4096 \<in> Q")
      case True
      have "v + sz < ((v + i) div 4096 + 1) * 4096" using dividend_less_div_times [of 4096 "v + i"] that(1) by simp
      with True s1(4) show ?thesis by simp
    next
      case False
      moreover have "(v + i) div 4096 \<in> R" using that(2) by (auto simp: R_def hi_def div_le_mono less_Suc_eq_le)
      ultimately have "(v + i) div 4096 \<in> {z ..< hi}" using R(1) by blast
      then have "g ((v + i) div 4096) \<in> usable (ld_map s1)" by (rule subsetD [OF s2(4) imageI])
      moreover have "usable (ld_map s1) \<subseteq> usable (ld_map s)" using s1(1) by (simp add: keeps_def)
      ultimately show ?thesis using False by auto
    qed
    show ?thesis
    proof (rule runs_weaken [OF runs_zero_range [OF keeps_soundD [OF k] fits(2) b]], elim conjE, intro conjI)
      fix s3 assume s3: "backs E s3 fl ?h {v div 4096 ..< Suc ((v + ms) div 4096)}" "ld_pt s3 = ld_pt s2" "ld_map s3 = ld_map s2"
        and st: "\<forall>i \<le> ms. stored E s3 (v + i) (if sz \<le> i \<and> i < ms then 0 else ld_mem s2 (?h ((v + i) div 4096) * 4096 + (v + i) mod 4096))"
        and fr: "\<forall>f x. (\<forall>i. sz \<le> i \<and> i < ms \<longrightarrow> f \<noteq> ?h ((v + i) div 4096)) \<and> x < 4096 \<longrightarrow> ld_mem s3 (f * 4096 + x) = ld_mem s2 (f * 4096 + x)"
      have "ld_mem s3 (f * 4096 + x) = ld_mem s (f * 4096 + x)" if "f \<notin> usable (ld_map s)" "x < 4096" for f x
      proof -
        have "\<forall>i. sz \<le> i \<and> i < ms \<longrightarrow> f \<noteq> ?h ((v + i) div 4096)" using fresh that(1) by metis
        then have "ld_mem s3 (f * 4096 + x) = ld_mem s2 (f * 4096 + x)" using fr that(2) by blast
        then show ?thesis using k that by (simp add: keeps_def)
      qed
      then show "keeps E mappable entry (T \<union> R) s s3" using k s3(2,3) by (simp add: keeps_def)
      have "usable (ld_map s1) \<subseteq> usable (ld_map s)" using s1(1) by (simp add: keeps_def)
      then have "?h ` R \<subseteq> h ` Q \<union> usable (ld_map s)" using s1(3) s2(4) unfolding R(1) by auto
      then show "\<exists>h'. backs E s3 fl h' R \<and> h' ` R \<subseteq> h ` Q \<union> usable (ld_map s)" using s3(1) unfolding R_def hi_def by blast
      show "\<forall>i. sz \<le> i \<and> i < ms \<longrightarrow> stored E s3 (v + i) 0"
      proof (intro allI impI)
        fix i assume "sz \<le> i \<and> i < ms"
        then show "stored E s3 (v + i) 0" using st [rule_format, of i] by simp
      qed
      show "\<forall>i < sz. stored E s3 (v + i) (ld_mem s (h ((v + i) div 4096) * 4096 + (v + i) mod 4096))"
      proof (intro allI impI)
        fix i assume i: "i < sz"
        then have q: "(v + i) div 4096 \<in> Q"
          using div_le_mono [of v "v + i" 4096] div_le_mono [of "v + i + 4096" "v + sz + 4095" 4096] by (simp add: Q_def z_def)
        then have "ld_mem s2 (?h ((v + i) div 4096) * 4096 + (v + i) mod 4096) = ld_mem s (h ((v + i) div 4096) * 4096 + (v + i) mod 4096)"
          using s1(5) s2(2) by simp
        then show "stored E s3 (v + i) (ld_mem s (h ((v + i) div 4096) * 4096 + (v + i) mod 4096))"
          using st [rule_format, of i] i sz(1) by simp
      qed
    qed
  qed
  have "z * 4096 \<le> v + ms + 4096"
    using div_times_less_eq_dividend [of "v + sz + 4095" 4096] sz(1) unfolding z_def by linarith
  then have al: "virt_addr_new (env_x86 E) (align_up (env_x86 E) (v + sz) 4096) = Inr (z * 4096)"
    using sz(2) virt_valid [of "z * 4096"] by (simp add: align_up_page z_def)
  have fi: "frames_inclusive (page_containing (env_x86 E) (z * 4096)) (page_containing (env_x86 E) (v + ms)) = map (\<lambda>n. n * 4096) [z ..< hi]"
    by (simp add: frames_inclusive_def page_number hi_def del: upt_Suc)
  have own: "\<forall>q \<in> T. mappable (ld_pt s) (q * 4096)" "T \<inter> Q = {}" using free R(1) by auto
  note own_last = runs_own_last_page [OF sd fits(1) bk [unfolded Q_def z_def] own [unfolded T_def Q_def z_def], folded T_def z_def, folded Q_def]
  have "runs E FrameAllocationFailed (7 + (4 * (hi - z) + 0)) (map_bss E v sz ms fl) s ?Q"
    unfolding map_bss_def
  proof (rule runs_lift [OF virt_add_valid [OF fits(1)]], rule runs_lift [OF virt_add_valid [OF fits(2)]],
      rule runs_bind [OF own_last], elim conjE exE, rule runs_lift [OF al], unfold fi)
    fix s1 h1 assume s1: "keeps E mappable entry (T \<union> Q) s s1" "backs E s1 fl h1 Q" "h1 ` Q \<subseteq> h ` Q \<union> usable (ld_map s)"
        "\<forall>q \<in> Q. v + sz < (q + 1) * 4096 \<longrightarrow> h1 q \<in> usable (ld_map s)"
        "\<forall>q \<in> Q. \<forall>x < 4096. ld_mem s1 (h1 q * 4096 + x) = ld_mem s (h q * 4096 + x)"
    have "q \<in> R - Q \<and> q \<notin> T \<union> Q" if "q \<in> {z ..< hi}" for q using that R free(2) by auto
    then have fr: "\<forall>q \<in> {z ..< hi}. mappable (ld_pt s1) (q * 4096)" using keeps_mappableD [OF s1(1)] free(1) by blast
    show "runs E FrameAllocationFailed (4 * (hi - z) + 0)
        (bind_ld (map_fresh E Kernel fl (map (\<lambda>n. n * 4096) [z ..< hi])) (\<lambda>_. zero_bytes E v [sz ..< ms])) s1 ?Q"
      by (rule runs_bind [OF runs_map_fresh [OF keeps_soundD [OF s1(1)] _ fr]], simp) (use zero [OF s1] in blast)
  qed
  then show ?thesis by simp
qed

lemma runs_file_pages:
  assumes sd: "sound (ld_map s)" and ok: "segment_ok k seg" and ld: "ph_type seg = Load"
    and held: "file_frames k seg \<inter> usable (ld_map s) = {}"
    and free: "\<forall>q \<in> file_pages seg. mappable (ld_pt s) (q * 4096)"
  shows "runs E FrameAllocationFailed (3 * card (file_pages seg))
    (map_frames E (ph_virtual_addr seg div 4096 * 4096) ((k + ph_offset seg) div 4096 * 4096) fl
       (frames_inclusive (k + ph_offset seg) (k + ph_offset seg + ph_file_size seg - 1))) s
    (\<lambda>_ s'. keeps E mappable entry (file_pages seg) s s' \<and> ld_mem s' = ld_mem s \<and>
       backs E s' fl (\<lambda>q. (k + ph_offset seg) div 4096 + (q - ph_virtual_addr seg div 4096)) (file_pages seg))"
proof -
  let ?v = "ph_virtual_addr seg" and ?a = "k + ph_offset seg" and ?n = "ph_file_size seg"
  let ?pv = "?v div 4096" and ?pf = "?a div 4096" and ?hi = "(?a + ?n + 4095) div 4096"
  have s: "?v mod 4096 = ?a mod 4096" "0 < ?a + ?n" "?n \<le> ph_mem_size seg" "?v + ph_mem_size seg + 4096 < virt_bound"
    using ok ld by (simp_all add: segment_ok_def)
  note c = ceiling_pages [OF s(1), of ?n]
  have "?a + ?n + 4095 = ?a + ?n - 1 + 4096" using s(2) by simp
  then have "?hi = Suc ((?a + ?n - 1) div 4096)" by simp
  then have fr: "frames_inclusive ?a (?a + ?n - 1) = map (\<lambda>n. n * 4096) [?pf ..< ?hi]"
    by (simp only: frames_inclusive_def)
  have pages: "file_pages seg = {?pv + (?pf - ?pf) ..< ?pv + (?hi - ?pf)}" by (simp add: file_pages_def c(1))
  have "?v + ?n + 4095 \<le> virt_bound" using s(3,4) by simp
  then have b: "?pv + (?hi - ?pf) \<le> virt_bound div 4096" unfolding c(1) [symmetric] by (rule div_le_mono)
  have card: "3 * card (file_pages seg) = 3 * (?hi - ?pf)" by (simp add: pages)
  show ?thesis
    unfolding fr card
  proof (rule runs_weaken [OF runs_map_frames [OF sd order_refl c(2) b free [unfolded pages]], folded pages], elim conjE, intro conjI)
    fix s' assume s': "keeps E mappable entry (file_pages seg) s s'" "\<forall>q \<in> file_pages seg. env_translate E (ld_pt s') (q * 4096) = Some ((?pf + (q - ?pv)) * 4096, fl)"
    have "inj_on (\<lambda>q. ?pf + (q - ?pv)) (file_pages seg)"
    proof (rule inj_onI)
      fix p q assume "p \<in> file_pages seg" "q \<in> file_pages seg" and e: "?pf + (p - ?pv) = ?pf + (q - ?pv)"
      then have "?pv \<le> p" "?pv \<le> q" by (simp_all add: file_pages_def)
      with e show "p = q" by linarith
    qed
    moreover have "?pf + (q - ?pv) \<in> file_frames k seg" if "q \<in> file_pages seg" for q
      using that by (auto simp: pages file_frames_def)
    then have "(\<lambda>q. ?pf + (q - ?pv)) ` file_pages seg \<inter> usable (ld_map s') = {}"
      using held keeps_usableD [OF s'(1)] by blast
    ultimately show "backs E s' fl (\<lambda>q. ?pf + (q - ?pv)) (file_pages seg)" using s'(2) by (simp add: backs_def)
  qed
qed

text \<open>Where the loader puts byte \<open>i\<close> of the segment before the .bss is treated: the file itself.\<close>

lemma file_byte:
  assumes "segment_ok k seg" and "ph_type seg = Load"
  shows "((k + ph_offset seg) div 4096 + ((ph_virtual_addr seg + i) div 4096 - ph_virtual_addr seg div 4096)) * 4096 +
    (ph_virtual_addr seg + i) mod 4096 = k + ph_offset seg + i"
proof -
  let ?v = "ph_virtual_addr seg" and ?a = "k + ph_offset seg"
  have m: "?v mod 4096 = ?a mod 4096" using assms by (simp add: segment_ok_def)
  have "?a div 4096 + ((?v + i) div 4096 - ?v div 4096) = (?a + i) div 4096"
    using ceiling_pages(3,4) [OF m, of i] by simp
  moreover have "(?v + i) mod 4096 = (?a + i) mod 4096" using m by (metis mod_add_left_eq)
  ultimately show ?thesis by simp
qed

lemma file_pages_subset:
  assumes "segment_ok k seg" and "ph_type seg = Load"
  shows "file_pages seg \<subseteq> segment_pages seg"
  using div_le_mono [of "ph_virtual_addr seg + ph_file_size seg + 4095" "ph_virtual_addr seg + ph_mem_size seg + 4096" 4096] assms
  by (auto simp: file_pages_def segment_pages_def segment_ok_def)

lemma file_frames_image:
  assumes "segment_ok k seg" and "ph_type seg = Load"
  shows "(\<lambda>q. (k + ph_offset seg) div 4096 + (q - ph_virtual_addr seg div 4096)) ` file_pages seg \<subseteq> file_frames k seg"
proof -
  have "ph_virtual_addr seg mod 4096 = (k + ph_offset seg) mod 4096" using assms by (simp add: segment_ok_def)
  note c = ceiling_pages(1,2) [OF this, of "ph_file_size seg"]
  show ?thesis
  proof (rule image_subsetI)
    fix q assume "q \<in> file_pages seg"
    then show "(k + ph_offset seg) div 4096 + (q - ph_virtual_addr seg div 4096) \<in> file_frames k seg"
      using c(2) unfolding file_pages_def file_frames_def c(1) atLeastLessThan_iff by linarith
  qed
qed

lemma runs_bss:
  assumes sd: "sound (ld_map s)" and ok: "segment_ok k seg" and ld: "ph_type seg = Load"
    and bk: "backs E s (segment_flags seg) (\<lambda>q. (k + ph_offset seg) div 4096 + (q - ph_virtual_addr seg div 4096)) (file_pages seg)"
    and free: "\<forall>q \<in> touched_pages seg - file_pages seg. mappable (ld_pt s) (q * 4096)"
  shows "runs E FrameAllocationFailed (7 + 4 * card (segment_pages seg))
    (if ph_file_size seg < ph_mem_size seg
     then map_bss E (ph_virtual_addr seg) (ph_file_size seg) (ph_mem_size seg) (segment_flags seg) else ok_ld ()) s
    (\<lambda>_ s'. keeps E mappable entry (touched_pages seg) s s' \<and> loaded E k (usable (ld_map s)) (ld_mem s) s' seg)"
proof (cases "ph_file_size seg < ph_mem_size seg")
  case bss: True
  let ?v = "ph_virtual_addr seg" and ?n = "ph_file_size seg" and ?m = "ph_mem_size seg" and ?fl = "segment_flags seg"
  let ?R = "{?v div 4096 ..< Suc ((?v + ?m) div 4096)}" and ?T = "if (?v + ?n) mod 4096 = 0 then {} else {TEMP_PAGE div 4096}"
  have s: "?v + ?m + 4096 < virt_bound" "?R \<inter> ?T = {}"
    using ok ld bss by (auto simp: segment_ok_def segment_pages_def bss_temp_def split: if_splits)
  have t: "touched_pages seg = ?T \<union> ?R" using ld bss by (auto simp: touched_pages_def segment_pages_def bss_temp_def)
  have c: "Suc ((?v + ?m) div 4096) - (?v + ?n + 4095) div 4096 \<le> card (segment_pages seg)"
    using bss div_le_mono [of ?v "?v + ?n + 4095" 4096] by (simp add: segment_pages_def)
  have "\<forall>q \<in> ?T \<union> (?R - file_pages seg). mappable (ld_pt s) (q * 4096)"
    using free s(2) file_pages_subset [OF ok ld] ld bss unfolding t
    by (simp only: segment_pages_def if_True) blast
  note run = runs_map_bss [OF sd bss s(1) bk [unfolded file_pages_def] this [unfolded file_pages_def]]
  show ?thesis
  proof (simp only: bss if_True, rule runs_mono [OF run], goal_cases)
    case 1 show ?case using s(2) by blast
  next
    case 2 show ?case using c by simp
  next
    case (3 u s')
    have "segment_pages seg = ?R" using bss by (simp add: segment_pages_def)
    moreover obtain h' where "backs E s' ?fl h' ?R"
      "h' ` ?R \<subseteq> (\<lambda>q. (k + ph_offset seg) div 4096 + (q - ?v div 4096)) ` file_pages seg \<union> usable (ld_map s)"
      using 3 unfolding file_pages_def by blast
    ultimately have "placed E k (usable (ld_map s)) s' seg"
      using file_frames_image [OF ok ld] unfolding placed_def by (intro exI [of _ h']) auto
    with 3 [unfolded file_byte [OF ok ld]] show ?case unfolding t loaded_def by blast
  qed
next
  case False
  then have e: "ph_mem_size seg = ph_file_size seg" using ok ld by (simp add: segment_ok_def)
  let ?v = "ph_virtual_addr seg" and ?n = "ph_file_size seg"
  have page: "(?v + i) div 4096 \<in> file_pages seg" if "i < ?n" for i
    using that div_le_mono [of ?v "?v + i" 4096] div_le_mono [of "?v + i + 4096" "?v + ?n + 4095" 4096] by (simp add: file_pages_def)
  have "stored E s (?v + i) (ld_mem s (k + ph_offset seg + i))" if "i < ?n" for i
    by (rule backs_stored [OF bk page [OF that]]) (simp only: file_byte [OF ok ld])
  moreover have "segment_pages seg = file_pages seg" using False by (simp add: segment_pages_def)
  then have "placed E k (usable (ld_map s)) s seg" unfolding placed_def using bk file_frames_image [OF ok ld] by auto
  ultimately have l: "loaded E k (usable (ld_map s)) (ld_mem s) s seg" by (auto simp: loaded_def e)
  have same: "runs E FrameAllocationFailed 0 (ok_ld ()) s (\<lambda>_ s'. s' = s)" by (simp add: runs_ok)
  show ?thesis
    by (simp only: False if_False, rule runs_mono [OF same]) (simp_all add: keeps_refl [OF sd] l)
qed

lemma runs_map_segment:
  assumes sd: "sound (ld_map s)" and ok: "segment_ok k seg"
    and held: "ph_type seg = Load \<longrightarrow> file_frames k seg \<inter> usable (ld_map s) = {}"
    and free: "\<forall>q \<in> touched_pages seg. mappable (ld_pt s) (q * 4096)"
  shows "runs E FrameAllocationFailed (loading_cost seg) (map_segment E seg k) s
    (\<lambda>r s'. r = tls_of seg \<and> keeps E mappable entry (touched_pages seg) s s' \<and> loaded E k (usable (ld_map s)) (ld_mem s) s' seg)"
proof (cases "ph_type seg = Load")
  case other: False
  have "runs E FrameAllocationFailed 0 (map_segment E seg k) s (\<lambda>r s'. r = tls_of seg \<and> s' = s)"
    using ok other
    by (cases "ph_type seg") (auto simp: map_segment_def tls_of_def segment_ok_def intro: runs_ok)
  then show ?thesis
  proof (rule runs_mono, goal_cases)
    case (2 r s')
    then show ?case using other keeps_refl [OF sd] by (simp add: loaded_def)
  qed simp
next
  case ld: True
  let ?v = "ph_virtual_addr seg" and ?a = "k + ph_offset seg" and ?n = "ph_file_size seg" and ?m = "ph_mem_size seg" and ?fl = "segment_flags seg"
  let ?h = "\<lambda>q. ?a div 4096 + (q - ?v div 4096)"
  have s: "0 < ?a + ?n" "?a + ?n < phys_bound" "?n \<le> ?m" "?v + ?m + 4096 < virt_bound" "segment_pages seg \<inter> bss_temp seg = {}"
    using ok ld by (simp_all add: segment_ok_def)
  have sub: "file_pages seg \<subseteq> segment_pages seg" "file_pages seg \<subseteq> touched_pages seg"
    using file_pages_subset [OF ok ld] ld by (auto simp: touched_pages_def)
  have card: "card (file_pages seg) \<le> card (segment_pages seg)"
    by (rule card_mono [OF _ sub(1)]) (simp add: segment_pages_def file_pages_def)
  have "?a < phys_bound" "?v < virt_bound" using s by simp_all
  note pa = add_valid [OF this(1)] and va = virt_valid [OF this(2)]
  have ea: "bind_rust (phys_add (env_x86 E) ?a ?n) (\<lambda>a. phys_sub (env_x86 E) a 1) = Inr (?a + ?n - 1)"
    using add_valid [OF s(2)] sub_valid [OF s(2), of 1] s(1) by simp
  have fi: "frames_inclusive (x div 4096 * 4096) (y div 4096 * 4096) = frames_inclusive x y" for x y
    by (simp add: frames_inclusive_def)
  let ?Q = "\<lambda>r s'. r = tls_of seg \<and> keeps E mappable entry (touched_pages seg) s s' \<and> loaded E k (usable (ld_map s)) (ld_mem s) s' seg"
  have bss: "runs E FrameAllocationFailed (7 + 4 * card (segment_pages seg))
      (if ?n < ?m then map_bss E ?v ?n ?m ?fl else ok_ld ()) s1
      (\<lambda>_ s'. keeps E mappable entry (touched_pages seg) s s' \<and> loaded E k (usable (ld_map s)) (ld_mem s) s' seg)"
    if s1: "keeps E mappable entry (file_pages seg) s s1" "ld_mem s1 = ld_mem s" "backs E s1 ?fl ?h (file_pages seg)" for s1
  proof -
    have "\<forall>q \<in> touched_pages seg - file_pages seg. mappable (ld_pt s1) (q * 4096)"
      using keeps_mappableD [OF s1(1)] free by blast
    from runs_bss [OF keeps_soundD [OF s1(1)] ok ld s1(3) this] show ?thesis
    proof (rule runs_weaken, elim conjE)
      fix s' assume s': "keeps E mappable entry (touched_pages seg) s1 s'" "loaded E k (usable (ld_map s1)) (ld_mem s1) s' seg"
      show "keeps E mappable entry (touched_pages seg) s s' \<and> loaded E k (usable (ld_map s)) (ld_mem s) s' seg"
        using keeps_trans [OF s1(1) s'(1), of "touched_pages seg"] sub(2) loaded_source [OF s1(1) held s'(2)] by simp
    qed
  qed
  have "runs E FrameAllocationFailed (3 * card (file_pages seg) + (7 + 4 * card (segment_pages seg) + 0)) (map_segment E seg k) s ?Q"
    unfolding map_segment_def ld segment_type.case
  proof (rule runs_lift [OF pa], rule runs_lift [OF va], rule runs_lift [OF ea], unfold containing_frame page_number fi,
      rule runs_bind [OF runs_file_pages [OF sd ok ld]], goal_cases)
    case 1 show ?case using held ld by simp
  next
    case 2 show ?case using free sub(2) by blast
  next
    case (3 x s1)
    then have "keeps E mappable entry (file_pages seg) s s1" "ld_mem s1 = ld_mem s" "backs E s1 ?fl ?h (file_pages seg)" by simp_all
    from bss [OF this] show ?case
      by (rule runs_bind) (simp add: runs_ok tls_of_def ld)
  qed
  then show ?thesis
    by (rule runs_mono) (use card ld in \<open>simp_all add: loading_cost_def\<close>)
qed

lemma runs_map_segments:
  assumes "sound (ld_map s)" and "\<forall>seg \<in> set segs. segment_ok k seg"
    and "\<forall>seg \<in> set segs. ph_type seg = Load \<longrightarrow> file_frames k seg \<inter> usable (ld_map s) = {}"
    and "\<forall>seg \<in> set segs. \<forall>q \<in> touched_pages seg. mappable (ld_pt s) (q * 4096)"
    and "sorted_wrt (\<lambda>a b. touched_pages a \<inter> touched_pages b = {}) segs"
    and "length (filter (\<lambda>seg. ph_type seg = Tls) segs) + (if found = None then 0 else 1) \<le> 1"
  shows "runs E (Mapping FrameAllocationFailed) (sum_list (map loading_cost segs)) (map_segments E k segs found) s
    (\<lambda>r s'. r = (case filter (\<lambda>seg. ph_type seg = Tls) segs of [] \<Rightarrow> found | seg # _ \<Rightarrow> tls_of seg) \<and>
       keeps E mappable entry (\<Union>seg \<in> set segs. touched_pages seg) s s' \<and> (\<forall>seg \<in> set segs. loaded E k (usable (ld_map s)) (ld_mem s) s' seg))"
  using assms
proof (induction segs arbitrary: s found)
  case Nil
  then show ?case by (simp add: runs_ok keeps_refl)
next
  case (Cons seg segs)
  let ?T = "\<Union>seg \<in> set segs. touched_pages seg"
  have one: "runs E (Mapping FrameAllocationFailed) (loading_cost seg) (map_err Mapping (map_segment E seg k)) s
      (\<lambda>r s'. r = tls_of seg \<and> keeps E mappable entry (touched_pages seg) s s' \<and> loaded E k (usable (ld_map s)) (ld_mem s) s' seg)"
    using Cons.prems by (intro runs_map_err runs_map_segment) simp_all
  have "runs E (Mapping FrameAllocationFailed) (loading_cost seg + sum_list (map loading_cost segs)) (map_segments E k (seg # segs) found) s
    (\<lambda>r s'. r = (case filter (\<lambda>seg. ph_type seg = Tls) (seg # segs) of [] \<Rightarrow> found | seg # _ \<Rightarrow> tls_of seg) \<and>
       keeps E mappable entry (touched_pages seg \<union> ?T) s s' \<and> (\<forall>seg \<in> set (seg # segs). loaded E k (usable (ld_map s)) (ld_mem s) s' seg))"
    unfolding map_segments.simps
  proof (rule runs_bind [OF one], elim conjE, hypsubst)
    fix s1 assume s1: "keeps E mappable entry (touched_pages seg) s s1" "loaded E k (usable (ld_map s)) (ld_mem s) s1 seg"
    let ?found = "case tls_of seg of None \<Rightarrow> found | Some t \<Rightarrow> Some t"
    have "\<forall>sg \<in> set segs. \<forall>q \<in> touched_pages sg. mappable (ld_pt s1) (q * 4096)"
      using keeps_mappableD [OF s1(1)] Cons.prems(4,5) by fastforce
    moreover have "\<forall>sg \<in> set segs. ph_type sg = Load \<longrightarrow> file_frames k sg \<inter> usable (ld_map s1) = {}"
      using keeps_usableD [OF s1(1)] Cons.prems(3) by fastforce
    moreover have tls: "tls_of seg \<noteq> None \<Longrightarrow> found = None \<and> filter (\<lambda>seg. ph_type seg = Tls) segs = []"
      using Cons.prems(6) by (auto simp: tls_of_def split: if_splits)
    moreover have "length (filter (\<lambda>seg. ph_type seg = Tls) segs) + (if ?found = None then 0 else 1) \<le> 1"
      using tls Cons.prems(6) by (auto simp: tls_of_def split: option.splits if_splits)
    ultimately have IH: "runs E (Mapping FrameAllocationFailed) (sum_list (map loading_cost segs)) (map_segments E k segs ?found) s1
      (\<lambda>r s'. r = (case filter (\<lambda>seg. ph_type seg = Tls) segs of [] \<Rightarrow> ?found | seg # _ \<Rightarrow> tls_of seg) \<and>
         keeps E mappable entry ?T s1 s' \<and> (\<forall>seg \<in> set segs. loaded E k (usable (ld_map s1)) (ld_mem s1) s' seg))"
      using keeps_soundD [OF s1(1)] Cons.prems(2,5) by (intro Cons.IH) simp_all
    have step: "(case tls_of seg of None \<Rightarrow> map_segments E k segs found
        | Some t \<Rightarrow> if found \<noteq> None then err_ld MultipleTlsSegments else map_segments E k segs (Some t)) = map_segments E k segs ?found"
      using tls by (auto split: option.splits)
    show "runs E (Mapping FrameAllocationFailed) (sum_list (map loading_cost segs))
      (case tls_of seg of None \<Rightarrow> map_segments E k segs found
        | Some t \<Rightarrow> if found \<noteq> None then err_ld MultipleTlsSegments else map_segments E k segs (Some t)) s1
      (\<lambda>r s'. r = (case filter (\<lambda>seg. ph_type seg = Tls) (seg # segs) of [] \<Rightarrow> found | seg # _ \<Rightarrow> tls_of seg) \<and>
         keeps E mappable entry (touched_pages seg \<union> ?T) s s' \<and> (\<forall>seg \<in> set (seg # segs). loaded E k (usable (ld_map s)) (ld_mem s) s' seg))"
      unfolding step
    proof (rule runs_weaken [OF IH], elim conjE, intro conjI)
      fix r s2 assume r: "r = (case filter (\<lambda>seg. ph_type seg = Tls) segs of [] \<Rightarrow> ?found | seg # _ \<Rightarrow> tls_of seg)"
        and s2: "keeps E mappable entry ?T s1 s2" "\<forall>seg \<in> set segs. loaded E k (usable (ld_map s1)) (ld_mem s1) s2 seg"
      show "r = (case filter (\<lambda>seg. ph_type seg = Tls) (seg # segs) of [] \<Rightarrow> found | seg # _ \<Rightarrow> tls_of seg)"
        using r tls by (auto simp: tls_of_def split: list.splits if_splits)
      show "keeps E mappable entry (touched_pages seg \<union> ?T) s s2" by (rule keeps_trans [OF s1(1) s2(1) order_refl])
      have "touched_pages seg \<inter> ?T = {}" using Cons.prems(5) by auto
      then have "loaded E k (usable (ld_map s)) (ld_mem s) s2 seg"
        using Cons.prems(2) by (intro loaded_keeps [OF s1(2) s2(1)]) (simp_all add: segment_ok_def)
      moreover have "loaded E k (usable (ld_map s)) (ld_mem s) s2 sg" if "sg \<in> set segs" for sg
        using s2(2) that Cons.prems(3) loaded_source [OF s1(1), of sg k s2] by simp
      ultimately show "\<forall>seg \<in> set (seg # segs). loaded E k (usable (ld_map s)) (ld_mem s) s2 seg" by simp
    qed
  qed
  then show ?case by simp
qed

lemma runs_map_stack:
  assumes "sound (ld_map s)" and "(p + 1 + len) * 4096 < virt_bound"
    and "\<forall>q \<in> stack_pages p len. mappable (ld_pt s) (q * 4096)"
  shows "runs E FrameAllocationFailed (4 * len) (map_stack E (p * 4096) len) s
    (\<lambda>r s'. r = (p + 1 + len) * 4096 \<and> keeps E mappable entry (stack_pages p len) s s' \<and>
       (\<exists>g. backs E s' {PRESENT, WRITABLE} g (stack_pages p len) \<and> g ` stack_pages p len \<subseteq> usable (ld_map s)))"
proof -
  have a: "page_add (env_x86 E) (p * 4096) 1 = Inr ((p + 1) * 4096)"
    using add_pages [of "p * 4096" 1] assms(2) by simp
  have b: "page_add (env_x86 E) ((p + 1) * 4096) len = Inr ((p + 1 + len) * 4096)"
    using add_pages [of "(p + 1) * 4096" len] assms(2) by (simp add: algebra_simps)
  have "runs E FrameAllocationFailed (4 * (p + 1 + len - (p + 1)) + 0) (map_stack E (p * 4096) len) s
    (\<lambda>r s'. r = (p + 1 + len) * 4096 \<and> keeps E mappable entry (stack_pages p len) s s' \<and>
       (\<exists>g. backs E s' {PRESENT, WRITABLE} g (stack_pages p len) \<and> g ` stack_pages p len \<subseteq> usable (ld_map s)))"
    unfolding map_stack_def stack_pages_def
  proof (rule runs_lift [OF a], rule runs_lift [OF b], unfold nonzero_mult_div_cancel_right [OF zero_neq_numeral [symmetric]],
      rule runs_bind [OF runs_map_fresh [OF assms(1) _ assms(3) [unfolded stack_pages_def]]], goal_cases)
    case (2 x s')
    then show ?case by (intro runs_ok) blast
  qed simp
  then show ?thesis by simp
qed

lemma runs_map_kernel:
  assumes "kernel_layout mappable k p len segs s"
  shows "runs E (Mapping FrameAllocationFailed) (sum_list (map loading_cost segs) + 4 * len) (map_kernel E k (p * 4096) len segs) s
    (\<lambda>i s'. stack_end i = (p + 1 + len) * 4096 \<and> tls_segment i = tls_segment_of segs \<and>
       keeps E mappable entry ((\<Union>seg \<in> set segs. touched_pages seg) \<union> stack_pages p len) s s' \<and>
       (\<forall>seg \<in> set segs. loaded E k (usable (ld_map s)) (ld_mem s) s' seg) \<and>
       (\<exists>g. backs E s' {PRESENT, WRITABLE} g (stack_pages p len) \<and> g ` stack_pages p len \<subseteq> usable (ld_map s)))"
proof -
  let ?T = "\<Union>seg \<in> set segs. touched_pages seg" and ?S = "stack_pages p len"
  note l = assms [unfolded kernel_layout_def]
  have segs: "runs E (Mapping FrameAllocationFailed) (sum_list (map loading_cost segs)) (map_segments E k segs None) s
    (\<lambda>r s'. r = tls_segment_of segs \<and> keeps E mappable entry ?T s s' \<and> (\<forall>seg \<in> set segs. loaded E k (usable (ld_map s)) (ld_mem s) s' seg))"
    using runs_map_segments [where s = s and segs = segs and k = k and found = None] l by (simp add: tls_segment_of_def)
  have "runs E (Mapping FrameAllocationFailed) (sum_list (map loading_cost segs) + (4 * len + 0)) (map_kernel E k (p * 4096) len segs) s
    (\<lambda>i s'. stack_end i = (p + 1 + len) * 4096 \<and> tls_segment i = tls_segment_of segs \<and> keeps E mappable entry (?T \<union> ?S) s s' \<and>
       (\<forall>seg \<in> set segs. loaded E k (usable (ld_map s)) (ld_mem s) s' seg) \<and> (\<exists>g. backs E s' {PRESENT, WRITABLE} g ?S \<and> g ` ?S \<subseteq> usable (ld_map s)))"
    unfolding map_kernel_def
  proof (rule runs_bind [OF segs], elim conjE, hypsubst)
    fix s1 assume s1: "keeps E mappable entry ?T s s1" "\<forall>seg \<in> set segs. loaded E k (usable (ld_map s)) (ld_mem s) s1 seg"
    have dis: "\<forall>seg \<in> set segs. touched_pages seg \<inter> insert p ?S = {}" and free: "\<forall>q \<in> ?S. mappable (ld_pt s) (q * 4096)"
      using l by simp_all
    have out: "q \<notin> ?T" if "q \<in> ?S" for q using dis that by blast
    then have "\<forall>q \<in> ?S. mappable (ld_pt s1) (q * 4096)" using keeps_mappableD [OF s1(1)] free by blast
    note stack = runs_map_err [OF runs_map_stack [OF keeps_soundD [OF s1(1)] _ this], of Mapping]
    show "runs E (Mapping FrameAllocationFailed) (4 * len + 0) (bind_ld (map_err Mapping (map_stack E (p * 4096) len))
        (\<lambda>behind. ok_ld \<lparr>stack_end = behind, tls_segment = tls_segment_of segs\<rparr>)) s1
      (\<lambda>i s'. stack_end i = (p + 1 + len) * 4096 \<and> tls_segment i = tls_segment_of segs \<and> keeps E mappable entry (?T \<union> ?S) s s' \<and>
         (\<forall>seg \<in> set segs. loaded E k (usable (ld_map s)) (ld_mem s) s' seg) \<and> (\<exists>g. backs E s' {PRESENT, WRITABLE} g ?S \<and> g ` ?S \<subseteq> usable (ld_map s)))"
    proof (rule runs_bind [OF stack], goal_cases)
      case 1 show ?case using l by blast
    next
      case (2 r s2)
      then obtain g where g: "r = (p + 1 + len) * 4096" "keeps E mappable entry ?S s1 s2" "backs E s2 {PRESENT, WRITABLE} g ?S"
        "g ` ?S \<subseteq> usable (ld_map s1)" by blast
      have "loaded E k (usable (ld_map s)) (ld_mem s) s2 seg" if "seg \<in> set segs" for seg
        using s1(2) that l g(2) by (intro loaded_keeps [of E k "usable (ld_map s)" "ld_mem s" s1 seg mappable entry ?S s2]) (auto simp: segment_ok_def)
      moreover have "g ` ?S \<subseteq> usable (ld_map s)" using g(4) s1(1) by (auto simp: keeps_def)
      moreover have "keeps E mappable entry (?T \<union> ?S) s s2" by (rule keeps_trans [OF s1(1) g(2) order_refl])
      ultimately show ?case using g(1,3) by (intro runs_ok) auto
    qed
  qed
  then show ?thesis by simp
qed

text \<open>A free slot and a usable frame for each allocation are enough.\<close>

lemma ample_by_slots:
  assumes "mm_wf m" and "next_entry_index m + n \<le> max_memory_map_size" and "finite F" and "F \<subseteq> usable m" and "n \<le> card F"
  shows "ample E n m"
  using assms
proof (induction n arbitrary: m F)
  case (Suc n)
  have "F \<noteq> {}" using Suc.prems(5) by auto
  then have ne: "\<exists>f. Usable \<in># owners m f" using Suc.prems(4) by (auto simp: usable_def)
  have "\<exists>f m'. alloc_region E t m = Inr (Some f, m') \<and> ample E n m'" for t
  proof -
    obtain f m' where a: "alloc_region E t m = Inr (Some (f * 4096), m')" "mm_wf m'"
      "next_entry_index m' \<le> next_entry_index m + 1" "retyped f t (owners m) (owners m')"
      using allocate_frame_spec [OF Suc.prems(1), of "env_profile E" t] ne Suc.prems(2) by (auto simp: alloc_region_def)
    have "F - {f} \<subseteq> usable m'" using Suc.prems(4) a(4) by (auto simp: usable_def retyped_iff)
    moreover have "n \<le> card (F - {f})" using Suc.prems(3,5) by (cases "f \<in> F") auto
    ultimately have "ample E n m'" using Suc.prems(2,3) a(2,3) by (intro Suc.IH [of m' "F - {f}"]) simp_all
    with a(1) show ?thesis by blast
  qed
  then show ?case unfolding ample.simps by blast
qed simp

text \<open>The temporary page is mapped, and stays mapped.\<close>

lemma bind_ld_Ok:
  "bind_ld f g s = Inr (Inr y, s') \<longleftrightarrow> (\<exists>x s1. f s = Inr (Inr x, s1) \<and> g x s1 = Inr (Inr y, s'))"
  by (auto simp: bind_ld_def bind_rust_eq_Inr split: sum.split_asm)

lemma lift_ld_Ok: "lift_ld r s = Inr (Inr y, s') \<longleftrightarrow> r = Inr y \<and> s' = s"
  by (auto simp: lift_ld_def bind_rust_eq_Inr)

lemma map_err_Ok: "map_err h f s = Inr (Inr y, s') \<longleftrightarrow> f s = Inr (Inr y, s')"
proof -
  have "map_sum h id r = Inr y \<longleftrightarrow> r = Inr y" for r by (cases r) auto
  then show ?thesis by (auto simp: map_err_def bind_rust_eq_Inr)
qed

lemmas ld_Ok = bind_ld_Ok lift_ld_Ok ok_ld_def

lemma map_page_Ok:
  assumes "map_page E page a fl s = Inr (Inr u, s')"
  shows "env_translate E (ld_pt s) page = None"
    and "env_translate E (ld_pt s') = (env_translate E (ld_pt s))(page \<mapsto> (a, fl))"
  using assms map_taken map_ok by (auto simp: map_page_def bind_rust_eq_Inr)

abbreviation temp_mapped :: "'pt loader \<Rightarrow> bool" where
  "temp_mapped s \<equiv> env_translate E (ld_pt s) TEMP_PAGE \<noteq> None"

lemma map_frames_keeps_temp:
  "map_frames E sp sf fl fs s = Inr (Inr u, s') \<Longrightarrow> temp_mapped s \<Longrightarrow> temp_mapped s'"
  by (induction fs arbitrary: s) (auto simp: ld_Ok dest!: map_page_Ok(2))

lemma map_fresh_keeps_temp:
  "map_fresh E t fl ps s = Inr (Inr u, s') \<Longrightarrow> temp_mapped s \<Longrightarrow> temp_mapped s'"
proof (induction ps arbitrary: s)
  case (Cons p ps)
  then obtain f s1 s2 u where "alloc_ld E t s = Inr (Inr f, s1)" "map_page E p f fl s1 = Inr (Inr u, s2)"
    "map_fresh E t fl ps s2 = Inr (Inr (), s')" by (auto simp: ld_Ok)
  then show ?case
    using Cons.IH Cons.prems(2) map_page_Ok(2) by (auto simp: alloc_ld_def bind_rust_eq_Inr)
qed (simp add: ok_ld_def)

lemma zero_bytes_keeps_temp:
  "zero_bytes E v xs s = Inr (Inr u, s') \<Longrightarrow> temp_mapped s \<Longrightarrow> temp_mapped s'"
  by (induction xs arbitrary: s) (auto simp: ld_Ok write_byte_ld_def split: option.splits)

lemma remap_last_page_temp:
  assumes "remap_last_page E v sz fl s = Inr (Inr u, s')"
  shows "\<not> temp_mapped s" and "temp_mapped s'"
proof -
  obtain f s1 w s2 la s3 s4 x where r: "alloc_ld E Kernel s = Inr (Inr f, s1)" "map_page E TEMP_PAGE f fl s1 = Inr (Inr w, s2)"
    "copy_page E TEMP_PAGE (page_containing (env_x86 E) la) s2 = (Inr (Inr (), s3) :: ((map_error + unit) \<times> _) rust)"
    "unmap_ld E (page_containing (env_x86 E) la) s3 = Inr (Inr (), s4)"
    "map_page E (page_containing (env_x86 E) la) f fl s4 = Inr (Inr x, s')"
    using assms temp_page by (auto simp: remap_last_page_def ld_Ok)
  have "ld_pt s1 = ld_pt s" using r(1) by (auto simp: alloc_ld_def bind_rust_eq_Inr)
  with map_page_Ok(1) [OF r(2)] show "\<not> temp_mapped s" by simp
  let ?l = "page_containing (env_x86 E) la"
  have s3: "ld_pt s3 = ld_pt s2" "env_translate E (ld_pt s2) ?l \<noteq> None"
    using r(3) by (auto simp: copy_page_def phys_of_def page_number split: option.splits)
  then obtain d where "env_translate E (ld_pt s3) ?l = Some d" by auto
  with unmap_ok [of "ld_pt s3" ?l "fst d" "snd d"] r(4)
  have "env_translate E (ld_pt s4) = (env_translate E (ld_pt s3))(?l := None)" by (auto simp: unmap_ld_def)
  then show "temp_mapped s'" using map_page_Ok(2) [OF r(5)] map_page_Ok(2) [OF r(2)] s3(1) by auto
qed

lemma map_bss_temp:
  assumes "map_bss E v sz ms fl s = Inr (Inr u, s')" and "v + sz < virt_bound"
  shows "temp_mapped s \<Longrightarrow> temp_mapped s'" and "(v + sz) mod 4096 \<noteq> 0 \<Longrightarrow> \<not> temp_mapped s \<and> temp_mapped s'"
proof -
  obtain s1 s2 ps where r: "(if (v + sz) mod 4096 \<noteq> 0 then remap_last_page E v sz fl else ok_ld ()) s = Inr (Inr (), s1)"
    "map_fresh E Kernel fl ps s1 = Inr (Inr (), s2)" "zero_bytes E v [sz ..< ms] s2 = Inr (Inr u, s')"
    using assms(1) virt_add_valid [OF assms(2)] by (auto simp: map_bss_def bind_ld_Ok lift_ld_Ok)
  have s1: "temp_mapped s1 \<Longrightarrow> temp_mapped s'" using map_fresh_keeps_temp [OF r(2)] zero_bytes_keeps_temp [OF r(3)] by blast
  show "temp_mapped s'" if "temp_mapped s"
    using r(1) remap_last_page_temp [of v sz fl s "()" s1] s1 that by (auto simp: ok_ld_def split: if_splits)
  show "\<not> temp_mapped s \<and> temp_mapped s'" if "(v + sz) mod 4096 \<noteq> 0"
    using r(1) remap_last_page_temp [of v sz fl s "()" s1] s1 that by auto
qed

lemma map_segment_temp:
  assumes "map_segment E seg k s = Inr (Inr r, s')" and "ph_virtual_addr seg + ph_file_size seg < virt_bound"
  shows "temp_mapped s \<Longrightarrow> temp_mapped s'" and "partial_bss seg \<Longrightarrow> \<not> temp_mapped s \<and> temp_mapped s'"
proof -
  have "(temp_mapped s \<longrightarrow> temp_mapped s') \<and> (partial_bss seg \<longrightarrow> \<not> temp_mapped s \<and> temp_mapped s')"
  proof (cases "ph_type seg = Load")
    case True
    have v: "virt_addr_new (env_x86 E) (ph_virtual_addr seg) = Inr (ph_virtual_addr seg)"
      using assms(2) by (intro virt_valid) simp
    obtain sp sf fs s1 s2 where m: "map_frames E sp sf (segment_flags seg) fs s = Inr (Inr (), s1)"
      "(if ph_mem_size seg > ph_file_size seg
        then map_bss E (ph_virtual_addr seg) (ph_file_size seg) (ph_mem_size seg) (segment_flags seg)
        else ok_ld ()) s1 = Inr (Inr (), s2)" "s' = s2"
      using assms(1) True v by (auto simp: map_segment_def bind_ld_Ok lift_ld_Ok ok_ld_def)
    note keep = map_frames_keeps_temp [OF m(1)]
    show ?thesis
    proof (cases "ph_mem_size seg > ph_file_size seg")
      case bss: True
      then have "map_bss E (ph_virtual_addr seg) (ph_file_size seg) (ph_mem_size seg) (segment_flags seg) s1 = Inr (Inr (), s2)"
        using m(2) by simp
      from map_bss_temp [OF this assms(2)] keep m(3) bss show ?thesis by (auto simp: partial_bss_def bss_temp_def split: if_splits)
    qed (use m keep in \<open>auto simp: partial_bss_def bss_temp_def ok_ld_def\<close>)
  qed (use assms(1) in \<open>auto simp: map_segment_def partial_bss_def ld_Ok split: segment_type.splits\<close>)
  then show "temp_mapped s \<Longrightarrow> temp_mapped s'" "partial_bss seg \<Longrightarrow> \<not> temp_mapped s \<and> temp_mapped s'" by blast+
qed

lemma map_segments_temp:
  assumes "map_segments E k segs found s = Inr (Inr r, s')"
    and "\<forall>seg \<in> set segs. ph_virtual_addr seg + ph_file_size seg < virt_bound"
  shows "length (filter partial_bss segs) + (if temp_mapped s then 1 else 0) \<le> 1 \<or> filter partial_bss segs = []"
  using assms
proof (induction segs arbitrary: s found)
  case (Cons seg segs)
  obtain tls s1 found' where m: "map_segment E seg k s = Inr (Inr tls, s1)" "map_segments E k segs found' s1 = Inr (Inr r, s')"
    using Cons.prems(1) by (auto simp: bind_ld_Ok map_err_Ok err_ld_def split: option.splits if_splits)
  have v: "ph_virtual_addr seg + ph_file_size seg < virt_bound" using Cons.prems(2) by simp
  show ?case
    using Cons.IH [OF m(2)] Cons.prems(2) map_segment_temp [OF m(1) v] by (auto split: if_splits)
qed simp

end

subsection \<open>An instance\<close>

definition four_level_unmap :: "u64 \<Rightarrow> page_tables \<Rightarrow> (unmap_error + u64) \<times> page_tables" where
  "four_level_unmap page pt =
     (case leaves pt page of
        None \<Rightarrow> (Inl Page_not_mapped, pt)
      | Some (f, _) \<Rightarrow> (Inr f, pt\<lparr>leaves := (leaves pt)(page := None)\<rparr>))"

definition loader_documented :: "profile \<Rightarrow> page_tables loader_env" where
  "loader_documented p =
     \<lparr>env_sort = insertion_sort_by, env_x86 = x86_documented, env_profile = p, env_map_to = four_level_map_to,
      env_unmap = four_level_unmap, env_translate = leaves\<rparr>"

abbreviation unmapped :: "page_tables \<Rightarrow> u64 \<Rightarrow> bool" where
  "unmapped pt page \<equiv> leaves pt page = None"

lemma loader_documented_fields [simp]:
  "env_sort (loader_documented p) = insertion_sort_by" "env_x86 (loader_documented p) = x86_documented"
  "env_map_to (loader_documented p) = four_level_map_to" "env_unmap (loader_documented p) = four_level_unmap"
  "env_translate (loader_documented p) = leaves"
  by (simp_all add: loader_documented_def)

text \<open>What is under an entry of the top-level table: the tables and the pages.\<close>

definition under :: "page_tables \<Rightarrow> u64 \<Rightarrow> (nat \<times> u64) set \<times> (u64 \<rightharpoonup> u64 \<times> page_flags)" where
  "under pt i =
     ({(l, t) \<in> tables pt. t div 2 ^ (27 - 9 * l) = i}, \<lambda>a. if a div 2 ^ 39 = i then leaves pt a else None)"

lemma under_leaves: "i \<noteq> page div 2 ^ 39 \<Longrightarrow> under (pt\<lparr>leaves := (leaves pt)(page := x)\<rparr>) i = under pt i"
  by (auto simp: under_def fun_eq_iff simp del: power_numeral)

lemma under_tables:
  assumes "l \<in> {1, 2, 3}" and "i \<noteq> page div 2 ^ 39"
  shows "under (pt\<lparr>tables := insert (l, table_of l page) (tables pt)\<rparr>) i = under pt i"
proof -
  have "table_of l page div 2 ^ (27 - 9 * l) = page div 2 ^ 39"
    using assms(1) by (auto simp: table_of_def div_mult2_eq [symmetric])
  then show ?thesis using assms(2) by (auto simp: under_def simp del: power_numeral)
qed

lemma create_tables_under:
  assumes "create_tables alloc ls page pt fa = Inr (r, pt', fa')" and "set ls \<subseteq> {1, 2, 3}" and "i \<noteq> page div 2 ^ 39"
  shows "under pt' i = under pt i"
  using assms(1,2)
proof (induction ls arbitrary: pt fa)
  case (Cons l ls)
  have step: "under (pt\<lparr>tables := insert (l, table_of l page) (tables pt)\<rparr>) i = under pt i"
    using Cons.prems(2) assms(3) by (intro under_tables) simp_all
  obtain q pt1 fa1 where 1: "create_next_table alloc l page pt fa = Inr (q, pt1, fa1)"
    "pt' = pt1 \<or> create_tables alloc ls page pt1 fa1 = Inr (r, pt', fa')"
    using Cons.prems(1) by (auto simp: rust_splits)
  then have "under pt1 i = under pt i"
    using step by (auto simp: create_next_table_def bind_rust_eq_Inr split: if_splits option.splits)
  then show ?case using 1(2) Cons.IH Cons.prems(2) by auto
qed simp

lemma four_level_map_under:
  assumes "four_level_map_to alloc page frame fl pt fa = Inr (Inr u, pt', fa')" and "i \<noteq> page div 2 ^ 39"
  shows "under pt' i = under pt i"
proof -
  obtain pt1 v where c: "create_tables alloc [3, 2, 1] page pt fa = Inr (Inr v, pt1, fa')"
    and pt': "pt' = pt1\<lparr>leaves := (leaves pt1)(page \<mapsto> (frame, fl))\<rparr>"
    using four_level_Ok [OF assms(1)] by auto
  have "under pt1 i = under pt i" by (rule create_tables_under [OF c _ assms(2)]) simp
  then show ?thesis unfolding pt' using under_leaves [OF assms(2)] by simp
qed

lemma four_level_unmap_under:
  "four_level_unmap page pt = (Inr f, pt') \<Longrightarrow> i \<noteq> page div 2 ^ 39 \<Longrightarrow> under pt' i = under pt i"
  by (auto simp: four_level_unmap_def under_leaves split: option.splits)

interpretation kl: kernel_loader "loader_documented p" unmapped under for p
proof (intro kernel_loader.intro kernel_loader_axioms.intro)
  show "frame_allocation (env_sort (loader_documented p)) (env_x86 (loader_documented p))"
    by (simp add: fa.frame_allocation_axioms)
  show "mapper (env_map_to (loader_documented p)) (env_translate (loader_documented p)) unmapped"
    by (simp add: fl.mapper_axioms)
next
  fix alloc :: "memory_map frame_source" and page frame fl pt fa u pt' fa' i
  assume "env_map_to (loader_documented p) alloc page frame fl pt fa = Inr (Inr u, pt', fa')" "i \<noteq> page div 2 ^ 39"
  then show "under pt' i = under pt i" using four_level_map_under by simp
next
  fix page f i and pt pt' :: page_tables
  assume "env_unmap (loader_documented p) page pt = (Inr f, pt')" "i \<noteq> page div 2 ^ 39"
  then show "under pt' i = under pt i" using four_level_unmap_under by simp
qed (auto simp: four_level_unmap_def)

subsection \<open>Properties\<close>

text \<open>
  C39: \<^verbatim>\<open>map_kernel\<close> on a sensible layout either succeeds, or returns the error for a failed frame allocation
  because no usable frame is left, or panics because the memory map has no slot left; it succeeds when
  the allocations it needs can be served. When it succeeds, the memory of every loadable segment reads
  as the file's bytes followed by zeros, with the segment's access rights, each page in a frame of its own
  that belongs to the file or was usable and cannot be handed out any more; the stack's pages are writable and backed by distinct frames that were usable;
  the guard page before the stack and all other pages are as before, and so is all memory outside the
  usable frames, the kernel file included.
\<close>

theorem map_kernel_loads:
  assumes "kernel_loader E mappable entry" and "kernel_layout mappable k p n segs s"
  shows "runs E (Mapping FrameAllocationFailed) (sum_list (map loading_cost segs) + 4 * n) (map_kernel E k (p * 4096) n segs) s
    (\<lambda>i s'. stack_end i = (p + 1 + n) * 4096 \<and> tls_segment i = tls_segment_of segs \<and>
       (\<forall>seg \<in> set segs. loaded E k (usable (ld_map s)) (ld_mem s) s' seg) \<and>
       (\<exists>g. backs E s' {PRESENT, WRITABLE} g (stack_pages p n) \<and> g ` stack_pages p n \<subseteq> usable (ld_map s)) \<and>
       env_translate E (ld_pt s') (p * 4096) = env_translate E (ld_pt s) (p * 4096) \<and>
       keeps E mappable entry ((\<Union>seg \<in> set segs. touched_pages seg) \<union> stack_pages p n) s s')"
proof (rule runs_weaken [OF kernel_loader.runs_map_kernel [OF assms]], elim conjE, intro conjI)
  fix s' assume k: "keeps E mappable entry ((\<Union>seg \<in> set segs. touched_pages seg) \<union> stack_pages p n) s s'"
  have "p \<notin> (\<Union>seg \<in> set segs. touched_pages seg) \<union> stack_pages p n"
    using assms(2) unfolding kernel_layout_def by (auto simp: stack_pages_def)
  then show "env_translate E (ld_pt s') (p * 4096) = env_translate E (ld_pt s) (p * 4096)"
    by (rule keeps_translateD [OF k])
qed

text \<open>One segment with code and a .bss that begins inside a page, a two-page stack, an empty page table.\<close>

definition example_segment :: program_header where
  "example_segment =
     \<lparr>ph_type = Load, ph_execute = True, ph_write = True, ph_offset = 256, ph_virtual_addr = 2097408,
      ph_file_size = 32, ph_mem_size = 4176\<rparr>"

definition example_loader :: "page_tables loader" where
  "example_loader =
     \<lparr>ld_pt = \<lparr>tables = {}, leaves = Map.empty\<rparr>, ld_map = small_map, ld_mem = (\<lambda>a. a mod 256)\<rparr>"

lemma example_layout: "kernel_layout unmapped 655360 768 2 [example_segment] example_loader"
proof -
  have t: "touched_pages example_segment = {512, 513, 4277075694}"
    by (auto simp: touched_pages_def segment_pages_def bss_temp_def example_segment_def TEMP_PAGE_def)
  have f: "file_frames 655360 example_segment = {160}"
    by (auto simp: file_frames_def example_segment_def)
  have "segment_ok 655360 example_segment"
    by (simp add: segment_ok_def example_segment_def segment_pages_def bss_temp_def TEMP_PAGE_def phys_bound_def virt_bound_def)
  moreover have "stack_pages 768 2 = {769, 770}" by (auto simp: stack_pages_def)
  moreover have "ph_type example_segment = Load" by (simp add: example_segment_def)
  ultimately show ?thesis
    by (simp add: kernel_layout_def t f example_loader_def sound_def small_map_wf small_map_sole usable_def small_map_owners
        virt_bound_def)
qed

theorem map_kernel_loads_witness:
  "kernel_loader (loader_documented Debug) unmapped under \<and>
   kernel_layout unmapped 655360 768 2 [example_segment] example_loader \<and>
   (\<exists>i s'. map_kernel (loader_documented Debug) 655360 (768 * 4096) 2 [example_segment] example_loader = Inr (Inr i, s') \<and>
      stack_end i = 771 * 4096 \<and> stored (loader_documented Debug) s' 2097409 1 \<and>
      stored (loader_documented Debug) s' 2097440 0 \<and> unmapped (ld_pt s') (768 * 4096))"
proof -
  have sp: "segment_pages example_segment = {512, 513}"
    by (auto simp: segment_pages_def example_segment_def)
  have cost: "sum_list (map loading_cost [example_segment]) + 4 * 2 = 29"
    by (simp add: loading_cost_def sp) (simp add: example_segment_def)
  have "ample (loader_documented Debug) 29 (ld_map example_loader)"
    by (rule kl.ample_by_slots [where F = "{0 ..< 29}"])
      (auto simp: example_loader_def small_map_wf small_map_slots max_memory_map_size_def usable_def small_map_owners)
  note am = this [folded cost]
  from runs_total [OF map_kernel_loads [OF kl.kernel_loader_axioms example_layout] am] obtain i s' where
    r: "map_kernel (loader_documented Debug) 655360 (768 * 4096) 2 [example_segment] example_loader = Inr (Inr i, s')"
    "stack_end i = (768 + 1 + 2) * 4096" "loaded (loader_documented Debug) 655360 (usable (ld_map example_loader)) (ld_mem example_loader) s' example_segment"
    "leaves (ld_pt s') (768 * 4096) = leaves (ld_pt example_loader) (768 * 4096)" by auto
  have "ph_type example_segment = Load" "ph_virtual_addr example_segment = 2097408" "ph_file_size example_segment = 32"
    "ph_mem_size example_segment = 4176" "ph_offset example_segment = 256"
    by (simp_all add: example_segment_def)
  note e = this
  have "(655360 + 256 + 1) mod 256 = (1::nat)" by simp
  then have "stored (loader_documented Debug) s' (2097408 + 1) 1"
    using r(3) unfolding loaded_def e example_loader_def by (metis loader.select_convs(3) one_less_numeral_iff semiring_norm(76))
  moreover have "stored (loader_documented Debug) s' (2097408 + 32) 0"
    using r(3) [unfolded loaded_def e] by (auto dest!: spec [of _ "32::nat"])
  moreover have "unmapped (ld_pt s') (768 * 4096)" using r(4) by (simp add: example_loader_def)
  ultimately show ?thesis using r(1,2) kl.kernel_loader_axioms example_layout by auto
qed

text \<open>
  C40: the temporary page used to copy a partly filled last page is never unmapped, so a kernel with two
  loadable segments whose .bss begins inside a page is never loaded.
\<close>

theorem map_kernel_two_partial_bss:
  assumes "kernel_loader E mappable entry" and "\<forall>seg \<in> set segs. ph_virtual_addr seg + ph_file_size seg < virt_bound"
    and "length (filter partial_bss segs) \<ge> 2"
  shows "map_kernel E k stack_start n segs s \<noteq> Inr (Inr i, s')"
proof
  assume "map_kernel E k stack_start n segs s = Inr (Inr i, s')"
  then obtain r s1 where "map_segments E k segs None s = Inr (Inr r, s1)"
    by (auto simp: map_kernel_def kernel_loader.bind_ld_Ok [OF assms(1)])
  from kernel_loader.map_segments_temp [OF assms(1) this assms(2)] show False
    using assms(3) by (auto split: if_splits)
qed

theorem map_kernel_two_partial_bss_witness:
  "kernel_loader (loader_documented Debug) unmapped under \<and>
   length (filter partial_bss [example_segment, example_segment\<lparr>ph_virtual_addr := 4194560\<rparr>]) = 2 \<and>
   (\<nexists>i s'. map_kernel (loader_documented Debug) 655360 (768 * 4096) 2
      [example_segment, example_segment\<lparr>ph_virtual_addr := 4194560\<rparr>] example_loader = Inr (Inr i, s'))"
proof -
  let ?segs = "[example_segment, example_segment\<lparr>ph_virtual_addr := 4194560\<rparr>]"
  have two: "length (filter partial_bss ?segs) = 2"
    by (simp add: partial_bss_def bss_temp_def example_segment_def)
  have "\<forall>seg \<in> set ?segs. ph_virtual_addr seg + ph_file_size seg < virt_bound"
    by (simp add: example_segment_def virt_bound_def)
  from map_kernel_two_partial_bss [OF kl.kernel_loader_axioms this] two show ?thesis
    using kl.kernel_loader_axioms by simp
qed

end
