(* ===== verification/BuildConfig.thy ===== *)
theory BuildConfig
  imports RustStr
begin

text \<open>
  Configuration parsing of the bootloader's build script (\<^verbatim>\<open>bootloader/build.rs\<close>): the table
  \<^verbatim>\<open>package.metadata.bootloader\<close> of the kernel's manifest is read into options that become constants
  of the bootloader. A table as parsed by the crate \<^verbatim>\<open>toml\<close> is the list of its keys and values.
\<close>

subsection \<open>Numbers\<close>

text \<open>\<^verbatim>\<open>char::to_digit\<close> and \<^verbatim>\<open>u64::from_str_radix\<close> for a radix of at most 16.\<close>

definition to_digit :: "nat \<Rightarrow> char \<Rightarrow> nat option" where
  "to_digit radix c =
     (let b = byte c;
          d = (if 48 \<le> b \<and> b \<le> 57 then b - 48
               else if 97 \<le> b \<and> b \<le> 102 then b - 87
               else if 65 \<le> b \<and> b \<le> 70 then b - 55
               else 16)
      in if d < radix then Some d else None)"

fun digits_from :: "nat \<Rightarrow> nat \<Rightarrow> string \<Rightarrow> nat option" where
  "digits_from radix acc [] = Some acc"
| "digits_from radix acc (c # s) =
     (case to_digit radix c of
        None \<Rightarrow> None
      | Some d \<Rightarrow>
          let acc' = acc * radix + d
          in if acc' < u64_bound then digits_from radix acc' s else None)"

definition from_str_radix :: "nat \<Rightarrow> string \<Rightarrow> u64 option" where
  "from_str_radix radix s =
     (case s of
        [] \<Rightarrow> None
      | c # t \<Rightarrow> if c = CHR ''+'' \<and> t \<noteq> [] then digits_from radix 0 t else digits_from radix 0 s)"

definition parse_aligned_addr :: "string \<Rightarrow> string \<Rightarrow> u64 rust" where
  "parse_aligned_addr key val =
     bind_rust
       (expect (''`'' @ key @ ''` in the kernel manifest must be an integer (is `'' @ val @ ''`)'')
          (if take 2 val = ''0x'' then from_str_radix 16 (drop 2 val) else from_str_radix 10 val))
       (\<lambda>num.
          if num mod 0x1000 \<noteq> 0
          then Inl (Explicit_panic (''`'' @ key @ ''` in the kernel manifest must be aligned to 4KiB (is `'' @ val @ ''`)''))
          else Inr num)"

subsection \<open>The table\<close>

datatype toml_value = Integer int | String string | Table "(string \<times> toml_value) list" | Other

record bootloader_config =
  cfg_physical_memory_offset :: "u64 option"
  cfg_kernel_stack_address :: "u64 option"
  cfg_kernel_stack_size :: "u64 option"
  cfg_boot_info_address :: "u64 option"

definition config_default :: bootloader_config where
  "config_default =
     \<lparr>cfg_physical_memory_offset = None, cfg_kernel_stack_address = None,
      cfg_kernel_stack_size = None, cfg_boot_info_address = None\<rparr>"

definition not_a_string :: "string \<Rightarrow> int \<Rightarrow> panic" where
  "not_a_string key i =
     Explicit_panic (''`'' @ key @ ''` in the kernel manifest must be given as a string, '' @
       ''as toml does not support unsigned 64-bit integers (try `'' @ key @ '' = '' @ [CHR 0x22] @ show_int i @ [CHR 0x22] @ ''`)'')"

definition unknown_key :: "string \<Rightarrow> panic" where
  "unknown_key key =
     Explicit_panic (''unknown key '' @ [CHR 0x27] @ key @ [CHR 0x27] @
       '' in kernel manifest - you may need to update the bootloader crate'')"

definition config_entry ::
  "bool \<Rightarrow> string \<Rightarrow> toml_value \<Rightarrow> bootloader_config \<Rightarrow> bootloader_config rust" where
  "config_entry map_physical_memory key v cfg =
     (case v of
        Integer i \<Rightarrow>
          if key \<in> {''kernel-stack-address'', ''physical-memory-offset'', ''boot-info-address''} then Inl (not_a_string key i)
          else if key = ''kernel-stack-size'' then
            (if i \<le> 0 then Inl (Explicit_panic ''`kernel-stack-size` in kernel manifest must be positive'')
             else Inr (cfg\<lparr>cfg_kernel_stack_size := Some (nat i)\<rparr>))
          else Inl (unknown_key key)
      | String s \<Rightarrow>
          if key = ''kernel-stack-address'' then
            bind_rust (parse_aligned_addr key s) (\<lambda>n. Inr (cfg\<lparr>cfg_kernel_stack_address := Some n\<rparr>))
          else if key = ''boot-info-address'' then
            bind_rust (parse_aligned_addr key s) (\<lambda>n. Inr (cfg\<lparr>cfg_boot_info_address := Some n\<rparr>))
          else if key = ''physical-memory-offset'' then
            (if map_physical_memory
             then bind_rust (parse_aligned_addr key s) (\<lambda>n. Inr (cfg\<lparr>cfg_physical_memory_offset := Some n\<rparr>))
             else Inl (Explicit_panic (''`physical-memory-offset` is only supported when the `map_physical_memory` '' @
                    ''feature of the crate is enabled'')))
          else Inl (unknown_key key)
      | _ \<Rightarrow> Inl (unknown_key key))"

fun parse_to_config ::
  "bool \<Rightarrow> (string \<times> toml_value) list \<Rightarrow> bootloader_config \<Rightarrow> bootloader_config rust" where
  "parse_to_config feat [] cfg = Inr cfg"
| "parse_to_config feat ((key, v) # table) cfg =
     bind_rust (config_entry feat key v cfg) (parse_to_config feat table)"

definition KERNEL_STACK_SIZE :: "bootloader_config \<Rightarrow> u64" where
  "KERNEL_STACK_SIZE cfg = (case cfg_kernel_stack_size cfg of None \<Rightarrow> 512 | Some n \<Rightarrow> n)"

subsection \<open>Printing and parsing numbers\<close>

function show_radix :: "nat \<Rightarrow> nat \<Rightarrow> string" where
  "show_radix r n = (if n < r \<or> r < 2 then [hex_char n] else show_radix r (n div r) @ [hex_char (n mod r)])"
  by auto
termination by (relation "measure snd") auto

declare show_radix.simps [simp del]

lemma to_digit_hex_char:
  assumes "d < r" and "r \<le> 16"
  shows "to_digit r (hex_char d) = Some d"
  using assms by (cases "d < 10") (simp_all add: to_digit_def hex_char_def Let_def)

lemma digits_from_append:
  "digits_from r a (s @ t) = (case digits_from r a s of None \<Rightarrow> None | Some b \<Rightarrow> digits_from r b t)"
  by (induction s arbitrary: a) (auto simp: Let_def split: option.split)

lemma digits_from_show:
  assumes "2 \<le> r" and "r \<le> 16" and "n < u64_bound"
  shows "digits_from r 0 (show_radix r n) = Some n"
  using assms
proof (induction n rule: less_induct)
  case (less n)
  show ?case
  proof (cases "n < r")
    case True
    then show ?thesis
      using less.prems to_digit_hex_char [of n r] by (simp add: show_radix.simps Let_def)
  next
    case False
    have lt: "n div r < n" using less.prems(1) False by simp
    have "digits_from r 0 (show_radix r (n div r)) = Some (n div r)"
      using less.IH [OF lt] less.prems lt by simp
    moreover have "to_digit r (hex_char (n mod r)) = Some (n mod r)"
      using less.prems by (intro to_digit_hex_char) simp_all
    moreover have "show_radix r n = show_radix r (n div r) @ [hex_char (n mod r)]"
      using False less.prems(1) by (subst show_radix.simps) simp
    ultimately show ?thesis using less.prems(3) by (simp add: digits_from_append Let_def)
  qed
qed

lemma show_radix_digits:
  assumes "2 \<le> r" and "r \<le> 16"
  shows "show_radix r n \<noteq> []" and "CHR ''+'' \<notin> set (show_radix r n)"
    and "r = 10 \<Longrightarrow> CHR ''x'' \<notin> set (show_radix r n)"
proof -
  have c: "hex_char d \<noteq> CHR ''+''" "d < 10 \<Longrightarrow> hex_char d \<noteq> CHR ''x''" if "d < 16" for d
    using that to_digit_hex_char [of d 16] by (auto simp: to_digit_def)
  show "show_radix r n \<noteq> []" by (subst show_radix.simps) simp
  show "CHR ''+'' \<notin> set (show_radix r n)"
    using assms c(1)
  proof (induction n rule: less_induct)
    case (less n)
    show ?case
    proof (cases "n < r")
      case False
      then have "n div r < n" "n mod r < 16" using less.prems(1,2) by (simp, meson mod_less_divisor less_le_trans zero_less_numeral)
      moreover from this have "CHR ''+'' \<noteq> hex_char (n mod r)" using c(1) [of "n mod r"] by metis
      ultimately show ?thesis
        using less.IH [of "n div r"] less.prems False by (subst show_radix.simps) simp
    next
      case True
      then have "CHR ''+'' \<noteq> hex_char n" using c(1) [of n] less.prems(2) by (metis less_le_trans)
      with True show ?thesis by (simp add: show_radix.simps)
    qed
  qed
  show "CHR ''x'' \<notin> set (show_radix r n)" if "r = 10"
    unfolding that
  proof (induction n rule: less_induct)
    case (less n)
    show ?case
    proof (cases "n < 10")
      case False
      then show ?thesis
        using less.IH [of "n div 10"] c(2) [of "n mod 10"] by (subst show_radix.simps) auto
    qed (use c(2) [of n] in \<open>auto simp: show_radix.simps\<close>)
  qed
qed

lemma from_str_radix_show:
  assumes "2 \<le> r" and "r \<le> 16" and "n < u64_bound"
  shows "from_str_radix r (show_radix r n) = Some n"
  using digits_from_show [OF assms] show_radix_digits(1,2) [OF assms(1,2), of n]
  by (cases "show_radix r n") (auto simp: from_str_radix_def)

lemma digits_from_bound: "acc < u64_bound \<Longrightarrow> digits_from r acc s = Some n \<Longrightarrow> n < u64_bound"
  by (induction s arbitrary: acc) (auto simp: Let_def split: option.splits if_splits)

lemma parse_aligned_addr_sound:
  assumes "parse_aligned_addr key v = Inr n"
  shows "n < u64_bound \<and> n mod 4096 = 0"
  using assms digits_from_bound [of 0]
  by (auto simp: parse_aligned_addr_def bind_rust_eq_Inr expect_def from_str_radix_def
      simp del: digits_from.simps split: option.splits if_splits list.splits)

subsection \<open>The table's fields\<close>

text \<open>The readings of a value, and the entries that are accepted.\<close>

definition addr_of :: "string \<Rightarrow> toml_value \<Rightarrow> u64 option" where
  "addr_of key v = (case v of String s \<Rightarrow> (case parse_aligned_addr key s of Inr n \<Rightarrow> Some n | Inl _ \<Rightarrow> None) | _ \<Rightarrow> None)"

definition size_of :: "toml_value \<Rightarrow> u64 option" where
  "size_of v = (case v of Integer i \<Rightarrow> if 0 < i then Some (nat i) else None | _ \<Rightarrow> None)"

definition entry_ok :: "bool \<Rightarrow> string \<times> toml_value \<Rightarrow> bool" where
  "entry_ok map_physical_memory = (\<lambda>(key, v).
     key \<in> {''kernel-stack-address'', ''boot-info-address''} \<and> addr_of key v \<noteq> None \<or>
     key = ''physical-memory-offset'' \<and> map_physical_memory \<and> addr_of key v \<noteq> None \<or>
     key = ''kernel-stack-size'' \<and> size_of v \<noteq> None)"

text \<open>One entry overwrites the field of its key.\<close>

definition set_field :: "string \<times> toml_value \<Rightarrow> bootloader_config \<Rightarrow> bootloader_config" where
  "set_field = (\<lambda>(key, v) cfg.
     if key = ''kernel-stack-address'' then cfg\<lparr>cfg_kernel_stack_address := addr_of key v\<rparr>
     else if key = ''boot-info-address'' then cfg\<lparr>cfg_boot_info_address := addr_of key v\<rparr>
     else if key = ''physical-memory-offset'' then cfg\<lparr>cfg_physical_memory_offset := addr_of key v\<rparr>
     else cfg\<lparr>cfg_kernel_stack_size := size_of v\<rparr>)"

lemma config_entry_Inr:
  "config_entry feat key v cfg = Inr cfg' \<longleftrightarrow> entry_ok feat (key, v) \<and> cfg' = set_field (key, v) cfg"
proof (cases v)
  case (Integer i)
  then show ?thesis
    by (cases "key = ''kernel-stack-address''"; cases "key = ''physical-memory-offset''"; cases "key = ''boot-info-address''";
        cases "key = ''kernel-stack-size''"; cases "0 < i")
      (auto simp: config_entry_def entry_ok_def set_field_def addr_of_def size_of_def)
next
  case (String t)
  then show ?thesis
    by (cases "key = ''kernel-stack-address''"; cases "key = ''physical-memory-offset''"; cases "key = ''boot-info-address''";
        cases "parse_aligned_addr key t"; cases feat)
      (auto simp: config_entry_def entry_ok_def set_field_def addr_of_def size_of_def)
qed (simp_all add: config_entry_def entry_ok_def addr_of_def size_of_def)

lemma parse_to_config_fold:
  "parse_to_config feat table cfg = Inr cfg' \<longleftrightarrow> (\<forall>e \<in> set table. entry_ok feat e) \<and> cfg' = fold set_field table cfg"
  by (induction feat table cfg rule: parse_to_config.induct) (auto simp: bind_rust_eq_Inr config_entry_Inr)

text \<open>What the table says of one field, given the value's reading.\<close>

definition field_of :: "(string \<times> toml_value) list \<Rightarrow> string \<Rightarrow> (toml_value \<Rightarrow> u64 option) \<Rightarrow> u64 option" where
  "field_of table key reading = Option.bind (map_of table key) reading"

definition config_of :: "(string \<times> toml_value) list \<Rightarrow> bootloader_config" where
  "config_of table =
     \<lparr>cfg_physical_memory_offset = field_of table ''physical-memory-offset'' (addr_of ''physical-memory-offset''),
      cfg_kernel_stack_address = field_of table ''kernel-stack-address'' (addr_of ''kernel-stack-address''),
      cfg_kernel_stack_size = field_of table ''kernel-stack-size'' size_of,
      cfg_boot_info_address = field_of table ''boot-info-address'' (addr_of ''boot-info-address'')\<rparr>"

lemma field_of_snoc:
  assumes "key' \<notin> fst ` set table"
  shows "field_of (table @ [(key', v)]) key reading = (if key = key' then reading v else field_of table key reading)"
proof -
  have "map_of table key' = None" using assms by (simp add: map_of_eq_None_iff)
  then show ?thesis by (cases "map_of table key") (auto simp: field_of_def map_add_def)
qed

lemma fold_set_field:
  assumes "distinct (map fst table)" and "\<forall>e \<in> set table. entry_ok feat e"
  shows "fold set_field table config_default = config_of table"
  using assms
proof (induction table rule: rev_induct)
  case Nil
  show ?case by (simp add: config_of_def config_default_def field_of_def)
next
  case (snoc e table)
  obtain key v where e: "e = (key, v)" by force
  have new: "key \<notin> fst ` set table" using snoc.prems(1) by (simp add: e)
  note f = field_of_snoc [OF new]
  have "entry_ok feat (key, v)" using snoc.prems(2) by (simp add: e)
  then consider "key = ''kernel-stack-address''" | "key = ''boot-info-address''" | "key = ''physical-memory-offset''" | "key = ''kernel-stack-size''"
    unfolding entry_ok_def prod.case insert_iff empty_iff by metis
  then have "set_field (key, v) (config_of table) = config_of (table @ [(key, v)])"
    unfolding config_of_def f by cases (simp_all add: set_field_def)
  moreover have "fold set_field table config_default = config_of table" using snoc.IH snoc.prems by simp
  ultimately show ?case by (simp add: e)
qed

subsection \<open>Properties\<close>

text \<open>
  C36: an address below \<open>2 ^ 64\<close> that is a multiple of 4096 is read back from its decimal form and from
  its hexadecimal form with prefix \<^verbatim>\<open>0x\<close>, and every address the parser returns is of that kind.
\<close>

theorem parse_aligned_addr_roundtrip:
  assumes "n < u64_bound" and "n mod 4096 = 0"
  shows "parse_aligned_addr key (show_radix 10 n) = Inr n \<and>
    parse_aligned_addr key (''0x'' @ show_radix 16 n) = Inr n \<and>
    (\<forall>v m. parse_aligned_addr key v = Inr m \<longrightarrow> m < u64_bound \<and> m mod 4096 = 0)"
proof -
  have "take 2 (show_radix 10 n) \<noteq> ''0x''"
    using show_radix_digits(3) [of 10 n] in_set_takeD [of "CHR ''x''" 2 "show_radix 10 n"] by force
  then have "parse_aligned_addr key (show_radix 10 n) = Inr n"
    using assms from_str_radix_show [of 10 n] by (simp add: parse_aligned_addr_def)
  moreover have "parse_aligned_addr key (''0x'' @ show_radix 16 n) = Inr n"
    using assms from_str_radix_show [of 16 n] by (simp add: parse_aligned_addr_def)
  ultimately show ?thesis using parse_aligned_addr_sound by blast
qed

theorem parse_aligned_addr_roundtrip_witness:
  "(1099511627776::nat) < u64_bound \<and> (1099511627776::nat) mod 4096 = 0 \<and>
   parse_aligned_addr ''boot-info-address'' (''0x'' @ show_radix 16 1099511627776) = Inr 1099511627776"
  using parse_aligned_addr_roundtrip [of 1099511627776 "''boot-info-address''"] by (simp add: u64_bound_def)

text \<open>
  C37: the manifest's table is accepted exactly when each of its keys is known, with a string that is an aligned
  address or, for the stack size, a positive integer, and with the feature the offset needs; each option of the
  configuration is then what the table says under its key, and is absent when the table does not have it.
\<close>

theorem parse_to_config_exact:
  assumes "distinct (map fst table)"
  shows "parse_to_config feat table config_default = Inr cfg \<longleftrightarrow> (\<forall>e \<in> set table. entry_ok feat e) \<and> cfg = config_of table"
  using parse_to_config_fold [of feat table config_default cfg] fold_set_field [OF assms, of feat] by metis

theorem parse_to_config_exact_witness:
  "parse_to_config True [(''kernel-stack-size'', Integer 128), (''physical-memory-offset'', String ''0x1000'')] config_default =
     Inr (config_default\<lparr>cfg_kernel_stack_size := Some 128, cfg_physical_memory_offset := Some 4096\<rparr>) \<and>
   parse_to_config True [(''kernel-stack-size'', Integer 128), (''stack'', Integer 1)] config_default \<noteq>
     Inr (config_default\<lparr>cfg_kernel_stack_size := Some 128\<rparr>)"
proof -
  have "addr_of ''physical-memory-offset'' (String ''0x1000'') = Some 4096"
    by (simp add: addr_of_def parse_aligned_addr_def from_str_radix_def to_digit_def Let_def u64_bound_def)
  moreover have d: "distinct (map fst [(''kernel-stack-size'', Integer 128), (''physical-memory-offset'', String ''0x1000'')])"
    "distinct (map fst [(''kernel-stack-size'', Integer 128), (''stack'', Integer 1)])" by simp_all
  ultimately show ?thesis
    unfolding parse_to_config_exact [OF d(1)] parse_to_config_exact [OF d(2)]
    by (simp add: config_of_def config_default_def field_of_def entry_ok_def size_of_def)
qed

end
