(* ===== verification/Cpu.thy ===== *)
theory Cpu
  imports "HOL-Library.Word"
begin

unbundle bit_operations_syntax

text \<open>
  The control registers the bootloader changes (\<^verbatim>\<open>enable_nxe_bit\<close> and \<^verbatim>\<open>enable_write_protect_bit\<close> of
  \<^verbatim>\<open>bootloader/src/main.rs\<close>, \<^verbatim>\<open>bootloader/src/sse.rs\<close>). A register is a 64-bit word; \<^verbatim>\<open>insert\<close> and
  \<^verbatim>\<open>remove\<close> of a flag set and clear its bit, and writing flags back keeps the bits that are no flags.
  The bit positions are those of the architecture.
\<close>

record cpu =
  efer :: "64 word"
  cr0 :: "64 word"
  cr4 :: "64 word"

definition NO_EXECUTE_ENABLE :: "64 word" where "NO_EXECUTE_ENABLE = push_bit 11 1"
definition MONITOR_COPROCESSOR :: "64 word" where "MONITOR_COPROCESSOR = push_bit 1 1"
definition EMULATE_COPROCESSOR :: "64 word" where "EMULATE_COPROCESSOR = push_bit 2 1"
definition WRITE_PROTECT :: "64 word" where "WRITE_PROTECT = push_bit 16 1"
definition OSFXSR :: "64 word" where "OSFXSR = push_bit 9 1"
definition OSXMMEXCPT_ENABLE :: "64 word" where "OSXMMEXCPT_ENABLE = push_bit 10 1"

definition enable_nxe_bit :: "cpu \<Rightarrow> cpu" where
  "enable_nxe_bit c = c\<lparr>efer := efer c OR NO_EXECUTE_ENABLE\<rparr>"

definition enable_write_protect_bit :: "cpu \<Rightarrow> cpu" where
  "enable_write_protect_bit c = c\<lparr>cr0 := cr0 c OR WRITE_PROTECT\<rparr>"

definition enable_sse :: "cpu \<Rightarrow> cpu" where
  "enable_sse c =
     (let flags = (cr0 c AND NOT EMULATE_COPROCESSOR) OR MONITOR_COPROCESSOR;
          c1 = c\<lparr>cr0 := flags\<rparr>;
          flags4 = cr4 c1 OR OSFXSR OR OSXMMEXCPT_ENABLE
      in c1\<lparr>cr4 := flags4\<rparr>)"

lemma bit_of_flag: "bit (push_bit i (1 :: 64 word)) n \<longleftrightarrow> n = i \<and> i < 64"
  by (auto simp: bit_simps)

lemma register_masks:
  "bit NO_EXECUTE_ENABLE n \<longleftrightarrow> n = 11" "bit MONITOR_COPROCESSOR n \<longleftrightarrow> n = 1" "bit EMULATE_COPROCESSOR n \<longleftrightarrow> n = 2"
  "bit WRITE_PROTECT n \<longleftrightarrow> n = 16" "bit OSFXSR n \<longleftrightarrow> n = 9" "bit OSXMMEXCPT_ENABLE n \<longleftrightarrow> n = 10"
  unfolding NO_EXECUTE_ENABLE_def MONITOR_COPROCESSOR_def EMULATE_COPROCESSOR_def WRITE_PROTECT_def OSFXSR_def
    OSXMMEXCPT_ENABLE_def bit_of_flag by simp_all

lemmas register_bits = register_masks bit_or_iff bit_and_iff bit_not_iff

lemma enable_nxe_bit_bits:
  "bit (efer (enable_nxe_bit c)) n \<longleftrightarrow> n = 11 \<or> bit (efer c) n"
  "cr0 (enable_nxe_bit c) = cr0 c" "cr4 (enable_nxe_bit c) = cr4 c"
  by (auto simp: enable_nxe_bit_def register_bits)

lemma enable_write_protect_bit_bits:
  "bit (cr0 (enable_write_protect_bit c)) n \<longleftrightarrow> n = 16 \<or> bit (cr0 c) n"
  "efer (enable_write_protect_bit c) = efer c" "cr4 (enable_write_protect_bit c) = cr4 c"
  by (auto simp: enable_write_protect_bit_def register_bits)

lemma enable_sse_bits:
  "bit (cr0 (enable_sse c)) n \<longleftrightarrow> n = 1 \<or> n \<noteq> 2 \<and> bit (cr0 c) n"
  "bit (cr4 (enable_sse c)) n \<longleftrightarrow> n = 9 \<or> n = 10 \<or> bit (cr4 c) n"
  "efer (enable_sse c) = efer c"
  by (auto simp: enable_sse_def Let_def register_bits dest: bit_imp_le_length)

end
