(* ===== verification/Printer.thy ===== *)
theory Printer
  imports Prelude
begin

text \<open>
  The bootloader's two panic printers: \<^verbatim>\<open>bootloader/src/printer/vga_text_80x25.rs\<close> and
  \<^verbatim>\<open>vga_320x200.rs\<close>. Video memory is a partial map from offsets behind the buffer's base address
  to the bytes stored there; the printers write through raw pointers, so no offset is checked.
  Positions are \<^verbatim>\<open>AtomicUsize\<close> counters, which wrap around on overflow under both profiles.
\<close>

definition fetch_add :: "usize \<Rightarrow> usize \<Rightarrow> usize" where
  "fetch_add n k = (n + k) mod u64_bound"

type_synonym video = "nat \<rightharpoonup> nat"

subsection \<open>Text mode\<close>

record text_printer =
  text_mem :: video
  current_offset :: usize

definition SCREEN_SIZE :: usize where "SCREEN_SIZE = 80 * 25"

definition clear_bytes :: "nat \<Rightarrow> video \<Rightarrow> video" where
  "clear_bytes n v = fold (\<lambda>i m. m(i \<mapsto> 0)) [0 ..< n] v"

definition text_clear_screen :: "text_printer \<Rightarrow> text_printer" where
  "text_clear_screen t = t\<lparr>text_mem := clear_bytes SCREEN_SIZE (text_mem t), current_offset := 0\<rparr>"

definition text_write_byte :: "char \<Rightarrow> text_printer \<Rightarrow> text_printer" where
  "text_write_byte byte t =
     (let index = current_offset t
      in t\<lparr>text_mem := (text_mem t)(index \<mapsto> of_char byte, index + 1 \<mapsto> 0x4f),
           current_offset := fetch_add index 2\<rparr>)"

definition text_write_str :: "string \<Rightarrow> text_printer \<Rightarrow> text_printer" where
  "text_write_str s t = fold text_write_byte s t"

subsection \<open>Graphics mode\<close>

definition SCREEN_WIDTH :: usize where "SCREEN_WIDTH = 320"
definition SCREEN_HEIGHT :: usize where "SCREEN_HEIGHT = 200"

record gfx_printer =
  gfx_mem :: video
  x_pos :: usize
  y_pos :: usize

definition gfx_clear_screen :: "gfx_printer \<Rightarrow> gfx_printer" where
  "gfx_clear_screen g =
     g\<lparr>gfx_mem := clear_bytes (SCREEN_WIDTH * SCREEN_HEIGHT) (gfx_mem g), x_pos := 0, y_pos := 0\<rparr>"

definition gfx_newline :: "gfx_printer \<Rightarrow> gfx_printer" where
  "gfx_newline g =
     (let y = y_pos g; g' = g\<lparr>y_pos := fetch_add y 8, x_pos := 0\<rparr>
      in if y \<ge> SCREEN_HEIGHT then gfx_clear_screen g' else g')"

text \<open>
  The glyphs of the crate \<^verbatim>\<open>font8x8\<close> are the parameter \<open>font\<close>: eight bytes per character, one per
  pixel row, bit 0 leftmost. The pixels of a glyph, row by row:
\<close>

definition glyph_pixels :: "nat list \<Rightarrow> (nat \<times> nat) list" where
  "glyph_pixels rendered =
     concat (map (\<lambda>(y, byte). map (\<lambda>x. (y, x)) (filter (\<lambda>bit. odd (byte div 2 ^ bit)) [0 ..< 8]))
       (enumerate 0 rendered))"

definition draw_glyph :: "nat list \<Rightarrow> usize \<Rightarrow> usize \<Rightarrow> video \<Rightarrow> video" where
  "draw_glyph rendered px py v =
     fold (\<lambda>(y, x) m. m((py + y) * SCREEN_WIDTH + px + x \<mapsto> 0xf)) (glyph_pixels rendered) v"

definition gfx_write_char :: "(char \<Rightarrow> nat list option) \<Rightarrow> char \<Rightarrow> gfx_printer \<Rightarrow> gfx_printer rust" where
  "gfx_write_char font c g =
     (if c = CHR 0x0A then Inr (gfx_newline g)
      else let px = x_pos g; py = y_pos g; g1 = g\<lparr>x_pos := fetch_add px 8\<rparr>
        in if 0x20 \<le> (of_char c :: nat) \<and> (of_char c :: nat) \<le> 0x7e
           then bind_rust (expect ''character not found in basic font'' (font c)) (\<lambda>rendered.
             let g2 = g1\<lparr>gfx_mem := draw_glyph rendered px py (gfx_mem g1)\<rparr>
             in Inr (if px + 8 \<ge> SCREEN_WIDTH then gfx_newline g2 else g2))
           else Inl (Explicit_panic ''unprintable character''))"

fun gfx_write_str :: "(char \<Rightarrow> nat list option) \<Rightarrow> string \<Rightarrow> gfx_printer \<Rightarrow> gfx_printer rust" where
  "gfx_write_str font [] g = Inr g"
| "gfx_write_str font (c # s) g = bind_rust (gfx_write_char font c g) (gfx_write_str font s)"

subsection \<open>Clearing\<close>

lemma clear_bytes_at: "clear_bytes n v i = (if i < n then Some 0 else v i)"
  by (induction n) (auto simp: clear_bytes_def)

subsection \<open>Text: layout and reach\<close>

lemma text_write_str_layout:
  assumes "current_offset t + 2 * length s < u64_bound"
  shows "current_offset (text_write_str s t) = current_offset t + 2 * length s \<and>
    (\<forall>i < length s. text_mem (text_write_str s t) (current_offset t + 2 * i) = Some (of_char (s ! i)) \<and>
       text_mem (text_write_str s t) (current_offset t + 2 * i + 1) = Some 0x4f) \<and>
    (\<forall>j. j < current_offset t \<or> current_offset t + 2 * length s \<le> j \<longrightarrow> text_mem (text_write_str s t) j = text_mem t j)"
  using assms
proof (induction s arbitrary: t)
  case (Cons c s)
  let ?t = "text_write_byte c t"
  have off: "current_offset ?t = current_offset t + 2"
    using Cons.prems by (simp add: text_write_byte_def Let_def fetch_add_def)
  have str: "text_write_str (c # s) t = text_write_str s ?t" by (simp add: text_write_str_def)
  have IH: "current_offset (text_write_str s ?t) = current_offset t + 2 + 2 * length s"
    "\<forall>i < length s. text_mem (text_write_str s ?t) (current_offset t + 2 + 2 * i) = Some (of_char (s ! i)) \<and>
       text_mem (text_write_str s ?t) (current_offset t + 2 + 2 * i + 1) = Some 0x4f"
    "\<forall>j. j < current_offset t + 2 \<or> current_offset t + 2 + 2 * length s \<le> j \<longrightarrow> text_mem (text_write_str s ?t) j = text_mem ?t j"
    using Cons.IH [of ?t] Cons.prems unfolding off by auto
  have mem: "text_mem ?t = (text_mem t)(current_offset t \<mapsto> of_char c, current_offset t + 1 \<mapsto> 0x4f)"
    by (simp add: text_write_byte_def Let_def)
  have "text_mem (text_write_str s ?t) (current_offset t + 2 * i) = Some (of_char ((c # s) ! i)) \<and>
      text_mem (text_write_str s ?t) (current_offset t + 2 * i + 1) = Some 0x4f" if "i < length (c # s)" for i
    using that IH(2,3) mem by (cases i) (simp_all add: algebra_simps)
  moreover have "text_mem (text_write_str s ?t) j = text_mem t j"
    if "j < current_offset t \<or> current_offset t + 2 * length (c # s) \<le> j" for j
    using that IH(3) mem by auto
  ultimately show ?case using IH(1) unfolding str by auto
qed (simp add: text_write_str_def)

subsection \<open>Graphics: where the pixels go\<close>

lemma glyph_pixels_bound:
  assumes "(y, x) \<in> set (glyph_pixels rendered)"
  shows "y < length rendered" and "x < 8"
  using assms by (auto simp: glyph_pixels_def in_set_enumerate_eq)

lemma fold_pixels_outside:
  assumes "\<forall>(y, x) \<in> set ps. (py + y) * SCREEN_WIDTH + px + x \<noteq> j"
  shows "fold (\<lambda>(y, x) m. m((py + y) * SCREEN_WIDTH + px + x \<mapsto> 0xf)) ps v j = v j"
  using assms by (induction ps arbitrary: v) auto

lemma fold_pixels_inside:
  assumes "(y, x) \<in> set ps"
  shows "fold (\<lambda>(y, x) m. m((py + y) * SCREEN_WIDTH + px + x \<mapsto> 0xf)) ps v ((py + y) * SCREEN_WIDTH + px + x) = Some 0xf"
  using assms
proof (induction ps rule: rev_induct)
  case (snoc p ps)
  obtain y' x' where p: "p = (y', x')" by force
  show ?case
  proof (cases "(py + y') * SCREEN_WIDTH + px + x' = (py + y) * SCREEN_WIDTH + px + x")
    case False
    with snoc p show ?thesis by auto
  qed (simp add: p)
qed simp

definition gfx_ok :: "gfx_printer \<Rightarrow> bool" where
  "gfx_ok g \<longleftrightarrow> x_pos g < 320 \<and> x_pos g mod 8 = 0 \<and> y_pos g \<le> 200 \<and> y_pos g mod 8 = 0"

lemma gfx_newline_ok:
  assumes "gfx_ok g"
  shows "gfx_ok (gfx_newline g)" and "64000 \<le> j \<Longrightarrow> gfx_mem (gfx_newline g) j = gfx_mem g j"
proof -
  have "y_pos g < 200 \<Longrightarrow> y_pos g + 8 \<le> 200" using assms unfolding gfx_ok_def by presburger
  then show "gfx_ok (gfx_newline g)"
    using assms by (auto simp: gfx_newline_def Let_def gfx_ok_def gfx_clear_screen_def fetch_add_def
        u64_bound_def SCREEN_HEIGHT_def)
  show "gfx_mem (gfx_newline g) j = gfx_mem g j" if "64000 \<le> j"
    using that by (simp add: gfx_newline_def Let_def gfx_clear_screen_def clear_bytes_at SCREEN_WIDTH_def SCREEN_HEIGHT_def)
qed

lemma gfx_write_char_ok:
  assumes ok: "gfx_ok g" and font: "\<forall>c r. font c = Some r \<longrightarrow> length r = 8"
    and w: "gfx_write_char font c g = Inr g'"
  shows "gfx_ok g' \<and> (\<forall>j \<ge> 66560. gfx_mem g' j = gfx_mem g j)"
proof (cases "c = CHR 0x0A")
  case True
  then show ?thesis using w gfx_newline_ok [OF ok] by (auto simp: gfx_write_char_def)
next
  case False
  then obtain r where r: "font c = Some r"
    and g': "g' = (let g2 = g\<lparr>x_pos := fetch_add (x_pos g) 8, gfx_mem := draw_glyph r (x_pos g) (y_pos g) (gfx_mem g)\<rparr>
       in if x_pos g + 8 \<ge> SCREEN_WIDTH then gfx_newline g2 else g2)"
    using w by (auto simp: gfx_write_char_def Let_def expect_def bind_rust_eq_Inr split: if_splits option.splits)
  have "draw_glyph r (x_pos g) (y_pos g) (gfx_mem g) j = gfx_mem g j" if "66560 \<le> j" for j
    unfolding draw_glyph_def
  proof (rule fold_pixels_outside, safe)
    fix y x assume yx: "(y, x) \<in> set (glyph_pixels r)"
      and eq: "j = (y_pos g + y) * SCREEN_WIDTH + x_pos g + x"
    have "y < 8" "x < 8" using glyph_pixels_bound [OF yx] font r by auto
    moreover have "x_pos g \<le> 312" "y_pos g \<le> 200" using ok unfolding gfx_ok_def by presburger+
    ultimately show False using that eq by (simp add: SCREEN_WIDTH_def)
  qed
  moreover have "x_pos g + 8 < 320 \<or> x_pos g + 8 = 320" using ok unfolding gfx_ok_def by presburger
  moreover have "gfx_ok (gfx_newline g2)" "\<forall>j \<ge> 66560. gfx_mem (gfx_newline g2) j = gfx_mem g2 j"
    if "y_pos g2 = y_pos g" for g2
  proof -
    have "gfx_ok (g2\<lparr>x_pos := 0\<rparr>)" using ok that by (simp add: gfx_ok_def)
    note n = gfx_newline_ok [OF this]
    have "gfx_newline (g2\<lparr>x_pos := 0\<rparr>) = gfx_newline g2"
      by (simp add: gfx_newline_def Let_def gfx_clear_screen_def)
    then show "gfx_ok (gfx_newline g2)" "\<forall>j \<ge> 66560. gfx_mem (gfx_newline g2) j = gfx_mem g2 j"
      using n by auto
  qed
  ultimately show ?thesis
    using ok unfolding g' Let_def
    by (auto simp: gfx_ok_def SCREEN_WIDTH_def fetch_add_def u64_bound_def mod_add_self2)
qed

lemma gfx_write_str_ok:
  assumes "gfx_ok g" and "\<forall>c r. font c = Some r \<longrightarrow> length r = 8" and "gfx_write_str font s g = Inr g'"
  shows "gfx_ok g' \<and> (\<forall>j \<ge> 66560. gfx_mem g' j = gfx_mem g j)"
  using assms
proof (induction s arbitrary: g)
  case (Cons c s)
  then obtain g1 where g1: "gfx_write_char font c g = Inr g1" "gfx_write_str font s g1 = Inr g'"
    by (auto simp: bind_rust_eq_Inr)
  note step = gfx_write_char_ok [OF Cons.prems(1,2) g1(1)]
  show ?case using Cons.IH [OF _ Cons.prems(2) g1(2)] step by simp
qed simp

lemma gfx_write_str_total:
  assumes "\<forall>c \<in> set s. c = CHR 0x0A \<or> 0x20 \<le> (of_char c :: nat) \<and> (of_char c :: nat) \<le> 0x7e \<and> font c \<noteq> None"
  shows "\<exists>g'. gfx_write_str font s g = Inr g'"
  using assms by (induction s arbitrary: g) (auto simp: gfx_write_char_def Let_def)

subsection \<open>Properties\<close>

text \<open>
  In text mode \<^verbatim>\<open>write_str\<close> stores each byte of the message in the next cell behind the current
  offset with attribute \<^verbatim>\<open>0x4f\<close>, newlines included, advances the offset by two per byte and touches
  nothing else; it never wraps to the next screen, so a message of more than 2000 bytes is written
  behind the 80 by 25 screen.
\<close>

lemma text_printer_layout:
  assumes "current_offset t + 2 * length s < u64_bound"
  shows "current_offset (text_write_str s t) = current_offset t + 2 * length s \<and>
    (\<forall>i < length s. text_mem (text_write_str s t) (current_offset t + 2 * i) = Some (of_char (s ! i)) \<and>
       text_mem (text_write_str s t) (current_offset t + 2 * i + 1) = Some 0x4f) \<and>
    (\<forall>j. j < current_offset t \<or> current_offset t + 2 * length s \<le> j \<longrightarrow> text_mem (text_write_str s t) j = text_mem t j)"
  using text_write_str_layout [OF assms] .

lemma text_printer_layout_witness:
  "(160::nat) + 2 * length ''no'' < u64_bound \<and>
   current_offset (text_write_str ''no'' \<lparr>text_mem = Map.empty, current_offset = 160\<rparr>) = 164 \<and>
   text_mem (text_write_str ''no'' \<lparr>text_mem = Map.empty, current_offset = 160\<rparr>) 161 = Some 0x4f"
  using text_printer_layout [of "\<lparr>text_mem = Map.empty, current_offset = 160\<rparr>" "''no''"]
  by (auto simp: u64_bound_def)

text \<open>
  The text printer's \<^verbatim>\<open>clear_screen\<close> zeroes 2000 bytes, which is half of the 80 by 25 cells of two
  bytes: the lower half of the screen keeps its contents.
\<close>

lemma text_clear_screen_half:
  "current_offset (text_clear_screen t) = 0 \<and>
   (\<forall>i < 2000. text_mem (text_clear_screen t) i = Some 0) \<and>
   (\<forall>i. 2000 \<le> i \<longrightarrow> text_mem (text_clear_screen t) i = text_mem t i)"
  by (simp add: text_clear_screen_def clear_bytes_at SCREEN_SIZE_def)

lemma text_clear_screen_half_witness:
  "text_mem (text_clear_screen \<lparr>text_mem = [2000 \<mapsto> 65], current_offset = 160\<rparr>) 2000 = Some 65"
  using text_clear_screen_half [of "\<lparr>text_mem = [2000 \<mapsto> 65], current_offset = 160\<rparr>"] by simp

text \<open>
  C34: in graphics mode, from a position on the character grid, printing any text that the font can
  show returns, stays on the grid (column below 320, row at most 200), and writes no byte at or behind
  offset 66560, which is 208 pixel rows.
\<close>

theorem gfx_printer_bounded:
  assumes "gfx_ok g" and "\<forall>c r. font c = Some r \<longrightarrow> length r = 8"
    and "\<forall>c \<in> set s. c = CHR 0x0A \<or> 0x20 \<le> (of_char c :: nat) \<and> (of_char c :: nat) \<le> 0x7e \<and> font c \<noteq> None"
  shows "\<exists>g'. gfx_write_str font s g = Inr g' \<and> gfx_ok g' \<and> (\<forall>j \<ge> 66560. gfx_mem g' j = gfx_mem g j)"
  using gfx_write_str_total [OF assms(3), of g] gfx_write_str_ok [OF assms(1,2)] by blast

definition block_font :: "char \<Rightarrow> nat list option" where
  "block_font c = Some (replicate 8 255)"

definition fresh_gfx :: gfx_printer where
  "fresh_gfx = gfx_clear_screen \<lparr>gfx_mem = Map.empty, x_pos = 1, y_pos = 1\<rparr>"

theorem gfx_printer_bounded_witness:
  "gfx_ok fresh_gfx \<and>
   (\<exists>g'. gfx_write_str block_font ''panic'' fresh_gfx = Inr g' \<and> gfx_ok g')"
proof -
  have "gfx_ok fresh_gfx" "\<forall>c r. block_font c = Some r \<longrightarrow> length r = 8"
    "\<forall>c \<in> set ''panic''. c = CHR 0x0A \<or> 0x20 \<le> (of_char c :: nat) \<and> (of_char c :: nat) \<le> 0x7e \<and> block_font c \<noteq> None"
    by (auto simp: fresh_gfx_def gfx_clear_screen_def gfx_ok_def block_font_def)
  with gfx_printer_bounded [OF this] show ?thesis by blast
qed

text \<open>
  C35: the row counter is compared before it is advanced, so after the 25th line the printer stands at
  row 200, below the screen: a glyph printed there with a lit pixel is stored at or behind offset
  64000, outside the frame buffer of 320 by 200 pixels.
\<close>

theorem gfx_line_26_off_screen:
  assumes "gfx_ok g" and "y_pos g = 192" and "font c = Some r" and "(y, x) \<in> set (glyph_pixels r)"
    and "0x20 \<le> (of_char c :: nat)" and "(of_char c :: nat) \<le> 0x7e"
  shows "y_pos (gfx_newline g) = 200 \<and>
    (\<exists>g'. gfx_write_char font c (gfx_newline g) = Inr g' \<and>
       gfx_mem g' ((200 + y) * 320 + x) = Some 0xf \<and> SCREEN_WIDTH * SCREEN_HEIGHT \<le> (200 + y) * 320 + x)"
proof -
  have n: "y_pos (gfx_newline g) = 200" "x_pos (gfx_newline g) = 0"
    using assms(2) by (simp_all add: gfx_newline_def Let_def fetch_add_def u64_bound_def SCREEN_HEIGHT_def)
  have "c \<noteq> CHR 0x0A" using assms(5) by auto
  then have "gfx_write_char font c (gfx_newline g) =
      Inr ((gfx_newline g)\<lparr>x_pos := fetch_add 0 8, gfx_mem := draw_glyph r 0 200 (gfx_mem (gfx_newline g))\<rparr>)"
    using assms(3,5,6) n by (simp add: gfx_write_char_def Let_def SCREEN_WIDTH_def)
  moreover have "draw_glyph r 0 200 (gfx_mem (gfx_newline g)) ((200 + y) * 320 + x) = Some 0xf"
    using fold_pixels_inside [OF assms(4), of 200 0] by (simp add: draw_glyph_def SCREEN_WIDTH_def)
  ultimately show ?thesis using n(1) by (simp add: SCREEN_WIDTH_def SCREEN_HEIGHT_def)
qed

theorem gfx_line_26_off_screen_witness:
  "gfx_ok (fresh_gfx\<lparr>y_pos := 192\<rparr>) \<and>
   (\<exists>g'. gfx_write_char block_font CHR ''x'' (gfx_newline (fresh_gfx\<lparr>y_pos := 192\<rparr>)) = Inr g' \<and>
      gfx_mem g' 66240 = Some 0xf)"
proof -
  have "gfx_ok (fresh_gfx\<lparr>y_pos := 192\<rparr>)" by (simp add: fresh_gfx_def gfx_clear_screen_def gfx_ok_def)
  moreover have "(7, 0) \<in> set (glyph_pixels (replicate 8 255))"
    by (auto simp: glyph_pixels_def in_set_enumerate_eq intro!: bexI [of _ "(7, 255)"])
  ultimately show ?thesis
    using gfx_line_26_off_screen [of "fresh_gfx\<lparr>y_pos := 192\<rparr>" block_font "CHR ''x''" "replicate 8 255" 7 0]
    by (auto simp: block_font_def)
qed

end
