(* ===== verification/BootMain.thy ===== *)
theory BootMain
  imports KernelLoadCorrect BuildConfig Cpu Printer
begin

text \<open>
  The bootloader's last stage (\<^verbatim>\<open>bootloader/src/main.rs\<close>, from \<^verbatim>\<open>stage_4\<close> to the jump into the kernel).
  It runs on the state of the loader, the table of used level 4 entries and the control registers, and
  ends in a \<open>handover\<close>: what \<^verbatim>\<open>context_switch\<close> puts into the registers, the boot information written
  to its page, and the final state. Every failure is a panic.

  Outside the repository, and so parameters: the ELF reader \<^verbatim>\<open>xmas_elf\<close>, the page-table operations of
  \<^verbatim>\<open>x86_64\<close> for pages of 2 MiB, the entry of the top-level table written directly, \<^verbatim>\<open>RecursivePageTable::new\<close>,
  and the bytes the compiler lays out for the \<^verbatim>\<open>repr(C)\<close> structure \<^verbatim>\<open>BootInfo\<close>. The table that the BIOS
  filled is a list.
\<close>

subsection \<open>Parameters and state\<close>

datatype elf_header = Ph64 program_header | Ph32

record elf =
  elf_entry_point :: u64
  elf_headers :: "elf_header list"

record 'pt boot_env =
  be_loader :: "'pt loader_env"
  be_map_to_2m :: "('pt, memory_map) map_to"
  be_unmap_2m :: "u64 \<Rightarrow> 'pt \<Rightarrow> (unmap_error + u64) \<times> 'pt"
  be_set_p4_entry :: "u64 \<Rightarrow> u64 \<Rightarrow> page_flags \<Rightarrow> 'pt \<Rightarrow> 'pt rust"
  be_recursive_new :: "u64 \<Rightarrow> 'pt \<Rightarrow> bool"
  be_elf_new :: "nat list \<Rightarrow> elf option"
  be_sanity_check :: "nat list \<Rightarrow> bool"
  be_layout :: "boot_info \<Rightarrow> nat list"

record boot_build =
  bld_features :: features
  bld_sse :: bool
  bld_config :: bootloader_config

record boot_params =
  kernel_start :: u64
  kernel_size :: u64
  memory_table :: "e820_memory_region list"
  page_table_start :: u64
  page_table_end :: u64
  bootloader_start :: u64
  bootloader_end :: u64
  p4_physical :: u64

text \<open>The printer is the one of text mode unless the feature \<^verbatim>\<open>vga_320x200\<close> is on.\<close>

datatype screen = Text text_printer | Graphics gfx_printer

primrec clear_screen :: "screen \<Rightarrow> screen" where
  "clear_screen (Text t) = Text (text_clear_screen t)"
| "clear_screen (Graphics g) = Graphics (gfx_clear_screen g)"

record 'pt boot =
  bm_ld :: "'pt loader"
  bm_l4 :: level4
  bm_cpu :: cpu
  bm_screen :: screen

type_synonym ('a, 'pt) bm = "'pt boot \<Rightarrow> ('a \<times> 'pt boot) rust"

definition bind_bm :: "('a, 'pt) bm \<Rightarrow> ('a \<Rightarrow> ('b, 'pt) bm) \<Rightarrow> ('b, 'pt) bm" where
  "bind_bm f g b = bind_rust (f b) (\<lambda>(x, b1). g x b1)"

definition ret_bm :: "'a \<Rightarrow> ('a, 'pt) bm" where
  "ret_bm x b = Inr (x, b)"

definition lift_bm :: "'a rust \<Rightarrow> ('a, 'pt) bm" where
  "lift_bm r b = bind_rust r (\<lambda>x. Inr (x, b))"

definition cpu_bm :: "(cpu \<Rightarrow> cpu) \<Rightarrow> (unit, 'pt) bm" where
  "cpu_bm f b = Inr ((), b\<lparr>bm_cpu := f (bm_cpu b)\<rparr>)"

definition map_bm :: "(memory_map \<Rightarrow> memory_map rust) \<Rightarrow> (unit, 'pt) bm" where
  "map_bm f b =
     bind_rust (f (ld_map (bm_ld b))) (\<lambda>m. Inr ((), b\<lparr>bm_ld := (bm_ld b)\<lparr>ld_map := m\<rparr>\<rparr>))"

text \<open>\<^verbatim>\<open>expect\<close> on an operation of the loader.\<close>

definition expect_bm :: "string \<Rightarrow> ('e, 'a, 'pt) ld \<Rightarrow> ('a, 'pt) bm" where
  "expect_bm msg f b =
     bind_rust (f (bm_ld b)) (\<lambda>(r, s).
       case r of Inl _ \<Rightarrow> Inl (Unwrap_failed msg) | Inr x \<Rightarrow> Inr (x, b\<lparr>bm_ld := s\<rparr>))"

definition free_entries_bm :: "u64 \<Rightarrow> (u64, 'pt) bm" where
  "free_entries_bm num b =
     bind_rust (get_free_entries num (bm_l4 b)) (\<lambda>(i, st). Inr (i, b\<lparr>bm_l4 := st\<rparr>))"

subsection \<open>Physical memory and the ELF file\<close>

fun end_addrs :: "profile \<Rightarrow> memory_region list \<Rightarrow> u64 list rust" where
  "end_addrs p [] = Inr []"
| "end_addrs p (r # rs) = bind_rust (end_addr p (rng r)) (\<lambda>a. bind_rust (end_addrs p rs) (\<lambda>as. Inr (a # as)))"

definition max_phys_addr_of :: "profile \<Rightarrow> memory_map \<Rightarrow> u64 rust" where
  "max_phys_addr_of p m =
     bind_rust (end_addrs p (mm_deref m)) (\<lambda>as.
       expect ''no physical memory regions found'' (if as = [] then None else Some (fold max as 0)))"

fun collect_segments :: "elf_header list \<Rightarrow> program_header list \<Rightarrow> program_header list rust" where
  "collect_segments [] segments = Inr segments"
| "collect_segments (Ph64 header # headers) segments =
     (if length segments < 32 then collect_segments headers (segments @ [header])
      else Inl (Unwrap_failed ''does not support more than 32 program segments''))"
| "collect_segments (Ph32 # headers) segments = Inl (Explicit_panic ''does not support 32 bit elf files'')"

definition read_elf :: "'pt boot_env \<Rightarrow> nat list \<Rightarrow> (u64 \<times> program_header list) rust" where
  "read_elf B bytes =
     bind_rust (expect ''called `Result::unwrap()` on an `Err` value'' (be_elf_new B bytes)) (\<lambda>elf_file.
       bind_rust (expect ''called `Result::unwrap()` on an `Err` value'' (if be_sanity_check B bytes then Some () else None)) (\<lambda>_.
         bind_rust (collect_segments (elf_headers elf_file) []) (\<lambda>segments.
           Inr (elf_entry_point elf_file, segments))))"

subsection \<open>Memory that is in use already\<close>

text \<open>The area from the frame of \<open>first\<close> to the frame of \<open>last\<close>, both included.\<close>

definition mark_area :: "'pt loader_env \<Rightarrow> memory_region_type \<Rightarrow> u64 \<Rightarrow> u64 \<Rightarrow> memory_map \<Rightarrow> memory_map rust" where
  "mark_area E t first_frame last_frame m =
     bind_rust (frame_add (env_x86 E) last_frame 1) (\<lambda>behind.
       bind_rust (frame_range_of (env_profile E) (first_frame, behind)) (\<lambda>r.
         mark_allocated_region (env_sort E) (env_profile E) \<lparr>rng = r, region_type = t\<rparr> m))"

definition mark_used_regions :: "'pt loader_env \<Rightarrow> boot_params \<Rightarrow> memory_map \<Rightarrow> memory_map rust" where
  "mark_used_regions E P m =
     bind_rust (phys_addr_new (env_x86 E) 0) (\<lambda>zero.
       bind_rust (expect ''called `Result::unwrap()` on an `Err` value: AddressNotAligned''
                    (frame_from_start (env_x86 E) zero)) (\<lambda>zero_frame.
         bind_rust (mark_area E FrameZero zero_frame zero_frame m) (\<lambda>m1.
           bind_rust (phys_sub (env_x86 E) (bootloader_end P) 1) (\<lambda>bootloader_last.
             bind_rust (mark_area E Bootloader (frame_containing (env_x86 E) (bootloader_start P))
                          (frame_containing (env_x86 E) bootloader_last) m1) (\<lambda>m2.
               bind_rust (phys_add (env_x86 E) (kernel_start P) (kernel_size P)) (\<lambda>kernel_end.
                 bind_rust (phys_sub (env_x86 E) kernel_end 1) (\<lambda>kernel_last.
                   bind_rust (mark_area E Kernel (frame_containing (env_x86 E) (kernel_start P))
                                (frame_containing (env_x86 E) kernel_last) m2) (\<lambda>m3.
                     bind_rust (phys_sub (env_x86 E) (page_table_end P) 1) (\<lambda>page_table_last.
                       mark_area E PageTable (frame_containing (env_x86 E) (page_table_start P))
                         (frame_containing (env_x86 E) page_table_last) m3)))))))))"

subsection \<open>Large pages\<close>

definition large_pages :: "u64 \<Rightarrow> u64 \<Rightarrow> u64 list" where
  "large_pages a b = map (\<lambda>n. n * 2 ^ 21) [a div 2 ^ 21 ..< Suc (b div 2 ^ 21)]"

definition unmap_2m_ld :: "'pt boot_env \<Rightarrow> u64 \<Rightarrow> (unmap_error, u64, 'pt) ld" where
  "unmap_2m_ld B page s = (let (r, pt) = be_unmap_2m B page (ld_pt s) in Inr (r, s\<lparr>ld_pt := pt\<rparr>))"

definition map_page_2m :: "'pt boot_env \<Rightarrow> u64 \<Rightarrow> u64 \<Rightarrow> page_flags \<Rightarrow> (map_error, u64, 'pt) ld" where
  "map_page_2m B page phys_frame flags s =
     bind_rust (be_map_to_2m B (alloc_region (be_loader B) PageTable) page phys_frame flags (ld_pt s) (ld_map s))
       (\<lambda>(r, pt, m). Inr (r, s\<lparr>ld_pt := pt, ld_map := m\<rparr>))"

fun unmap_elf :: "'pt boot_env \<Rightarrow> u64 list \<Rightarrow> (unit, 'pt) bm" where
  "unmap_elf B [] = ret_bm ()"
| "unmap_elf B (page # pages) =
     bind_bm (expect_bm ''dealloc error'' (unmap_2m_ld B page)) (\<lambda>_. unmap_elf B pages)"

fun map_physical :: "'pt boot_env \<Rightarrow> u64 \<Rightarrow> u64 list \<Rightarrow> (unit, 'pt) bm" where
  "map_physical B offset [] = ret_bm ()"
| "map_physical B offset (frame # frames) =
     bind_bm (lift_bm (u64_add (env_profile (be_loader B)) frame offset)) (\<lambda>sum.
       bind_bm (lift_bm (virt_addr_new (env_x86 (be_loader B)) sum)) (\<lambda>virt.
         bind_bm (expect_bm ''Mapping of bootinfo page failed''
                    (map_page_2m B (page_containing_2m (env_x86 (be_loader B)) virt) frame {PRESENT, WRITABLE})) (\<lambda>_.
           map_physical B offset frames)))"

subsection \<open>The phases\<close>

definition LEVEL_4_SIZE :: u64 where "LEVEL_4_SIZE = 4096 * 512 * 512 * 512"

definition install_recursive :: "'pt boot_env \<Rightarrow> u64 \<Rightarrow> u64 \<Rightarrow> (u64, 'pt) bm" where
  "install_recursive B p4 i b =
     bind_rust (be_set_p4_entry B i p4 {PRESENT, WRITABLE} (ld_pt (bm_ld b))) (\<lambda>pt.
       let addr = page_from_indices (env_x86 (be_loader B)) i i i i
       in if be_recursive_new B addr pt
          then Inr (addr, b\<lparr>bm_ld := (bm_ld b)\<lparr>ld_pt := pt\<rparr>\<rparr>)
          else Inl (Unwrap_failed ''recursive page table creation failed''))"

definition make_recursive :: "'pt boot_env \<Rightarrow> u64 \<Rightarrow> (u64, 'pt) bm" where
  "make_recursive B p4 = bind_bm (free_entries_bm 1) (install_recursive B p4)"

definition boot_info_page :: "'pt boot_env \<Rightarrow> u64 option \<Rightarrow> (u64, 'pt) bm" where
  "boot_info_page B BOOT_INFO_ADDRESS =
     (case BOOT_INFO_ADDRESS of
        Some addr \<Rightarrow> bind_bm (lift_bm (virt_addr_new (env_x86 (be_loader B)) addr)) (\<lambda>a.
          ret_bm (page_containing (env_x86 (be_loader B)) a))
      | None \<Rightarrow> bind_bm (free_entries_bm 1) (\<lambda>i. ret_bm (page_from_indices (env_x86 (be_loader B)) i 0 0 0)))"

definition map_boot_info :: "'pt boot_env \<Rightarrow> u64 option \<Rightarrow> (u64, 'pt) bm" where
  "map_boot_info B BOOT_INFO_ADDRESS =
     bind_bm (boot_info_page B BOOT_INFO_ADDRESS) (\<lambda>page.
       bind_bm (expect_bm ''frame allocation failed'' (alloc_ld (be_loader B) BootInfo)) (\<lambda>frame.
         bind_bm (expect_bm ''Mapping of bootinfo page failed'' (map_page (be_loader B) page frame {PRESENT, WRITABLE})) (\<lambda>_.
           ret_bm page)))"

definition kernel_stack_page :: "'pt boot_env \<Rightarrow> u64 option \<Rightarrow> u64 \<Rightarrow> (u64, 'pt) bm" where
  "kernel_stack_page B KERNEL_STACK_ADDRESS page =
     (case KERNEL_STACK_ADDRESS of
        Some addr \<Rightarrow> bind_bm (lift_bm (virt_addr_new (env_x86 (be_loader B)) addr)) (\<lambda>a.
          ret_bm (page_containing (env_x86 (be_loader B)) a))
      | None \<Rightarrow> lift_bm (page_add (env_x86 (be_loader B)) page 1))"

definition physical_offset :: "'pt boot_env \<Rightarrow> u64 option \<Rightarrow> u64 \<Rightarrow> (u64, 'pt) bm" where
  "physical_offset B PHYSICAL_MEMORY_OFFSET max_phys_addr =
     (case PHYSICAL_MEMORY_OFFSET of
        Some offset \<Rightarrow> ret_bm offset
      | None \<Rightarrow>
          bind_bm (lift_bm (u64_add (env_profile (be_loader B)) max_phys_addr (LEVEL_4_SIZE - 1))) (\<lambda>sum.
            bind_bm (free_entries_bm (sum div LEVEL_4_SIZE)) (\<lambda>i.
              ret_bm (page_from_indices_1gib (env_x86 (be_loader B)) i 0))))"

definition map_physical_memory_at :: "'pt boot_env \<Rightarrow> boot_build \<Rightarrow> u64 \<Rightarrow> (u64, 'pt) bm" where
  "map_physical_memory_at B bld max_phys_addr =
     (if map_physical_memory (bld_features bld)
      then bind_bm (physical_offset B (cfg_physical_memory_offset (bld_config bld)) max_phys_addr) (\<lambda>offset.
        bind_bm (lift_bm (phys_addr_new (env_x86 (be_loader B)) 0)) (\<lambda>zero.
          bind_bm (lift_bm (phys_addr_new (env_x86 (be_loader B)) max_phys_addr)) (\<lambda>top.
            bind_bm (map_physical B offset (large_pages (frame_containing_2m (env_x86 (be_loader B)) zero)
                       (frame_containing_2m (env_x86 (be_loader B)) top))) (\<lambda>_. ret_bm offset))))
      else ret_bm 0)"

text \<open>The boot information, sorted, and its bytes written to its page.\<close>

definition make_boot_info ::
  "'pt boot_env \<Rightarrow> boot_build \<Rightarrow> memory_map \<Rightarrow> tls_template option \<Rightarrow> u64 \<Rightarrow> u64 \<Rightarrow> boot_info" where
  "make_boot_info B bld m tls recursive_page_table_addr physical_memory_offset =
     (let bi = boot_info_new (bld_features bld) m tls recursive_page_table_addr physical_memory_offset
      in bi\<lparr>bi_memory_map := mm_sort (env_sort (be_loader B)) (bi_memory_map bi)\<rparr>)"

fun write_bytes :: "'pt loader_env \<Rightarrow> u64 \<Rightarrow> nat list \<Rightarrow> 'pt loader \<Rightarrow> 'pt loader rust" where
  "write_bytes E addr [] s = Inr s"
| "write_bytes E addr (b # bs) s =
     (case phys_of E (ld_pt s) addr of
        None \<Rightarrow> Inl page_fault
      | Some pa \<Rightarrow> write_bytes E (addr + 1) bs (s\<lparr>ld_mem := (ld_mem s)(pa := b)\<rparr>))"

definition write_boot_info :: "'pt boot_env \<Rightarrow> u64 \<Rightarrow> boot_info \<Rightarrow> (unit, 'pt) bm" where
  "write_boot_info B addr bi b =
     bind_rust (write_bytes (be_loader B) addr (be_layout B bi) (bm_ld b)) (\<lambda>s. Inr ((), b\<lparr>bm_ld := s\<rparr>))"

definition drop_recursive :: "'pt boot_env \<Rightarrow> u64 \<Rightarrow> (unit, 'pt) bm" where
  "drop_recursive B addr b =
     (case env_unmap (be_loader B) (page_containing (env_x86 (be_loader B)) addr) (ld_pt (bm_ld b)) of
        (Inl _, _) \<Rightarrow> Inl (Unwrap_failed ''error deallocating recursive entry'')
      | (Inr _, pt) \<Rightarrow> Inr ((), b\<lparr>bm_ld := (bm_ld b)\<lparr>ld_pt := pt\<rparr>\<rparr>))"

text \<open>What is done after the boot information is built: the registers, and the recursive entry.\<close>

definition leave_bootloader :: "'pt boot_env \<Rightarrow> boot_build \<Rightarrow> u64 \<Rightarrow> u64 \<Rightarrow> boot_info \<Rightarrow> (unit, 'pt) bm" where
  "leave_bootloader B bld recursive_page_table_addr page bi =
     bind_bm (write_boot_info B page bi) (\<lambda>_.
       bind_bm (cpu_bm enable_write_protect_bit) (\<lambda>_.
         bind_bm (if recursive_page_table (bld_features bld) then ret_bm ()
                  else drop_recursive B recursive_page_table_addr) (\<lambda>_.
           cpu_bm (if bld_sse bld then enable_sse else id))))"

subsection \<open>The whole stage\<close>

record 'pt handover =
  ho_boot_info_addr :: u64
  ho_entry_point :: u64
  ho_stack_pointer :: u64
  ho_boot_info :: boot_info
  ho_state :: "'pt boot"

definition load_kernel_file ::
  "'pt boot_env \<Rightarrow> boot_build \<Rightarrow> boot_params \<Rightarrow> program_header list \<Rightarrow> (u64 \<times> memory_info, 'pt) bm" where
  "load_kernel_file B bld P segments =
     bind_bm (lift_bm (virt_addr_new (env_x86 (be_loader B)) (kernel_start P))) (\<lambda>kernel_virt.
       bind_bm (lift_bm (bind_rust (virt_add (env_x86 (be_loader B)) kernel_virt (kernel_size P))
                           (\<lambda>a. virt_sub (env_x86 (be_loader B)) a 1))) (\<lambda>kernel_last.
         bind_bm (unmap_elf B (large_pages (page_containing_2m (env_x86 (be_loader B)) kernel_virt)
                    (page_containing_2m (env_x86 (be_loader B)) kernel_last))) (\<lambda>_.
           bind_bm (map_boot_info B (cfg_boot_info_address (bld_config bld))) (\<lambda>page.
             bind_bm (kernel_stack_page B (cfg_kernel_stack_address (bld_config bld)) page) (\<lambda>stack_page.
               bind_bm (expect_bm ''kernel mapping failed''
                          (map_kernel (be_loader B) (kernel_start P) stack_page (KERNEL_STACK_SIZE (bld_config bld)) segments)) (\<lambda>info.
                 ret_bm (page, info)))))))"

definition load_kernel ::
  "'pt boot_env \<Rightarrow> boot_build \<Rightarrow> boot_params \<Rightarrow> program_header list \<Rightarrow> (u64 \<times> u64 \<times> memory_info, 'pt) bm" where
  "load_kernel B bld P segments =
     bind_bm (cpu_bm enable_nxe_bit) (\<lambda>_.
       bind_bm (make_recursive B (p4_physical P)) (\<lambda>recursive_page_table_addr.
         bind_bm (map_bm (mark_used_regions (be_loader B) P)) (\<lambda>_.
           bind_bm (load_kernel_file B bld P segments) (\<lambda>(page, info).
             ret_bm (recursive_page_table_addr, page, info)))))"

definition hand_over ::
  "'pt boot_env \<Rightarrow> boot_build \<Rightarrow> u64 \<Rightarrow> u64 \<Rightarrow> u64 \<Rightarrow> u64 \<Rightarrow> memory_info \<Rightarrow> ('pt handover, 'pt) bm" where
  "hand_over B bld max_phys_addr entry_point recursive_page_table_addr page info =
     bind_bm (map_physical_memory_at B bld max_phys_addr) (\<lambda>physical_memory_offset b2.
       let bi = make_boot_info B bld (ld_map (bm_ld b2)) (tls_segment info) recursive_page_table_addr physical_memory_offset
       in bind_bm (leave_bootloader B bld recursive_page_table_addr page bi) (\<lambda>_.
            bind_bm (lift_bm (virt_addr_new (env_x86 (be_loader B)) entry_point)) (\<lambda>entry b3.
              Inr (\<lparr>ho_boot_info_addr = page, ho_entry_point = entry, ho_stack_pointer = stack_end info,
                    ho_boot_info = bi, ho_state = b3\<rparr>, b3))) b2)"

definition bootloader_main ::
  "'pt boot_env \<Rightarrow> boot_build \<Rightarrow> boot_params \<Rightarrow> cpu \<Rightarrow> screen \<Rightarrow> 'pt \<Rightarrow> (u64 \<Rightarrow> nat) \<Rightarrow> 'pt handover rust" where
  "bootloader_main B bld P c scr pt mem =
     bind_rust (create_from (env_sort (be_loader B)) (env_profile (be_loader B)) (memory_table P)) (\<lambda>m.
       bind_rust (max_phys_addr_of (env_profile (be_loader B)) m) (\<lambda>max_phys_addr.
         bind_rust (read_elf B (map mem [kernel_start P ..< kernel_start P + kernel_size P])) (\<lambda>(entry_point, segments).
           bind_rust (used_level4_entries_new (env_x86 (be_loader B)) (env_profile (be_loader B)) segments) (\<lambda>l4.
             bind_rust
               (bind_bm (load_kernel B bld P segments) (\<lambda>(recursive_page_table_addr, page, info).
                  hand_over B bld max_phys_addr entry_point recursive_page_table_addr page info)
                  \<lparr>bm_ld = \<lparr>ld_pt = pt, ld_map = m, ld_mem = mem\<rparr>, bm_l4 = l4, bm_cpu = c, bm_screen = clear_screen scr\<rparr>)
               (\<lambda>(ho, _). Inr ho)))))"

text \<open>The panic handler prints the panic and stops.\<close>

definition boot_panic :: "(char \<Rightarrow> nat list option) \<Rightarrow> string \<Rightarrow> screen \<Rightarrow> screen rust" where
  "boot_panic font info scr =
     (case scr of
        Text t \<Rightarrow> Inr (Text (text_write_str info t))
      | Graphics g \<Rightarrow> bind_rust (gfx_write_str font info g) (\<lambda>g'. Inr (Graphics g')))"

text \<open>The symbols of the linker script, and what \<^verbatim>\<open>stage_4\<close> makes of them.\<close>

record linker_symbols =
  sym_kernel_size :: u64
  sym_memory_map :: u64
  sym_mmap_ent :: u64
  sym_page_table_start :: u64
  sym_page_table_end :: u64
  sym_bootloader_start :: u64
  sym_bootloader_end :: u64
  sym_p4 :: u64

definition stage_4 ::
  "'pt boot_env \<Rightarrow> boot_build \<Rightarrow> linker_symbols \<Rightarrow> (u64 \<Rightarrow> u64 \<Rightarrow> e820_memory_region list) \<Rightarrow>
   cpu \<Rightarrow> screen \<Rightarrow> 'pt \<Rightarrow> (u64 \<Rightarrow> nat) \<Rightarrow> 'pt handover rust" where
  "stage_4 B bld L table c scr pt mem =
     (let X = env_x86 (be_loader B) in
      bind_rust (phys_addr_new X 0x400000) (\<lambda>kernel_start.
        bind_rust (virt_addr_new X (sym_memory_map L)) (\<lambda>memory_map_addr.
          bind_rust (phys_addr_new X (sym_page_table_start L)) (\<lambda>page_table_start.
            bind_rust (phys_addr_new X (sym_page_table_end L)) (\<lambda>page_table_end.
              bind_rust (phys_addr_new X (sym_bootloader_start L)) (\<lambda>bootloader_start.
                bind_rust (phys_addr_new X (sym_bootloader_end L)) (\<lambda>bootloader_end.
                  bind_rust (phys_addr_new X (sym_p4 L)) (\<lambda>p4_physical.
                    bootloader_main B bld
                      \<lparr>kernel_start = kernel_start, kernel_size = sym_kernel_size L,
                       memory_table = table memory_map_addr (sym_mmap_ent L mod 256),
                       page_table_start = page_table_start, page_table_end = page_table_end,
                       bootloader_start = bootloader_start, bootloader_end = bootloader_end,
                       p4_physical = p4_physical\<rparr> c scr pt mem))))))))"

end
