(* ===== verification/UsedMemory.thy ===== *)
theory UsedMemory
  imports BootMain
begin

text \<open>
  The memory that is in use when the bootloader's last stage starts (\<^verbatim>\<open>bootloader_main\<close>, "Mark already
  used memory areas"). Marking one area inside a usable region replaces the region by what is left of it
  on both sides and the marked area, so areas that do not share frames can be marked one after another;
  \<open>mark_used_regions\<close> then changes the owner of exactly the frames of the four areas.
\<close>

subsection \<open>Maps without empty regions\<close>

definition settled :: "memory_map \<Rightarrow> bool" where
  "settled m \<longleftrightarrow> mm_wf m \<and> (\<forall>r \<in> set (mm_deref m). \<not> is_empty (rng r))"

lemma settled_live: "settled m \<Longrightarrow> live m = mset (mm_deref m)"
  using live_deref by (simp add: settled_def)

lemma settled_slots: "settled m \<Longrightarrow> next_entry_index m = size (live m)"
  unfolding settled_live by (simp add: settled_live settled_def mm_deref_def mm_wf_def)

lemma settled_owners: "settled m \<Longrightarrow> mset rs = live m \<Longrightarrow> owners m f = types_at f rs"
  unfolding owners_def by (rule types_at_mset) (simp add: settled_live)

definition kept :: "memory_region \<Rightarrow> memory_region multiset" where
  "kept r = (if is_empty (rng r) then {#} else {#r#})"

lemma live_set_entry:
  assumes "mm_wf m" and "i < length (mm_deref m)" and "\<not> is_empty (rng (mm_deref m ! i))"
  shows "live (set_entry i r m) + {#mm_deref m ! i#} = live m + kept r"
proof -
  let ?rs = "mm_deref m" and ?d = "drop (next_entry_index m) (entries m)"
  have "mset (entries m) = mset ?rs + mset ?d" by (metis append_take_drop_id mm_deref_def mset_append)
  moreover have "mset (entries (set_entry i r m)) = add_mset r (mset ?rs - {#?rs ! i#}) + mset ?d"
    using assms(2) by (simp add: set_entry_def mm_write_def mset_update)
  moreover have "?rs ! i \<in># mset ?rs" using assms(2) by simp
  ultimately show ?thesis
    using assms(3) by (auto simp: live_def kept_def filter_diff_mset)
qed

text \<open>
  The frames from \<open>a\<close> to \<open>b\<close> belong to one usable region and to nothing else.
\<close>

definition available :: "memory_map \<Rightarrow> u64 \<Rightarrow> u64 \<Rightarrow> bool" where
  "available m a b \<longleftrightarrow>
     (\<exists>r \<in> set (mm_deref m). region_type r = Usable \<and> start_frame_number (rng r) \<le> a \<and> b \<le> end_frame_number (rng r)) \<and>
     (\<forall>f \<in> {a ..< b}. owners m f = {#Usable#})"

lemma available_only:
  assumes "settled m" and "\<forall>f \<in> {a ..< b}. owners m f = {#Usable#}" and "a < b"
    and "r \<in> set (mm_deref m)" "start_frame_number (rng r) \<le> a" "b \<le> end_frame_number (rng r)"
    and "r' \<in> set (mm_deref m)" and "start_frame_number (rng r') < b" "a < end_frame_number (rng r')"
  shows "r' = r"
proof (rule ccontr)
  assume "r' \<noteq> r"
  let ?f = "max a (start_frame_number (rng r'))"
  have "\<not> is_empty (rng r')" "region_ok r'"
    using assms(1,7) mm_deref_ok by (auto simp: settled_def)
  then have "start_frame_number (rng r') < end_frame_number (rng r')" by (auto simp: region_ok_def is_empty_def)
  then have h: "holds r' ?f" "holds r ?f" "?f \<in> {a ..< b}" using assms(3,5,6,8,9) by (auto simp: holds_def)
  from \<open>r' \<noteq> r\<close> assms(4,7) have "{#r, r'#} \<subseteq># mset (mm_deref m)"
    by (auto intro!: mset_subset_eq_insertD simp: subseteq_mset_def Suc_le_eq)
  then have "filter_mset (\<lambda>x. holds x ?f) {#r, r'#} \<subseteq># filter_mset (\<lambda>x. holds x ?f) (mset (mm_deref m))"
    by (rule multiset_filter_mono)
  then have "2 \<le> size (filter_mset (\<lambda>x. holds x ?f) (mset (mm_deref m)))"
    using h size_mset_mono by fastforce
  moreover have "size (owners m ?f) = 1" using assms(2) h(3) by simp
  ultimately show False by (simp add: owners_def types_at_def flip: mset_filter)
qed

context region_sort
begin

lemma add_region_settled:
  assumes "mm_wf m" and "region_ok r" and "next_entry_index m < max_memory_map_size"
  shows "\<exists>m'. add_region srt p r m = Inr m' \<and> settled m' \<and> live m' = live m + kept r"
proof -
  obtain m' where m': "add_region srt p r m = Inr m'" "mm_wf m'"
    using add_region_correct [OF assms, of p] by metis
  let ?n = "next_entry_index m"
  have n: "?n < length (entries m)" using assms(1,3) by (simp add: mm_wf_def)
  obtain k where k: "m' = mm_sort srt \<lparr>entries = (entries m)[?n := r], next_entry_index = k\<rparr>" "k = Suc ?n"
    using m'(1) assms(3) by (auto simp: add_region_def bind_rust_eq_Inr u64_add_def u64_bound_def max_memory_map_size_def split: if_splits)
  have "set (drop (Suc ?n) (entries m)) \<subseteq> set (drop ?n (entries m))" by (rule set_drop_subset_set_drop) simp
  then have sh: "mm_shape \<lparr>entries = (entries m)[?n := r], next_entry_index = k\<rparr>"
    using assms(1,3) n k(2) by (auto simp: mm_shape_def mm_wf_def)
  obtain es j where
    "m' = \<lparr>entries = es, next_entry_index = j\<rparr>" "\<forall>r \<in> set (take j es). \<not> is_empty (rng r)"
    unfolding k(1) by (rule mm_sort_result [OF sh])
  then have "settled m'" using m'(2) by (simp add: settled_def mm_deref_def)
  moreover have "live m' = live m + kept r"
  proof -
    have "entries m ! ?n \<in> set (drop ?n (entries m))" using n by (metis Cons_nth_drop_Suc list.set_intros(1))
    then have e: "is_empty (rng (entries m ! ?n))" using assms(1) by (simp add: mm_wf_def)
    have "live m' = filter_mset (\<lambda>r. \<not> is_empty (rng r)) (mset ((entries m)[?n := r]))"
      unfolding k(1) live_sort by (simp add: live_def)
    then show ?thesis using n e by (simp add: mset_update live_def kept_def)
  qed
  ultimately show ?thesis using m'(1) by blast
qed

text \<open>Marking an area inside the usable region \<open>r\<close>, the only region that overlaps it.\<close>

lemma mark_allocated_region_pieces:
  assumes st: "settled m" and ok: "region_ok q" and ne: "\<not> is_empty (rng q)"
    and room: "next_entry_index m + 2 \<le> max_memory_map_size"
    and r: "r \<in> set (mm_deref m)" "region_type r = Usable"
    and inside: "start_frame_number (rng r) \<le> start_frame_number (rng q)" "end_frame_number (rng q) \<le> end_frame_number (rng r)"
    and only: "\<forall>r' \<in> set (mm_deref m). overlaps q r' \<longrightarrow> r' = r"
  shows "\<exists>m'. mark_allocated_region srt p q m = Inr m' \<and> settled m' \<and>
    live m' + {#r#} = live m + kept (set_end (start_frame_number (rng q)) r) + kept (set_start (end_frame_number (rng q)) r) + {#q#}"
proof -
  let ?s = "start_frame_number (rng q)" and ?e = "end_frame_number (rng q)"
  let ?lo = "set_end ?s r" and ?hi = "set_start ?e r"
  have wf: "mm_wf m" using st by (simp add: settled_def)
  have lt: "?s < ?e" using ok ne by (auto simp: region_ok_def is_empty_def)
  then have "overlaps q r" using inside by (simp add: overlaps_def)
  then obtain i where i: "position (overlaps q) (mm_deref m) = Some i"
    using r(1) position_None [of "overlaps q" "mm_deref m"] by (cases "position (overlaps q) (mm_deref m)") auto
  then have ri: "mm_deref m ! i = r" and il: "i < length (mm_deref m)" using only by (auto simp: position_Some)
  have rok: "region_ok r" "\<not> is_empty (rng r)" using mm_deref_ok [OF wf] r(1) st by (auto simp: settled_def)
  have oks: "region_ok ?lo" "region_ok ?hi" using rok(1) inside lt by (simp_all add: region_ok_def)
  have le: "is_empty (rng ?lo) \<longleftrightarrow> ?s = start_frame_number (rng r)" "is_empty (rng ?hi) \<longleftrightarrow> \<not> ?e < end_frame_number (rng r)"
    using inside by (auto simp: is_empty_def)
  have kq: "kept q = {#q#}" using ne by (simp add: kept_def)
  have set: "mm_wf (set_entry i x m)" "next_entry_index (set_entry i x m) = next_entry_index m"
    "live (set_entry i x m) + {#r#} = live m + kept x" if "region_ok x" for x
    using set_entry_correct [OF wf il that] live_set_entry [OF wf il] rok(2) ri by simp_all
  have step: "\<exists>m'. add_region srt p y (set_entry i x m) = Inr m' \<and> settled m' \<and> live m' + {#r#} = live m + kept x + kept y"
    if xy: "region_ok x" "region_ok y" for x y
  proof -
    obtain m' where m': "add_region srt p y (set_entry i x m) = Inr m'" "settled m'" "live m' = live (set_entry i x m) + kept y"
      using add_region_settled [OF set(1) [OF xy(1)] xy(2), of p] set(2) [OF xy(1)] room by auto
    have "live m' + {#r#} = (live (set_entry i x m) + {#r#}) + kept y" by (simp add: m'(3))
    then show ?thesis using m'(1,2) by (simp only: set(3) [OF xy(1)]) blast
  qed
  consider (all) "?s = start_frame_number (rng r)" "\<not> ?e < end_frame_number (rng r)"
    | (low) "?s = start_frame_number (rng r)" "?e < end_frame_number (rng r)"
    | (mid) "start_frame_number (rng r) < ?s" "?e < end_frame_number (rng r)"
    | (high) "start_frame_number (rng r) < ?s" "\<not> ?e < end_frame_number (rng r)" using inside by linarith
  then show ?thesis
  proof cases
    case all
    have sub: "set ((mm_deref m)[i := q]) \<subseteq> insert q (set (mm_deref m))" by (rule set_update_subset_insert)
    then have "mm_deref (set_entry i q m) = (mm_deref m)[i := q]"
      unfolding set_entry_def using mm_deref_ok [OF wf] ok by (intro mm_write_correct(2) [OF wf]) auto
    with sub have "set (mm_deref (set_entry i q m)) \<subseteq> insert q (set (mm_deref m))" by simp
    then have "settled (set_entry i q m)" using set(1) [OF ok] ne st by (auto simp: settled_def)
    moreover have "mark_allocated_region srt p q m = Inr (set_entry i q m)"
      using i ri r(2) all by (simp add: mark_allocated_region_def)
    ultimately show ?thesis using set(3) [OF ok] all le kq by (auto simp: kept_def)
  next
    case low
    then have "mark_allocated_region srt p q m = add_region srt p q (set_entry i ?hi m)"
      using i ri r(2) by (simp add: mark_allocated_region_def)
    then show ?thesis using step [OF oks(2) ok] low le kq by (auto simp: kept_def)
  next
    case high
    then have "mark_allocated_region srt p q m = add_region srt p q (set_entry i ?lo m)"
      using i ri r(2) by (simp add: mark_allocated_region_def)
    then show ?thesis using step [OF oks(1) ok] high le kq by (auto simp: kept_def)
  next
    case mid
    obtain m1 where m1: "add_region srt p ?hi (set_entry i ?lo m) = Inr m1" "settled m1" "live m1 + {#r#} = live m + kept ?lo + kept ?hi"
      using step [OF oks] by blast
    have "size (live m1) + 1 = size (live m) + size (kept ?lo) + size (kept ?hi)"
      using arg_cong [OF m1(3), of size] by simp
    then have "next_entry_index m1 < max_memory_map_size"
      using settled_slots [OF m1(2)] settled_slots [OF st] room by (simp add: kept_def split: if_splits)
    moreover have "mm_wf m1" using m1(2) by (simp add: settled_def)
    ultimately obtain m2 where "add_region srt p q m1 = Inr m2" "settled m2" "live m2 = live m1 + {#q#}"
      using add_region_settled [OF _ ok, of m1 p] kq by auto
    moreover from this(3) have "live m2 + {#r#} = live m + kept ?lo + kept ?hi + {#q#}" using m1(3) by (simp add: ac_simps)
    moreover have "mark_allocated_region srt p q m = bind_rust (add_region srt p ?hi (set_entry i ?lo m)) (add_region srt p q)"
      using i ri r(2) mid by (simp add: mark_allocated_region_def)
    ultimately show ?thesis using m1(1) by auto
  qed
qed

lemma mark_available:
  assumes st: "settled m" and ok: "region_ok q" and ne: "\<not> is_empty (rng q)"
    and room: "next_entry_index m + 2 \<le> max_memory_map_size"
    and av: "available m (start_frame_number (rng q)) (end_frame_number (rng q))"
  shows "\<exists>m'. mark_allocated_region srt p q m = Inr m' \<and> settled m' \<and> next_entry_index m' \<le> next_entry_index m + 2 \<and>
    (\<forall>g. owners m' g = (if holds q g then {#region_type q#} else owners m g)) \<and>
    (\<forall>a b. a < b \<and> (b \<le> start_frame_number (rng q) \<or> end_frame_number (rng q) \<le> a) \<and> available m a b \<longrightarrow> available m' a b)"
proof -
  let ?s = "start_frame_number (rng q)" and ?e = "end_frame_number (rng q)"
  have lt: "?s < ?e" using ok ne by (auto simp: region_ok_def is_empty_def)
  obtain r where r: "r \<in> set (mm_deref m)" "region_type r = Usable" "start_frame_number (rng r) \<le> ?s" "?e \<le> end_frame_number (rng r)"
    and u: "\<forall>f \<in> {?s ..< ?e}. owners m f = {#Usable#}" using av by (auto simp: available_def)
  have only: "\<forall>r' \<in> set (mm_deref m). overlaps q r' \<longrightarrow> r' = r"
    using available_only [OF st u lt r(1,3,4)] by (auto simp: overlaps_def)
  let ?lo = "set_end ?s r" and ?hi = "set_start ?e r"
  obtain m' where m': "mark_allocated_region srt p q m = Inr m'" "settled m'"
    "live m' + {#r#} = live m + kept ?lo + kept ?hi + {#q#}"
    using mark_allocated_region_pieces [OF st ok ne room r(1,2,3,4) only] by blast
  have "size (live m') + 1 = size (live m) + size (kept ?lo) + size (kept ?hi) + 1"
    using arg_cong [OF m'(3), of size] by simp
  then have slots: "next_entry_index m' \<le> next_entry_index m + 2"
    using settled_slots [OF m'(2)] settled_slots [OF st] by (simp add: kept_def)
  have own: "owners m' g = (if holds q g then {#region_type q#} else owners m g)" for g
  proof -
    obtain m1 where "mark_allocated_region srt p q m = Inr m1"
      "\<forall>g. owners m1 g = (if holds q g then owners m g - {#Usable#} + {#region_type q#} else owners m g)"
      using mark_allocated_region_inside [OF _ ok room lt r(1,2,3,4) only, of p] st by (auto simp: settled_def)
    then show ?thesis using m'(1) u by (auto simp: holds_def)
  qed
  have "available m' a b" if ab: "a < b" "b \<le> ?s \<or> ?e \<le> a" "available m a b" for a b
  proof -
    obtain x where x: "x \<in> set (mm_deref m)" "region_type x = Usable" "start_frame_number (rng x) \<le> a" "b \<le> end_frame_number (rng x)"
      using ab(3) by (auto simp: available_def)
    have "\<exists>y. y \<in># live m' \<and> region_type y = Usable \<and> start_frame_number (rng y) \<le> a \<and> b \<le> end_frame_number (rng y)"
    proof (cases "x = r")
      case False
      have "x \<in># live m" using x(1) settled_live [OF st] by simp
      then have "x \<in># live m' + {#r#}" unfolding m'(3) by simp
      with False x show ?thesis by auto
    next
      case True
      show ?thesis
      proof (cases "b \<le> ?s")
        case b: True
        then have "?lo \<in># kept ?lo" using ab(1) x(3) True by (auto simp: kept_def is_empty_def)
        then have "?lo \<in># live m' + {#r#}" unfolding m'(3) by simp
        moreover have "?lo \<noteq> r" using r(4) lt region_bounds(3) [of ?s r] by (metis leD)
        ultimately show ?thesis using x True b by (intro exI [of _ ?lo]) auto
      next
        case b: False
        then have "?hi \<in># kept ?hi" using ab x(4) True by (auto simp: kept_def is_empty_def)
        then have "?hi \<in># live m' + {#r#}" unfolding m'(3) by simp
        moreover have "?hi \<noteq> r" using r(3) lt region_bounds(1) [of ?e r] by (metis leD)
        ultimately show ?thesis using x True b ab(2) by (intro exI [of _ ?hi]) auto
      qed
    qed
    moreover have "\<forall>f \<in> {a ..< b}. owners m' f = {#Usable#}"
      using ab(2,3) own by (auto simp: available_def holds_def)
    ultimately show ?thesis unfolding available_def settled_live [OF m'(2)] by auto
  qed
  then show ?thesis using m'(1,2) slots own by blast
qed

end

subsection \<open>Areas\<close>

text \<open>An area is a type, its first frame and the frame behind its last one.\<close>

type_synonym area = "memory_region_type \<times> u64 \<times> u64"

definition in_area :: "u64 \<Rightarrow> area \<Rightarrow> bool" where
  "in_area f x \<longleftrightarrow> fst (snd x) \<le> f \<and> f < snd (snd x)"

definition area_disjoint :: "area \<Rightarrow> area \<Rightarrow> bool" where
  "area_disjoint x y \<longleftrightarrow> snd (snd x) \<le> fst (snd y) \<or> snd (snd y) \<le> fst (snd x)"

definition area_free :: "memory_map \<Rightarrow> area \<Rightarrow> bool" where
  "area_free m x \<longleftrightarrow>
     fst (snd x) < snd (snd x) \<and> snd (snd x) < frame_bound \<and> available m (fst (snd x)) (snd (snd x))"

text \<open>The owner of a frame once the areas are marked.\<close>

fun owner_after :: "area list \<Rightarrow> (u64 \<Rightarrow> memory_region_type multiset) \<Rightarrow> u64 \<Rightarrow> memory_region_type multiset" where
  "owner_after [] own f = own f"
| "owner_after (x # xs) own f = (if in_area f x then {#fst x#} else owner_after xs own f)"

fun mark_areas :: "'pt loader_env \<Rightarrow> area list \<Rightarrow> memory_map \<Rightarrow> memory_map rust" where
  "mark_areas E [] m = Inr m"
| "mark_areas E (x # xs) m =
     bind_rust (mark_area E (fst x) (fst (snd x) * 4096) ((snd (snd x) - 1) * 4096) m) (mark_areas E xs)"

definition used_areas :: "boot_params \<Rightarrow> area list" where
  "used_areas P =
     [(FrameZero, 0, 1),
      (Bootloader, bootloader_start P div 4096, (bootloader_end P - 1) div 4096 + 1),
      (Kernel, kernel_start P div 4096, (kernel_start P + kernel_size P - 1) div 4096 + 1),
      (PageTable, page_table_start P div 4096, (page_table_end P - 1) div 4096 + 1)]"

lemma owner_after_outside: "\<forall>x \<in> set xs. \<not> in_area f x \<Longrightarrow> owner_after xs own f = own f"
  by (induction xs) auto

lemma owner_after_cong: "g f = h f \<Longrightarrow> owner_after xs g f = owner_after xs h f"
  by (induction xs) auto

lemma owner_after_update:
  assumes "\<forall>y \<in> set xs. area_disjoint x y"
  shows "owner_after xs (\<lambda>f. if in_area f x then {#fst x#} else own f) f = owner_after (x # xs) own f"
proof (cases "in_area f x")
  case True
  have "\<not> in_area f y" if "y \<in> set xs" for y
  proof -
    have "area_disjoint x y" using assms that by blast
    then show ?thesis using True by (auto simp: in_area_def area_disjoint_def)
  qed
  then have "owner_after xs (\<lambda>f. if in_area f x then {#fst x#} else own f) f = (if in_area f x then {#fst x#} else own f)"
    by (intro owner_after_outside) blast
  then show ?thesis using True by simp
next
  case False
  then show ?thesis using owner_after_cong [of "\<lambda>f. if in_area f x then {#fst x#} else own f" f own xs] by simp
qed

lemma owner_after_cases: "owner_after xs own f = own f \<or> (\<exists>t. owner_after xs own f = {#t#})"
  by (induction xs) auto

lemma owner_after_usable:
  "Usable \<notin> fst ` set xs \<Longrightarrow> Usable \<in># owner_after xs own f \<longleftrightarrow> Usable \<in># own f \<and> (\<forall>x \<in> set xs. \<not> in_area f x)"
  by (induction xs) auto

context frame_allocation
begin

lemma mark_area_correct:
  assumes E: "env_sort E = srt" "env_x86 E = X" and st: "settled m" and room: "next_entry_index m + 2 \<le> max_memory_map_size"
    and x: "area_free m x"
  shows "\<exists>m'. mark_area E (fst x) (fst (snd x) * 4096) ((snd (snd x) - 1) * 4096) m = Inr m' \<and> settled m' \<and>
    next_entry_index m' \<le> next_entry_index m + 2 \<and>
    (\<forall>g. owners m' g = (if in_area g x then {#fst x#} else owners m g)) \<and>
    (\<forall>y. area_disjoint x y \<and> area_free m y \<longrightarrow> area_free m' y)"
proof -
  obtain t a b where xx: "x = (t, a, b)" by (cases x) auto
  have ab: "a < b" "b < frame_bound" "available m a b" using x by (simp_all add: area_free_def xx)
  let ?q = "\<lparr>rng = \<lparr>start_frame_number = a, end_frame_number = b\<rparr>, region_type = t\<rparr>"
  have q: "region_ok ?q" "\<not> is_empty (rng ?q)" "available m (start_frame_number (rng ?q)) (end_frame_number (rng ?q))"
    using ab by (simp_all add: region_ok_def is_empty_def)
  have "b * 4096 < phys_bound" using ab(2) by (simp add: frame_bound_def phys_bound_def)
  moreover have b: "(b - 1) * 4096 + 1 * 4096 = b * 4096" using ab(1) by (cases b) simp_all
  ultimately have f: "frame_add X ((b - 1) * 4096) 1 = Inr (b * 4096)" using add_frames [of "(b - 1) * 4096" 1] by simp
  have "(b * 4096 - 1) div 4096 + 1 = b" using ab(1) by (cases b) simp_all
  then have r: "frame_range_of (env_profile E) (a * 4096, b * 4096) = Inr \<lparr>start_frame_number = a, end_frame_number = b\<rparr>"
    using ab(1,2) by (simp add: frame_range_of_def frame_range_new_def u64_sub_def u64_add_def u64_bound_def page_size_def frame_bound_def)
  obtain m' where m': "mark_allocated_region srt (env_profile E) ?q m = Inr m'" "settled m'" "next_entry_index m' \<le> next_entry_index m + 2"
    "\<forall>g. owners m' g = (if holds ?q g then {#region_type ?q#} else owners m g)"
    "\<forall>c d. c < d \<and> (d \<le> start_frame_number (rng ?q) \<or> end_frame_number (rng ?q) \<le> c) \<and> available m c d \<longrightarrow> available m' c d"
    using mark_available [OF st q(1,2) room q(3), of "env_profile E"] by blast
  have "mark_area E t (a * 4096) ((b - 1) * 4096) m = Inr m'" using f r m'(1) E by (simp add: mark_area_def)
  moreover have "area_free m' y" if "area_disjoint x y" "area_free m y" for y
    using m'(5) that by (auto simp: area_free_def area_disjoint_def xx)
  ultimately show ?thesis using m'(2,3,4) by (auto simp: xx in_area_def holds_def)
qed

lemma mark_areas_correct:
  assumes E: "env_sort E = srt" "env_x86 E = X" and "settled m" and "next_entry_index m + 2 * length xs \<le> max_memory_map_size"
    and "\<forall>x \<in> set xs. area_free m x" and "sorted_wrt area_disjoint xs"
  shows "\<exists>m'. mark_areas E xs m = Inr m' \<and> settled m' \<and> next_entry_index m' \<le> next_entry_index m + 2 * length xs \<and>
    (\<forall>f. owners m' f = owner_after xs (owners m) f)"
  using assms(3-)
proof (induction xs arbitrary: m)
  case (Cons x xs)
  have "next_entry_index m + 2 \<le> max_memory_map_size" "area_free m x" using Cons.prems(2,3) by simp_all
  from mark_area_correct [OF E Cons.prems(1) this] obtain m1 where
    m1: "mark_area E (fst x) (fst (snd x) * 4096) ((snd (snd x) - 1) * 4096) m = Inr m1" "settled m1"
      "next_entry_index m1 \<le> next_entry_index m + 2"
      "\<And>g. owners m1 g = (if in_area g x then {#fst x#} else owners m g)"
      "\<And>y. area_disjoint x y \<Longrightarrow> area_free m y \<Longrightarrow> area_free m1 y" by blast
  have "\<forall>y \<in> set xs. area_free m1 y" using m1(5) Cons.prems(3,4) by simp
  with Cons.IH [OF m1(2)] m1(3) Cons.prems(2,4) obtain m' where m': "mark_areas E xs m1 = Inr m'" "settled m'"
    "next_entry_index m' \<le> next_entry_index m1 + 2 * length xs" "\<forall>f. owners m' f = owner_after xs (owners m1) f" by auto
  have "owners m1 = (\<lambda>f. if in_area f x then {#fst x#} else owners m f)" by (rule ext) (rule m1(4))
  then have "owners m' f = owner_after (x # xs) (owners m) f" for f
    using m'(4) owner_after_update [of xs x "owners m" f] Cons.prems(4) by simp
  then show ?case using m1(1,3) m'(1-3) by auto
qed simp

lemma mark_used_regions_areas:
  assumes E: "env_x86 E = X"
    and "0 < bootloader_end P" "bootloader_end P < phys_bound" and "0 < kernel_size P" "kernel_start P + kernel_size P < phys_bound"
    and "0 < page_table_end P" "page_table_end P < phys_bound"
  shows "mark_used_regions E P m = mark_areas E (used_areas P) m"
proof -
  have e: "phys_sub X (bootloader_end P) 1 = Inr (bootloader_end P - 1)" "phys_sub X (page_table_end P) 1 = Inr (page_table_end P - 1)"
    "phys_add X (kernel_start P) (kernel_size P) = Inr (kernel_start P + kernel_size P)"
    "phys_sub X (kernel_start P + kernel_size P) 1 = Inr (kernel_start P + kernel_size P - 1)"
    using assms(2-) by (simp_all only: sub_valid add_valid trans_less_add2 Suc_leI One_nat_def)
  have z: "phys_addr_new X 0 = Inr 0" "frame_from_start X 0 = Some 0"
    by (simp_all add: new_valid phys_bound_def from_start)
  have return: "bind_rust r Inr = r" for r :: "memory_map rust" by (cases r) simp_all
  have c: "mark_areas E [] = Inr" "mark_areas E (x # xs) =
      (\<lambda>m. bind_rust (mark_area E (fst x) (fst (snd x) * 4096) ((snd (snd x) - 1) * 4096) m) (mark_areas E xs))" for x xs
    by (simp_all add: fun_eq_iff)
  show ?thesis
    unfolding mark_used_regions_def used_areas_def c E e z by (simp add: containing_frame e [unfolded One_nat_def] z return)
qed

end

subsection \<open>Properties\<close>

text \<open>The areas in use are inside physical memory, each within one usable region, and share no frame.\<close>

definition used_memory_ok :: "boot_params \<Rightarrow> memory_map \<Rightarrow> bool" where
  "used_memory_ok P m \<longleftrightarrow>
     settled m \<and> next_entry_index m + 8 \<le> max_memory_map_size \<and>
     0 < bootloader_end P \<and> bootloader_end P < phys_bound \<and> 0 < kernel_size P \<and>
     kernel_start P + kernel_size P < phys_bound \<and> 0 < page_table_end P \<and> page_table_end P < phys_bound \<and>
     (\<forall>x \<in> set (used_areas P). area_free m x) \<and> sorted_wrt area_disjoint (used_areas P)"

lemma mark_used_regions_spec:
  assumes "frame_allocation (env_sort E) (env_x86 E)" and "used_memory_ok P m"
  shows "\<exists>m'. mark_used_regions E P m = Inr m' \<and> settled m' \<and> (sole_usable m \<longrightarrow> sole_usable m') \<and> next_entry_index m' \<le> next_entry_index m + 8 \<and>
    (\<forall>f. owners m' f = owner_after (used_areas P) (owners m) f) \<and>
    usable m' = {f \<in> usable m. \<forall>x \<in> set (used_areas P). \<not> in_area f x}"
proof -
  note u = assms(2) [unfolded used_memory_ok_def]
  have "mark_used_regions E P m = mark_areas E (used_areas P) m"
    using u by (intro frame_allocation.mark_used_regions_areas [OF assms(1)]) simp_all
  moreover have "length (used_areas P) = 4" by (simp add: used_areas_def)
  ultimately obtain m' where m': "mark_used_regions E P m = Inr m'" "settled m'" "next_entry_index m' \<le> next_entry_index m + 8"
    "\<forall>f. owners m' f = owner_after (used_areas P) (owners m) f"
    using frame_allocation.mark_areas_correct [OF assms(1), where E = E and m = m and xs = "used_areas P"] u by auto
  have "Usable \<notin> fst ` set (used_areas P)" by (simp add: used_areas_def)
  then have "usable m' = {f \<in> usable m. \<forall>x \<in> set (used_areas P). \<not> in_area f x}"
    unfolding usable_def using m'(4) owner_after_usable by simp
  moreover have "sole_usable m'" if "sole_usable m"
    using that m'(4) owner_after_cases [of "used_areas P" "owners m"] unfolding sole_usable_def by (metis count_single le_refl zero_le_one)
  ultimately show ?thesis using m' by blast
qed

text \<open>
  C19: marking the memory in use gives frame zero and the frames of the bootloader, of the kernel file and of
  the page tables their type as only owner, keeps the owners of every other frame, and so takes exactly
  these frames from the usable ones.
\<close>

theorem mark_used_regions_exact:
  assumes "frame_allocation (env_sort E) (env_x86 E)" and "used_memory_ok P m"
  shows "\<exists>m'. mark_used_regions E P m = Inr m' \<and> settled m' \<and> next_entry_index m' \<le> next_entry_index m + 8 \<and>
    (\<forall>f. owners m' f = owner_after (used_areas P) (owners m) f) \<and>
    usable m' = {f \<in> usable m. \<forall>x \<in> set (used_areas P). \<not> in_area f x}"
  using mark_used_regions_spec [OF assms] by blast

text \<open>The addresses of the linker script, a kernel of 20000 bytes.\<close>

definition example_params :: boot_params where
  "example_params =
     \<lparr>kernel_start = 0x400000, kernel_size = 20000, memory_table = [], page_table_start = 0x1000, page_table_end = 0x5000,
      bootloader_start = 0x5000, bootloader_end = 0x9e00, p4_physical = 0x1000\<rparr>"

lemma small_map_settled: "settled small_map"
  by (simp add: settled_def small_map_wf small_map_deref is_empty_def)

lemma example_params_ok: "used_memory_ok example_params small_map"
  by (simp add: used_memory_ok_def small_map_settled small_map_slots max_memory_map_size_def example_params_def phys_bound_def
      used_areas_def area_free_def area_disjoint_def available_def frame_bound_def small_map_deref small_map_owners)

theorem mark_used_regions_exact_witness:
  "frame_allocation (env_sort (loader_documented Debug)) (env_x86 (loader_documented Debug)) \<and>
   used_memory_ok example_params small_map \<and>
   (\<exists>m'. mark_used_regions (loader_documented Debug) example_params small_map = Inr m' \<and>
      owners m' 1028 = {#Kernel#} \<and> owners m' 10 = {#Usable#} \<and> 1 \<notin> usable m')"
proof -
  have fa: "frame_allocation (env_sort (loader_documented Debug)) (env_x86 (loader_documented Debug))"
    by (simp add: fa.frame_allocation_axioms)
  from mark_used_regions_exact [OF this example_params_ok] obtain m' where
    m': "mark_used_regions (loader_documented Debug) example_params small_map = Inr m'"
      "\<forall>f. owners m' f = owner_after (used_areas example_params) (owners small_map) f"
      "usable m' = {f \<in> usable small_map. \<forall>x \<in> set (used_areas example_params). \<not> in_area f x}" by blast
  have "owners m' 1028 = {#Kernel#}" "owners m' 10 = {#Usable#}" "1 \<notin> usable m'"
    by (simp_all add: m'(2,3) used_areas_def example_params_def in_area_def small_map_owners)
  then show ?thesis using m'(1) fa example_params_ok by blast
qed

end
