(* ===== verification/BootCorrect.thy ===== *)
theory BootCorrect
  imports UsedMemory
begin

text \<open>
  Correctness of the bootloader's last stage as a whole. The phases of \<^verbatim>\<open>bootloader_main\<close> are specified by
  the judgement \<open>boots\<close>, which extends \<open>runs\<close> of the loader to panics; each phase is related to the state
  before it by \<open>keeps\<close>, so that what a phase has set up is still there at the end. The locale
  \<open>boot_machine\<close> adds to the loader what the documentation of the \<^verbatim>\<open>x86_64\<close> crate says of large pages and
  of the recursive entry.
\<close>

subsection \<open>Judgement\<close>

text \<open>The panics of a boot that ran out of memory or of slots in the memory map.\<close>

definition exhausted :: "panic set" where
  "exhausted =
     {map_full, Unwrap_failed ''frame allocation failed'', Unwrap_failed ''Mapping of bootinfo page failed'',
      Unwrap_failed ''kernel mapping failed''}"

definition boots ::
  "'pt boot_env \<Rightarrow> nat \<Rightarrow> ('a, 'pt) bm \<Rightarrow> 'pt boot \<Rightarrow> ('a \<Rightarrow> 'pt boot \<Rightarrow> bool) \<Rightarrow> bool" where
  "boots B n f b Q \<longleftrightarrow>
     (case f b of
        Inl p \<Rightarrow> p \<in> exhausted \<and> \<not> ample (be_loader B) n (ld_map (bm_ld b))
      | Inr (x, b') \<Rightarrow> Q x b' \<and> spends (be_loader B) n (ld_map (bm_ld b)) (ld_map (bm_ld b')))"

lemma boots_cases:
  assumes "boots B n f b Q"
  obtains (ok) x b' where "f b = Inr (x, b')" and "Q x b'"
    and "spends (be_loader B) n (ld_map (bm_ld b)) (ld_map (bm_ld b'))"
  | (panic) p where "f b = Inl p" and "p \<in> exhausted" and "\<not> ample (be_loader B) n (ld_map (bm_ld b))"
  using assms by (cases "f b") (auto simp: boots_def)

lemma boots_return: "f b = Inr (x, b') \<Longrightarrow> Q x b' \<Longrightarrow> ld_map (bm_ld b') = ld_map (bm_ld b) \<Longrightarrow> boots B 0 f b Q"
  by (simp add: boots_def)

lemma boots_ret: "Q x b \<Longrightarrow> boots B 0 (ret_bm x) b Q"
  by (simp add: boots_return ret_bm_def)

lemma boots_lift: "r = Inr x \<Longrightarrow> boots B n (g x) b Q \<Longrightarrow> boots B n (bind_bm (lift_bm r) g) b Q"
  by (simp add: boots_def bind_bm_def lift_bm_def)

lemma boots_mono:
  assumes "boots B n f b Q" and "n \<le> m" and "\<And>x b'. Q x b' \<Longrightarrow> Q' x b'"
  shows "boots B m f b Q'"
  using assms(1)
proof (cases rule: boots_cases)
  case (ok x b')
  with assms(3) spends_mono [OF ok(3) assms(2)] show ?thesis by (simp add: boots_def)
next
  case (panic p)
  then show ?thesis using ample_mono [OF _ assms(2)] by (auto simp: boots_def)
qed

lemma boots_weaken: "boots B n f b Q \<Longrightarrow> (\<And>x b'. Q x b' \<Longrightarrow> Q' x b') \<Longrightarrow> boots B n f b Q'"
  by (erule boots_mono) auto

lemma boots_bind:
  assumes "boots B n f b P" and "\<And>x b'. P x b' \<Longrightarrow> boots B m (g x) b' Q"
  shows "boots B (n + m) (bind_bm f g) b Q"
  using assms(1)
proof (cases rule: boots_cases)
  case f: (ok x b1)
  then have e: "bind_bm f g b = g x b1" by (simp add: bind_bm_def)
  from assms(2) [OF f(2)] show ?thesis
  proof (cases rule: boots_cases)
    case (ok y b2)
    with spends_trans [OF f(3) ok(3)] show ?thesis by (simp add: boots_def e)
  qed (use spends_ample [OF f(3), of m] in \<open>auto simp: boots_def e\<close>)
next
  case (panic p)
  then show ?thesis using ample_mono [of "be_loader B" "n + m" "ld_map (bm_ld b)" n] by (auto simp: boots_def bind_bm_def)
qed

lemma boots_cong: "f b = g b \<Longrightarrow> boots B n g b Q \<Longrightarrow> boots B n f b Q"
  by (simp add: boots_def)

lemma boots_0: "boots B 0 f b Q \<Longrightarrow> \<exists>x b'. f b = Inr (x, b') \<and> Q x b'"
  by (erule boots_cases) auto

text \<open>\<^verbatim>\<open>expect\<close> on an operation of the loader.\<close>

lemma boots_expect:
  assumes "runs (be_loader B) err n f (bm_ld b) Q" and "Unwrap_failed msg \<in> exhausted"
  shows "boots B n (expect_bm msg f) b (\<lambda>x b'. Q x (bm_ld b') \<and> bm_l4 b' = bm_l4 b \<and> bm_cpu b' = bm_cpu b)"
  using assms(1)
proof (cases rule: runs_cases)
  case (ok x s')
  then show ?thesis by (simp add: boots_def expect_bm_def)
next
  case (err s')
  then show ?thesis using assms(2) by (simp add: boots_def expect_bm_def)
next
  case panic
  then show ?thesis by (simp add: boots_def expect_bm_def exhausted_def)
qed

lemma exhausted_members [simp]:
  "map_full \<in> exhausted" "Unwrap_failed ''frame allocation failed'' \<in> exhausted"
  "Unwrap_failed ''Mapping of bootinfo page failed'' \<in> exhausted" "Unwrap_failed ''kernel mapping failed'' \<in> exhausted"
  by (simp_all add: exhausted_def)

subsection \<open>The machine\<close>

text \<open>
  \<open>root\<close> is the address of the top-level table, \<open>entry pt i\<close> what is under its entry \<open>i\<close>, and a blank entry
  has nothing under it. \<open>translate_2m\<close> is the translation of 2 MiB pages. A page of 4 KiB or 2 MiB is named by
  its address; the pages below are numbers of 4 KiB pages.
\<close>

definition entry_pages :: "u64 \<Rightarrow> u64 set" where
  "entry_pages i = {q. level4_of q = i}"

definition large_page :: "u64 \<Rightarrow> u64 set" where
  "large_page n = {q. q div 512 = n}"

text \<open>The end of the physical memory, and the window through which it is mapped.\<close>

definition top_of :: "memory_map \<Rightarrow> u64" where
  "top_of m = Max ((\<lambda>r. end_frame_number (rng r) * 4096) ` set (mm_deref m))"

definition level4_needed :: "u64 \<Rightarrow> u64" where
  "level4_needed a = (a + 2 ^ 39 - 1) div 2 ^ 39"

lemma end_addrs_wf:
  assumes "\<forall>r \<in> set rs. region_ok r"
  shows "end_addrs p rs = Inr (map (\<lambda>r. end_frame_number (rng r) * 4096) rs)"
  using assms
  by (induction rs) (simp_all add: end_addr_def page_size_def u64_mul_def u64_bound_def region_ok_def frame_bound_def)

lemma fold_max: "fold max xs a = Max (insert a (set xs))" for a :: nat
proof (induction xs arbitrary: a)
  case (Cons x xs)
  have "Max (insert (max x a) (set xs)) = Max (insert a (insert x (set xs)))"
  proof (cases "set xs = {}")
    case False
    then show ?thesis by (simp add: max.assoc max.left_commute)
  qed (simp add: max.commute)
  then show ?case using Cons by simp
qed simp

lemma max_phys_addr_top:
  assumes "mm_wf m" and "mm_deref m \<noteq> []"
  shows "max_phys_addr_of p m = Inr (top_of m)" and "top_of m < phys_bound"
proof -
  let ?e = "\<lambda>r. end_frame_number (rng r) * 4096"
  have "Max (insert 0 (?e ` set (mm_deref m))) = Max (?e ` set (mm_deref m))" using assms(2) by simp
  then show "max_phys_addr_of p m = Inr (top_of m)"
    using assms end_addrs_wf [OF mm_deref_ok [OF assms(1)], of p] by (simp add: max_phys_addr_of_def fold_max top_of_def)
  have "\<forall>x \<in> ?e ` set (mm_deref m). x < phys_bound"
    using mm_deref_ok [OF assms(1)] by (auto simp: region_ok_def frame_bound_def phys_bound_def)
  then show "top_of m < phys_bound" using assms(2) unfolding top_of_def by (subst Max_less_iff) auto
qed

definition recursive_addr :: "'pt boot_env \<Rightarrow> u64 \<Rightarrow> u64" where
  "recursive_addr B i = page_from_indices (env_x86 (be_loader B)) i i i i"

text \<open>Memory with the bytes \<open>bs\<close> written at \<open>a\<close>.\<close>

definition written :: "u64 \<Rightarrow> nat list \<Rightarrow> (u64 \<Rightarrow> nat) \<Rightarrow> u64 \<Rightarrow> nat" where
  "written a bs mem pa = (if a \<le> pa \<and> pa < a + length bs then bs ! (pa - a) else mem pa)"

lemma written_Cons: "written (a + 1) bs (mem(a := x)) = written a (x # bs) mem"
  by (auto simp: written_def fun_eq_iff nth_Cons' Suc_le_eq)

lemma written_page:
  assumes "length bs \<le> 4096" and "pa div 4096 \<noteq> f"
  shows "written (f * 4096) bs mem pa = mem pa"
  using assms div_nat_eqI [of f 4096 pa] by (auto simp: written_def)

lemma loaded_written:
  assumes "loaded E k A mem s seg" and "length bs \<le> 4096" and "f \<notin> file_frames k seg \<union> A"
    and "ph_type seg = Load \<longrightarrow> ph_file_size seg \<le> ph_mem_size seg"
  shows "loaded E k A mem (s\<lparr>ld_mem := written (f * 4096) bs (ld_mem s)\<rparr>) seg"
proof (cases "ph_type seg = Load")
  case True
  let ?s = "s\<lparr>ld_mem := written (f * 4096) bs (ld_mem s)\<rparr>" and ?v = "ph_virtual_addr seg"
  have le: "ph_file_size seg \<le> ph_mem_size seg" using assms(4) True by simp
  obtain h where h: "backs E s (segment_flags seg) h (segment_pages seg)" "h ` segment_pages seg \<subseteq> file_frames k seg \<union> A"
    using assms(1) True by (auto simp: loaded_def placed_def)
  have "stored E ?s (?v + i) c" if "stored E s (?v + i) c" "i < ph_mem_size seg" for i c
  proof -
    note p = segment_page [OF that(2) le]
    have "h ((?v + i) div 4096) \<noteq> f" using h(2) assms(3) p by blast
    moreover have a: "phys_of E (ld_pt s) (?v + i) = Some (h ((?v + i) div 4096) * 4096 + (?v + i) mod 4096)"
      by (rule backs_phys [OF h(1) p])
    ultimately show ?thesis
      using that(1) written_page [OF assms(2), of "h ((?v + i) div 4096) * 4096 + (?v + i) mod 4096" f "ld_mem s"]
      by (simp add: stored_def)
  qed
  moreover have "placed E k A ?s seg" using h unfolding placed_def backs_def by auto
  ultimately show ?thesis using assms(1) le True unfolding loaded_def by simp
qed (simp add: loaded_def)

locale boot_machine =
  kernel_loader "be_loader B" mappable entry
  for B :: "'pt boot_env" and mappable :: "'pt \<Rightarrow> u64 \<Rightarrow> bool" and entry :: "'pt \<Rightarrow> u64 \<Rightarrow> 'sub" +
  fixes root :: u64
    and blank :: "'sub \<Rightarrow> bool"
    and translate_2m :: "'pt \<Rightarrow> u64 \<Rightarrow> (u64 \<times> page_flags) option"
    and mappable_2m :: "'pt \<Rightarrow> u64 \<Rightarrow> bool"
  assumes blank_mappable: "blank (entry pt i) \<Longrightarrow> page div 2 ^ 39 = i \<Longrightarrow> mappable pt page \<and> mappable_2m pt page"
    and set_root: "i < 256 \<Longrightarrow> \<exists>pt'. be_set_p4_entry B i root {PRESENT, WRITABLE} pt = Inr pt' \<and> be_recursive_new B (recursive_addr B i) pt' \<and>
      (\<forall>j. j \<noteq> i \<longrightarrow> entry pt' j = entry pt j) \<and>
      (\<forall>page. page div 2 ^ 39 \<noteq> i \<longrightarrow> env_translate (be_loader B) pt' page = env_translate (be_loader B) pt page \<and>
         translate_2m pt' page = translate_2m pt page \<and> (mappable pt page \<longrightarrow> mappable pt' page))"
    and recursive_same: "i < 256 \<Longrightarrow> be_recursive_new B (recursive_addr B i) pt \<Longrightarrow> entry pt' i = entry pt i \<Longrightarrow>
      be_recursive_new B (recursive_addr B i) pt'"
    and recursive_unmap: "i < 256 \<Longrightarrow> be_recursive_new B (recursive_addr B i) pt \<Longrightarrow>
      \<exists>f pt'. env_unmap (be_loader B) (recursive_addr B i) pt = (Inr f, pt') \<and>
        (\<forall>page. page div 2 ^ 39 \<noteq> i \<longrightarrow> env_translate (be_loader B) pt' page = env_translate (be_loader B) pt page \<and>
           translate_2m pt' page = translate_2m pt page \<and> (mappable pt page \<longrightarrow> mappable pt' page))"
    and unmap_2m: "translate_2m pt (n * 2 ^ 21) \<noteq> None \<Longrightarrow>
      \<exists>f pt'. be_unmap_2m B (n * 2 ^ 21) pt = (Inr f, pt') \<and> translate_2m pt' = (translate_2m pt)(n * 2 ^ 21 := None) \<and>
        (\<forall>q. q div 512 \<noteq> n \<longrightarrow> env_translate (be_loader B) pt' (q * 4096) = env_translate (be_loader B) pt (q * 4096) \<and>
           (mappable pt (q * 4096) \<longrightarrow> mappable pt' (q * 4096))) \<and>
        (\<forall>q. q div 512 = n \<longrightarrow> mappable pt' (q * 4096)) \<and> (\<forall>i. i \<noteq> n div 2 ^ 18 \<longrightarrow> entry pt' i = entry pt i)"
    and map_2m_outcome: "mappable_2m pt (n * 2 ^ 21) \<Longrightarrow>
      done_within alloc 2 fa (n * 2 ^ 21) (be_map_to_2m B alloc (n * 2 ^ 21) frame fl pt fa)"
    and map_2m_ok: "be_map_to_2m B alloc (n * 2 ^ 21) frame fl pt fa = Inr (Inr u, pt', fa') \<Longrightarrow>
      translate_2m pt' = (translate_2m pt)(n * 2 ^ 21 \<mapsto> (frame, fl)) \<and>
      (\<forall>q. q div 512 \<noteq> n \<longrightarrow> env_translate (be_loader B) pt' (q * 4096) = env_translate (be_loader B) pt (q * 4096) \<and>
         (mappable pt (q * 4096) \<longrightarrow> mappable pt' (q * 4096))) \<and>
      (\<forall>k. k \<noteq> n \<longrightarrow> mappable_2m pt (k * 2 ^ 21) \<longrightarrow> mappable_2m pt' (k * 2 ^ 21)) \<and>
      (\<forall>i. i \<noteq> n div 2 ^ 18 \<longrightarrow> entry pt' i = entry pt i)"
begin

abbreviation E :: "'pt loader_env" where "E \<equiv> be_loader B"

text \<open>Of the entries below 31, those that are not in use are blank.\<close>

definition spare :: "level4 \<Rightarrow> 'pt \<Rightarrow> bool" where
  "spare st pt \<longleftrightarrow> (\<forall>i < 31. \<not> st ! i \<longrightarrow> blank (entry pt i))"

lemma spare_keeps:
  assumes "spare st (ld_pt s)" and "keeps E mappable entry R s s'"
    and "\<And>i. i < 31 \<Longrightarrow> \<not> st' ! i \<Longrightarrow> \<not> st ! i \<and> i \<notin> level4_of ` R"
  shows "spare st' (ld_pt s')"
  using assms(1,3) keeps_entryD [OF assms(2)] by (simp add: spare_def)

lemma keeps_map:
  assumes "sound m" and "usable m \<subseteq> usable (ld_map s)"
  shows "keeps E mappable entry {} s (s\<lparr>ld_map := m\<rparr>)"
  using assms by (intro keepsI) simp_all

lemma boots_install_recursive:
  assumes "sound (ld_map (bm_ld b))" and "i < 256"
  shows "boots B 0 (install_recursive B root i) b
    (\<lambda>a b'. a = recursive_addr B i \<and> bm_l4 b' = bm_l4 b \<and> bm_cpu b' = bm_cpu b \<and> be_recursive_new B a (ld_pt (bm_ld b')) \<and>
       keeps E mappable entry (entry_pages i) (bm_ld b) (bm_ld b') \<and> ld_map (bm_ld b') = ld_map (bm_ld b) \<and>
       ld_mem (bm_ld b') = ld_mem (bm_ld b) \<and>
       (\<forall>page. page div 2 ^ 39 \<noteq> i \<longrightarrow> translate_2m (ld_pt (bm_ld b')) page = translate_2m (ld_pt (bm_ld b)) page))"
proof -
  obtain pt' where r: "be_set_p4_entry B i root {PRESENT, WRITABLE} (ld_pt (bm_ld b)) = Inr pt'"
      "be_recursive_new B (recursive_addr B i) pt'" "\<And>j. j \<noteq> i \<Longrightarrow> entry pt' j = entry (ld_pt (bm_ld b)) j"
      "\<And>page. page div 2 ^ 39 \<noteq> i \<Longrightarrow> env_translate E pt' page = env_translate E (ld_pt (bm_ld b)) page"
      "\<And>page. page div 2 ^ 39 \<noteq> i \<Longrightarrow> translate_2m pt' page = translate_2m (ld_pt (bm_ld b)) page"
      "\<And>page. page div 2 ^ 39 \<noteq> i \<Longrightarrow> mappable (ld_pt (bm_ld b)) page \<Longrightarrow> mappable pt' page"
    using set_root [OF assms(2), of "ld_pt (bm_ld b)"] by blast
  let ?s = "(bm_ld b)\<lparr>ld_pt := pt'\<rparr>"
  have "level4_of (i * 2 ^ 27) \<in> level4_of ` entry_pages i" by (rule imageI) (simp add: entry_pages_def level4_of_def)
  then have "i \<in> level4_of ` entry_pages i" by (simp add: level4_of_def)
  then have out: "i' \<noteq> i" if "i' \<notin> level4_of ` entry_pages i" for i' using that by blast
  have page: "q * 4096 div 2 ^ 39 \<noteq> i" if "q \<notin> entry_pages i" for q
    using that unfolding entry_pages_def level4_of_page by blast
  have "keeps E mappable entry (entry_pages i) (bm_ld b) ?s"
    by (rule keepsI) (use assms(1) in \<open>simp_all add: r(3) [OF out] r(4) [OF page] r(6) [OF page]\<close>)
  then show ?thesis
    using r(1,2,5) by (intro boots_return [where x = "recursive_addr B i" and b' = "b\<lparr>bm_ld := ?s\<rparr>"])
      (simp_all add: install_recursive_def recursive_addr_def)
qed

lemma boots_free_entries:
  assumes "free_from (bm_l4 b) k" and "0 < n" and "k + n \<le> 512"
  shows "boots B 0 (free_entries_bm n) b
    (\<lambda>i b'. i \<le> k \<and> entries_free (bm_l4 b) i n \<and> free_from (bm_l4 b') (k + n) \<and>
       (\<forall>j < 512. \<not> bm_l4 b' ! j \<longrightarrow> \<not> bm_l4 b ! j \<and> \<not> (i \<le> j \<and> j < i + n)) \<and>
       bm_ld b' = bm_ld b \<and> bm_cpu b' = bm_cpu b)"
proof -
  obtain i st where "get_free_entries n (bm_l4 b) = Inr (i, st)" "i \<le> k" "entries_free (bm_l4 b) i n" "free_from st (k + n)"
    "\<And>j. j < 512 \<Longrightarrow> \<not> st ! j \<Longrightarrow> \<not> bm_l4 b ! j \<and> \<not> (i \<le> j \<and> j < i + n)"
    using get_free_entries_from [OF assms] by blast
  then show ?thesis
    by (intro boots_return [where x = i and b' = "b\<lparr>bm_l4 := st\<rparr>"]) (simp_all add: free_entries_bm_def)
qed

subsection \<open>Large pages\<close>

lemma large_page_level4: "q \<in> large_page n \<Longrightarrow> level4_of q = n div 2 ^ 18"
proof -
  assume "q \<in> large_page n"
  moreover have "q div (512 * 2 ^ 18) = q div 512 div 2 ^ 18" by (rule div_mult2_eq)
  ultimately show ?thesis by (simp add: large_page_def level4_of_def)
qed

lemma large_page_entry: "n div 2 ^ 18 \<in> level4_of ` large_page n"
proof -
  have "n * 512 \<in> large_page n" by (simp add: large_page_def)
  then show ?thesis using large_page_level4 [of "n * 512" n] by (metis imageI)
qed

lemma unmap_2m_keeps:
  assumes "sound (ld_map s)" and "translate_2m (ld_pt s) (n * 2 ^ 21) \<noteq> None"
  obtains f pt' where "be_unmap_2m B (n * 2 ^ 21) (ld_pt s) = (Inr f, pt')"
    and "translate_2m pt' = (translate_2m (ld_pt s))(n * 2 ^ 21 := None)"
    and "keeps E mappable entry (large_page n) s (s\<lparr>ld_pt := pt'\<rparr>)"
    and "\<And>q. q \<in> large_page n \<Longrightarrow> mappable pt' (q * 4096)"
proof -
  obtain f pt' where r: "be_unmap_2m B (n * 2 ^ 21) (ld_pt s) = (Inr f, pt')"
    "translate_2m pt' = (translate_2m (ld_pt s))(n * 2 ^ 21 := None)"
    "\<And>q. q \<notin> large_page n \<Longrightarrow> env_translate E pt' (q * 4096) = env_translate E (ld_pt s) (q * 4096)"
    "\<And>q. q \<notin> large_page n \<Longrightarrow> mappable (ld_pt s) (q * 4096) \<Longrightarrow> mappable pt' (q * 4096)"
    "\<And>q. q \<in> large_page n \<Longrightarrow> mappable pt' (q * 4096)" "\<And>i. i \<noteq> n div 2 ^ 18 \<Longrightarrow> entry pt' i = entry (ld_pt s) i"
    using unmap_2m [OF assms(2)] unfolding large_page_def mem_Collect_eq by blast
  have "i \<noteq> n div 2 ^ 18" if "i \<notin> level4_of ` large_page n" for i using that large_page_entry by metis
  then have "keeps E mappable entry (large_page n) s (s\<lparr>ld_pt := pt'\<rparr>)"
    by (intro keepsI) (use assms(1) in \<open>simp_all add: r(3,4) r(6)\<close>)
  with r(1,2,5) that show thesis by blast
qed

lemma boots_unmap_elf:
  assumes "sound (ld_map (bm_ld b))" and "\<forall>n \<in> {lo ..< hi}. translate_2m (ld_pt (bm_ld b)) (n * 2 ^ 21) \<noteq> None"
  shows "boots B 0 (unmap_elf B (map (\<lambda>n. n * 2 ^ 21) [lo ..< hi])) b
    (\<lambda>_ b'. bm_l4 b' = bm_l4 b \<and> bm_cpu b' = bm_cpu b \<and> ld_map (bm_ld b') = ld_map (bm_ld b) \<and> ld_mem (bm_ld b') = ld_mem (bm_ld b) \<and>
       keeps E mappable entry (\<Union>n \<in> {lo ..< hi}. large_page n) (bm_ld b) (bm_ld b') \<and>
       (\<forall>n \<in> {lo ..< hi}. \<forall>q \<in> large_page n. mappable (ld_pt (bm_ld b')) (q * 4096)))"
  using assms
proof (induction "hi - lo" arbitrary: lo b)
  case 0
  then show ?case by (simp add: boots_ret keeps_refl)
next
  case (Suc k)
  let ?s = "bm_ld b" and ?R = "\<Union>n \<in> {Suc lo ..< hi}. large_page n"
  have lt: "lo < hi" and k: "k = hi - Suc lo" using Suc.hyps(2) by simp_all
  have split: "{lo ..< hi} = insert lo {Suc lo ..< hi}" using lt by auto
  obtain f pt' where u: "be_unmap_2m B (lo * 2 ^ 21) (ld_pt ?s) = (Inr f, pt')"
    "translate_2m pt' = (translate_2m (ld_pt ?s))(lo * 2 ^ 21 := None)"
    "keeps E mappable entry (large_page lo) ?s (?s\<lparr>ld_pt := pt'\<rparr>)" "\<And>q. q \<in> large_page lo \<Longrightarrow> mappable pt' (q * 4096)"
    using unmap_2m_keeps [OF Suc.prems(1), of lo] Suc.prems(2) lt by (metis atLeastLessThan_iff order_refl)
  let ?b = "b\<lparr>bm_ld := ?s\<lparr>ld_pt := pt'\<rparr>\<rparr>"
  have "expect_bm ''dealloc error'' (unmap_2m_ld B (lo * 2 ^ 21)) b = Inr (f, ?b)"
    by (simp add: expect_bm_def unmap_2m_ld_def u(1) del: power_numeral)
  then have one: "boots B 0 (expect_bm ''dealloc error'' (unmap_2m_ld B (lo * 2 ^ 21))) b (\<lambda>_ b'. b' = ?b)"
    by (rule boots_return) simp_all
  have "\<forall>n \<in> {Suc lo ..< hi}. translate_2m (ld_pt (bm_ld ?b)) (n * 2 ^ 21) \<noteq> None"
    using Suc.prems(2) unfolding split by (auto simp: u(2))
  note IH = Suc.hyps(1) [OF k, of ?b, OF _ this]
  have dis: "large_page lo \<inter> ?R = {}" by (auto simp: large_page_def)
  have "boots B (0 + 0) (bind_bm (expect_bm ''dealloc error'' (unmap_2m_ld B (lo * 2 ^ 21))) (\<lambda>_. unmap_elf B (map (\<lambda>n. n * 2 ^ 21) [Suc lo ..< hi]))) b
    (\<lambda>_ b'. bm_l4 b' = bm_l4 b \<and> bm_cpu b' = bm_cpu b \<and> ld_map (bm_ld b') = ld_map ?s \<and> ld_mem (bm_ld b') = ld_mem ?s \<and>
       keeps E mappable entry (\<Union>n \<in> {lo ..< hi}. large_page n) ?s (bm_ld b') \<and>
       (\<forall>n \<in> {lo ..< hi}. \<forall>q \<in> large_page n. mappable (ld_pt (bm_ld b')) (q * 4096)))"
  proof (rule boots_bind [OF one], hypsubst, rule boots_weaken [OF IH], goal_cases)
    case 1 show ?case using Suc.prems(1) by simp
  next
    case (2 _ _ x b')
    then have c: "keeps E mappable entry ?R (?s\<lparr>ld_pt := pt'\<rparr>) (bm_ld b')" by simp
    have "keeps E mappable entry (\<Union>n \<in> {lo ..< hi}. large_page n) ?s (bm_ld b')"
      by (rule keeps_trans [OF u(3) c]) (auto simp: split)
    moreover have "mappable (ld_pt (bm_ld b')) (q * 4096)" if "q \<in> large_page lo" for q
      using keeps_mappableD [OF c, of q] u(4) [OF that] that dis by auto
    ultimately show ?case using 2 unfolding split by simp
  qed
  then show ?case by (simp add: upt_conv_Cons [OF lt] del: power_numeral)
qed

lemma runs_map_page_2m:
  assumes "sound (ld_map s)" and "mappable_2m (ld_pt s) (n * 2 ^ 21)"
  shows "runs E FrameAllocationFailed 2 (map_page_2m B (n * 2 ^ 21) a fl) s
    (\<lambda>_ s'. keeps E mappable entry (large_page n) s s' \<and> ld_mem s' = ld_mem s \<and>
       translate_2m (ld_pt s') = (translate_2m (ld_pt s))(n * 2 ^ 21 \<mapsto> (a, fl)) \<and>
       (\<forall>k. k \<noteq> n \<longrightarrow> mappable_2m (ld_pt s) (k * 2 ^ 21) \<longrightarrow> mappable_2m (ld_pt s') (k * 2 ^ 21)))"
proof (rule runs_done_within [where f = "map_page_2m B (n * 2 ^ 21) a fl", OF assms(1) map_2m_outcome [OF assms(2)] map_page_2m_def])
  fix pt' m assume r: "be_map_to_2m B (alloc_region E PageTable) (n * 2 ^ 21) a fl (ld_pt s) (ld_map s) = Inr (Inr (n * 2 ^ 21), pt', m)"
    and m: "sound m" "usable m \<subseteq> usable (ld_map s)"
  note o = map_2m_ok [OF r]
  have "i \<noteq> n div 2 ^ 18" if "i \<notin> level4_of ` large_page n" for i using that large_page_entry by metis
  then have "keeps E mappable entry (large_page n) s (s\<lparr>ld_pt := pt', ld_map := m\<rparr>)"
    by (intro keepsI) (use m o in \<open>simp_all add: large_page_def\<close>)
  then show "keeps E mappable entry (large_page n) s (s\<lparr>ld_pt := pt', ld_map := m\<rparr>) \<and> ld_mem (s\<lparr>ld_pt := pt', ld_map := m\<rparr>) = ld_mem s \<and>
      translate_2m (ld_pt (s\<lparr>ld_pt := pt', ld_map := m\<rparr>)) = (translate_2m (ld_pt s))(n * 2 ^ 21 \<mapsto> (a, fl)) \<and>
      (\<forall>k. k \<noteq> n \<longrightarrow> mappable_2m (ld_pt s) (k * 2 ^ 21) \<longrightarrow> mappable_2m (ld_pt (s\<lparr>ld_pt := pt', ld_map := m\<rparr>)) (k * 2 ^ 21))"
    using o by simp
qed

lemma boots_map_physical:
  assumes "sound (ld_map (bm_ld b))" and "(o2 + hi) * 2 ^ 21 \<le> virt_bound"
    and "\<forall>n \<in> {lo ..< hi}. mappable_2m (ld_pt (bm_ld b)) ((o2 + n) * 2 ^ 21)"
  shows "boots B (2 * (hi - lo)) (map_physical B (o2 * 2 ^ 21) (map (\<lambda>n. n * 2 ^ 21) [lo ..< hi])) b
    (\<lambda>_ b'. bm_l4 b' = bm_l4 b \<and> bm_cpu b' = bm_cpu b \<and> ld_mem (bm_ld b') = ld_mem (bm_ld b) \<and>
       keeps E mappable entry (\<Union>n \<in> {lo ..< hi}. large_page (o2 + n)) (bm_ld b) (bm_ld b') \<and>
       (\<forall>n \<in> {lo ..< hi}. translate_2m (ld_pt (bm_ld b')) ((o2 + n) * 2 ^ 21) = Some (n * 2 ^ 21, {PRESENT, WRITABLE})) \<and>
       (\<forall>n. n \<notin> {lo ..< hi} \<longrightarrow> translate_2m (ld_pt (bm_ld b')) ((o2 + n) * 2 ^ 21) = translate_2m (ld_pt (bm_ld b)) ((o2 + n) * 2 ^ 21)))"
  using assms
proof (induction "hi - lo" arbitrary: lo b)
  case 0
  then show ?case by (simp add: boots_ret keeps_refl)
next
  case (Suc k)
  let ?s = "bm_ld b" and ?R = "\<Union>n \<in> {Suc lo ..< hi}. large_page (o2 + n)" and ?fl = "{PRESENT, WRITABLE}"
  let ?T = "\<lambda>b n. translate_2m (ld_pt (bm_ld b)) ((o2 + n) * 2 ^ 21)"
  have lt: "lo < hi" and k: "k = hi - Suc lo" "2 * (hi - lo) = 2 + 2 * (hi - Suc lo)" using Suc.hyps(2) by simp_all
  have split: "{lo ..< hi} = insert lo {Suc lo ..< hi}" using lt by auto
  have below: "(o2 + lo) * 2 ^ 21 < virt_bound" using Suc.prems(2) lt by (simp add: virt_bound_def)
  have sum: "u64_add (env_profile E) (lo * 2 ^ 21) (o2 * 2 ^ 21) = Inr ((o2 + lo) * 2 ^ 21)"
    using below by (simp add: u64_add_def u64_bound_def virt_bound_def algebra_simps)
  have page: "page_containing_2m (env_x86 E) ((o2 + lo) * 2 ^ 21) = (o2 + lo) * 2 ^ 21"
    unfolding page_2m by simp
  have free: "mappable_2m (ld_pt ?s) ((o2 + lo) * 2 ^ 21)" using Suc.prems(3) split by blast
  note one = boots_expect [OF runs_map_page_2m [OF Suc.prems(1) free], of "''Mapping of bootinfo page failed''" "lo * 2 ^ 21" ?fl, simplified exhausted_members, OF TrueI]
  have "boots B (2 + 2 * (hi - Suc lo)) (bind_bm (expect_bm ''Mapping of bootinfo page failed'' (map_page_2m B ((o2 + lo) * 2 ^ 21) (lo * 2 ^ 21) ?fl))
      (\<lambda>_. map_physical B (o2 * 2 ^ 21) (map (\<lambda>n. n * 2 ^ 21) [Suc lo ..< hi]))) b
    (\<lambda>_ b'. bm_l4 b' = bm_l4 b \<and> bm_cpu b' = bm_cpu b \<and> ld_mem (bm_ld b') = ld_mem ?s \<and>
       keeps E mappable entry (\<Union>n \<in> {lo ..< hi}. large_page (o2 + n)) ?s (bm_ld b') \<and>
       (\<forall>n \<in> {lo ..< hi}. ?T b' n = Some (n * 2 ^ 21, ?fl)) \<and> (\<forall>n. n \<notin> {lo ..< hi} \<longrightarrow> ?T b' n = ?T b n))"
  proof (rule boots_bind [OF one], elim conjE)
    fix b1 :: "'pt boot" assume b1: "keeps E mappable entry (large_page (o2 + lo)) ?s (bm_ld b1)" "ld_mem (bm_ld b1) = ld_mem ?s"
      "translate_2m (ld_pt (bm_ld b1)) = (translate_2m (ld_pt ?s))((o2 + lo) * 2 ^ 21 \<mapsto> (lo * 2 ^ 21, ?fl))"
      "\<forall>k. k \<noteq> o2 + lo \<longrightarrow> mappable_2m (ld_pt ?s) (k * 2 ^ 21) \<longrightarrow> mappable_2m (ld_pt (bm_ld b1)) (k * 2 ^ 21)"
      "bm_l4 b1 = bm_l4 b" "bm_cpu b1 = bm_cpu b"
    have "\<forall>n \<in> {Suc lo ..< hi}. mappable_2m (ld_pt (bm_ld b1)) ((o2 + n) * 2 ^ 21)"
    proof
      fix n assume n: "n \<in> {Suc lo ..< hi}"
      then have "mappable_2m (ld_pt ?s) ((o2 + n) * 2 ^ 21)" "o2 + n \<noteq> o2 + lo" using Suc.prems(3) split by auto
      then show "mappable_2m (ld_pt (bm_ld b1)) ((o2 + n) * 2 ^ 21)" using b1(4) by blast
    qed
    note IH = Suc.hyps(1) [OF k(1) keeps_soundD [OF b1(1)] Suc.prems(2) this]
    have T: "?T b1 lo = Some (lo * 2 ^ 21, ?fl)" "\<And>n. n \<noteq> lo \<Longrightarrow> ?T b1 n = ?T b n" unfolding b1(3) by simp_all
    show "boots B (2 * (hi - Suc lo)) (map_physical B (o2 * 2 ^ 21) (map (\<lambda>n. n * 2 ^ 21) [Suc lo ..< hi])) b1
      (\<lambda>_ b'. bm_l4 b' = bm_l4 b \<and> bm_cpu b' = bm_cpu b \<and> ld_mem (bm_ld b') = ld_mem ?s \<and>
         keeps E mappable entry (\<Union>n \<in> {lo ..< hi}. large_page (o2 + n)) ?s (bm_ld b') \<and>
         (\<forall>n \<in> {lo ..< hi}. ?T b' n = Some (n * 2 ^ 21, ?fl)) \<and> (\<forall>n. n \<notin> {lo ..< hi} \<longrightarrow> ?T b' n = ?T b n))"
    proof (rule boots_weaken [OF IH], elim conjE, intro conjI)
      fix b' :: "'pt boot" assume k: "keeps E mappable entry ?R (bm_ld b1) (bm_ld b')"
        and t: "\<forall>n \<in> {Suc lo ..< hi}. ?T b' n = Some (n * 2 ^ 21, ?fl)" "\<forall>n. n \<notin> {Suc lo ..< hi} \<longrightarrow> ?T b' n = ?T b1 n"
      show "keeps E mappable entry (\<Union>n \<in> {lo ..< hi}. large_page (o2 + n)) ?s (bm_ld b')"
        by (rule keeps_trans [OF b1(1) k]) (auto simp: split)
      show "\<forall>n \<in> {lo ..< hi}. ?T b' n = Some (n * 2 ^ 21, ?fl)"
      proof
        fix n assume "n \<in> {lo ..< hi}"
        then consider "n = lo" | "n \<in> {Suc lo ..< hi}" using split by blast
        then show "?T b' n = Some (n * 2 ^ 21, ?fl)"
        proof cases
          case 1 then show ?thesis using t(2) [rule_format, of lo] T(1) by simp
        next
          case 2 then show ?thesis by (rule bspec [OF t(1)])
        qed
      qed
      show "\<forall>n. n \<notin> {lo ..< hi} \<longrightarrow> ?T b' n = ?T b n"
      proof (intro allI impI)
        fix n assume "n \<notin> {lo ..< hi}"
        then have "n \<notin> {Suc lo ..< hi}" "n \<noteq> lo" using split by auto
        then show "?T b' n = ?T b n" using t(2) T(2) by metis
      qed
    qed (simp_all add: b1)
  qed
  note main = this
  have eq: "map_physical B (o2 * 2 ^ 21) (map (\<lambda>n. n * 2 ^ 21) [lo ..< hi]) =
    bind_bm (lift_bm (u64_add (env_profile E) (lo * 2 ^ 21) (o2 * 2 ^ 21))) (\<lambda>sum. bind_bm (lift_bm (virt_addr_new (env_x86 E) sum)) (\<lambda>virt.
      bind_bm (expect_bm ''Mapping of bootinfo page failed'' (map_page_2m B (page_containing_2m (env_x86 E) virt) (lo * 2 ^ 21) ?fl))
        (\<lambda>_. map_physical B (o2 * 2 ^ 21) (map (\<lambda>n. n * 2 ^ 21) [Suc lo ..< hi]))))"
    by (simp only: upt_conv_Cons [OF lt] list.map map_physical.simps)
  show ?case
    unfolding k(2) eq by (rule boots_lift [OF sum], rule boots_lift [OF virt_valid [OF below]], unfold page, rule main)
qed

subsection \<open>The boot information\<close>

lemma boots_boot_info_page:
  assumes "free_from (bm_l4 b) k" and "k < 256"
  shows "boots B 0 (boot_info_page B None) b
    (\<lambda>a b'. \<exists>i. a = i * 2 ^ 27 * 4096 \<and> i \<le> k \<and> \<not> bm_l4 b ! i \<and> free_from (bm_l4 b') (k + 1) \<and>
       (\<forall>j < 512. \<not> bm_l4 b' ! j \<longrightarrow> \<not> bm_l4 b ! j \<and> j \<noteq> i) \<and> bm_ld b' = bm_ld b \<and> bm_cpu b' = bm_cpu b)"
proof -
  note one = boots_free_entries [OF assms(1), of 1]
  have "boots B (0 + 0) (boot_info_page B None) b
    (\<lambda>a b'. \<exists>i. a = i * 2 ^ 27 * 4096 \<and> i \<le> k \<and> \<not> bm_l4 b ! i \<and> free_from (bm_l4 b') (k + 1) \<and>
       (\<forall>j < 512. \<not> bm_l4 b' ! j \<longrightarrow> \<not> bm_l4 b ! j \<and> j \<noteq> i) \<and> bm_ld b' = bm_ld b \<and> bm_cpu b' = bm_cpu b)"
    unfolding boot_info_page_def option.case
  proof (rule boots_bind [OF one], goal_cases)
    case (3 i b')
    then have "page_from_indices (env_x86 E) i 0 0 0 = i * 2 ^ 27 * 4096" using assms(2) by (simp add: from_indices)
    then show ?case using 3 by (intro boots_ret exI [of _ i]) (auto simp: entries_free_def)
  qed (use assms(2) in simp_all)
  then show ?thesis by simp
qed

lemma boots_map_boot_info:
  assumes sd: "sound (ld_map (bm_ld b))" and l4: "free_from (bm_l4 b) k" "k < 31" and sp: "spare (bm_l4 b) (ld_pt (bm_ld b))"
  shows "boots B 4 (map_boot_info B None) b
    (\<lambda>a b'. \<exists>i fb. a = i * 2 ^ 27 * 4096 \<and> i \<le> k \<and> \<not> bm_l4 b ! i \<and> free_from (bm_l4 b') (k + 1) \<and>
       (\<forall>j < 512. \<not> bm_l4 b' ! j \<longrightarrow> \<not> bm_l4 b ! j \<and> j \<noteq> i) \<and> bm_cpu b' = bm_cpu b \<and>
       keeps E mappable entry {i * 2 ^ 27} (bm_ld b) (bm_ld b') \<and> ld_mem (bm_ld b') = ld_mem (bm_ld b) \<and>
       env_translate E (ld_pt (bm_ld b')) a = Some (fb * 4096, {PRESENT, WRITABLE}) \<and>
       fb \<in> usable (ld_map (bm_ld b)) \<and> fb \<notin> usable (ld_map (bm_ld b')))" (is "boots B 4 _ b ?Q")
proof -
  have "boots B (0 + (1 + (3 + 0))) (map_boot_info B None) b ?Q"
    unfolding map_boot_info_def
  proof (rule boots_bind [OF boots_boot_info_page [OF l4(1)]], use l4(2) in simp, elim exE conjE)
    fix a i and b1 :: "'pt boot" assume a: "a = i * 2 ^ 27 * 4096" and i: "i \<le> k" "\<not> bm_l4 b ! i"
      and b1: "free_from (bm_l4 b1) (k + 1)" "\<forall>j < 512. \<not> bm_l4 b1 ! j \<longrightarrow> \<not> bm_l4 b ! j \<and> j \<noteq> i" "bm_ld b1 = bm_ld b" "bm_cpu b1 = bm_cpu b"
    let ?p = "i * 2 ^ 27"
    have "level4_of ?p = i" by (simp add: level4_of_def)
    then have "?p * 4096 div 2 ^ 39 = i" unfolding level4_of_page .
    moreover have "blank (entry (ld_pt (bm_ld b)) i)" using sp i l4(2) by (simp add: spare_def)
    ultimately have free: "mappable (ld_pt (bm_ld b)) (?p * 4096)" using blank_mappable by blast
    have alloc: "boots B 1 (expect_bm ''frame allocation failed'' (alloc_ld E BootInfo)) b1
      (\<lambda>x b'. (\<exists>f. x = f * 4096 \<and> f \<in> usable (ld_map (bm_ld b)) \<and> f \<notin> usable (ld_map (bm_ld b')) \<and>
         keeps E mappable entry {} (bm_ld b) (bm_ld b') \<and> ld_mem (bm_ld b') = ld_mem (bm_ld b) \<and> ld_pt (bm_ld b') = ld_pt (bm_ld b)) \<and>
         bm_l4 b' = bm_l4 b1 \<and> bm_cpu b' = bm_cpu b1)"
      using boots_expect [where b = b1 and msg = "''frame allocation failed''", unfolded b1(3), OF runs_alloc [OF sd, of BootInfo]] by simp
    show "boots B (1 + (3 + 0)) (bind_bm (expect_bm ''frame allocation failed'' (alloc_ld E BootInfo)) (\<lambda>frame.
        bind_bm (expect_bm ''Mapping of bootinfo page failed'' (map_page E a frame {PRESENT, WRITABLE})) (\<lambda>_. ret_bm a))) b1 ?Q"
    proof (rule boots_bind [OF alloc], elim exE conjE, hypsubst)
      fix f and b2 :: "'pt boot" assume f: "f \<in> usable (ld_map (bm_ld b))" "f \<notin> usable (ld_map (bm_ld b2))"
        and b2: "keeps E mappable entry {} (bm_ld b) (bm_ld b2)" "ld_mem (bm_ld b2) = ld_mem (bm_ld b)" "ld_pt (bm_ld b2) = ld_pt (bm_ld b)"
          "bm_l4 b2 = bm_l4 b1" "bm_cpu b2 = bm_cpu b1"
      have "mappable (ld_pt (bm_ld b2)) (?p * 4096)" using free b2(3) by simp
      note mp = boots_expect [OF runs_map_page [OF keeps_soundD [OF b2(1)] this], of "''Mapping of bootinfo page failed''" "f * 4096" "{PRESENT, WRITABLE}", simplified exhausted_members, OF TrueI]
      show "boots B (3 + 0) (bind_bm (expect_bm ''Mapping of bootinfo page failed'' (map_page E a (f * 4096) {PRESENT, WRITABLE})) (\<lambda>_. ret_bm a)) b2 ?Q"
        unfolding a
      proof (rule boots_bind [OF mp], elim conjE, rule boots_ret)
        fix b3 :: "'pt boot" assume b3: "keeps E mappable entry {?p} (bm_ld b2) (bm_ld b3)" "ld_mem (bm_ld b3) = ld_mem (bm_ld b2)"
          "env_translate E (ld_pt (bm_ld b3)) (?p * 4096) = Some (f * 4096, {PRESENT, WRITABLE})" "bm_l4 b3 = bm_l4 b2" "bm_cpu b3 = bm_cpu b2"
        have "keeps E mappable entry {?p} (bm_ld b) (bm_ld b3)" by (rule keeps_trans [OF b2(1) b3(1)]) simp
        moreover have "f \<notin> usable (ld_map (bm_ld b3))" by (rule keeps_usableD [OF b3(1) f(2)])
        ultimately show "?Q (?p * 4096) b3" using i b1 b2 b3 f(1) by (intro exI [of _ i] exI [of _ f]) simp
      qed
    qed
  qed
  then show ?thesis by simp
qed

lemma write_bytes_page:
  assumes "env_translate E (ld_pt s) (p * 4096) = Some (f * 4096, fl)" and "x + length bs \<le> 4096"
  shows "write_bytes E (p * 4096 + x) bs s = Inr (s\<lparr>ld_mem := written (f * 4096 + x) bs (ld_mem s)\<rparr>)"
  using assms
proof (induction bs arbitrary: x s)
  case Nil
  have "written a [] mem = mem" for a mem by (simp add: written_def fun_eq_iff)
  then show ?case by simp
next
  case (Cons c bs)
  have "phys_of E (ld_pt s) (p * 4096 + x) = Some (f * 4096 + x)" using Cons.prems by (simp add: phys_of_def)
  moreover define s1 where "s1 = s\<lparr>ld_mem := (ld_mem s)(f * 4096 + x := c)\<rparr>"
  ultimately have "write_bytes E (p * 4096 + x) (c # bs) s = write_bytes E (p * 4096 + (x + 1)) bs s1" by simp
  also have "\<dots> = Inr (s1\<lparr>ld_mem := written (f * 4096 + (x + 1)) bs (ld_mem s1)\<rparr>)"
    using Cons.prems by (intro Cons.IH) (simp_all add: s1_def)
  also have "ld_mem s1 = (ld_mem s)(f * 4096 + x := c)" by (simp add: s1_def)
  finally show ?case unfolding add.assoc [symmetric] written_Cons by (simp add: s1_def)
qed

subsection \<open>Leaving\<close>

abbreviation keeps_pages :: "u64 set \<Rightarrow> 'pt loader \<Rightarrow> 'pt loader \<Rightarrow> bool" where
  "keeps_pages \<equiv> keeps E mappable (\<lambda>_ _. ())"

lemma recursive_addr_page: "i < 256 \<Longrightarrow> page_containing (env_x86 E) (recursive_addr B i) = recursive_addr B i"
proof -
  assume "i < 256"
  then have "recursive_addr B i = (i * 2 ^ 27 + i * 2 ^ 18 + i * 2 ^ 9 + i) * 4096" by (simp add: recursive_addr_def from_indices)
  then show ?thesis by (simp only: page_number nonzero_mult_div_cancel_right [OF zero_neq_numeral [symmetric]])
qed

lemma boots_drop_recursive:
  assumes "sound (ld_map (bm_ld b))" and "be_recursive_new B (recursive_addr B i) (ld_pt (bm_ld b))" and "i < 256"
  shows "boots B 0 (drop_recursive B (recursive_addr B i)) b
    (\<lambda>_ b'. bm_cpu b' = bm_cpu b \<and> ld_map (bm_ld b') = ld_map (bm_ld b) \<and> ld_mem (bm_ld b') = ld_mem (bm_ld b) \<and>
       keeps_pages (entry_pages i) (bm_ld b) (bm_ld b') \<and>
       (\<forall>page. page div 2 ^ 39 \<noteq> i \<longrightarrow> translate_2m (ld_pt (bm_ld b')) page = translate_2m (ld_pt (bm_ld b)) page))"
proof -
  obtain f pt' where u: "env_unmap E (recursive_addr B i) (ld_pt (bm_ld b)) = (Inr f, pt')"
    "\<And>page. page div 2 ^ 39 \<noteq> i \<Longrightarrow> env_translate E pt' page = env_translate E (ld_pt (bm_ld b)) page"
    "\<And>page. page div 2 ^ 39 \<noteq> i \<Longrightarrow> translate_2m pt' page = translate_2m (ld_pt (bm_ld b)) page"
    "\<And>page. page div 2 ^ 39 \<noteq> i \<Longrightarrow> mappable (ld_pt (bm_ld b)) page \<Longrightarrow> mappable pt' page"
    using recursive_unmap [OF assms(3,2)] by blast
  let ?s = "(bm_ld b)\<lparr>ld_pt := pt'\<rparr>"
  have page: "q * 4096 div 2 ^ 39 \<noteq> i" if "q \<notin> entry_pages i" for q
    using that unfolding entry_pages_def level4_of_page by blast
  have "keeps_pages (entry_pages i) (bm_ld b) ?s"
    by (rule keepsI) (use assms(1) in \<open>simp_all add: u(2) [OF page] u(4) [OF page]\<close>)
  then show ?thesis
    using u(1,3) by (intro boots_return [where x = "()" and b' = "b\<lparr>bm_ld := ?s\<rparr>"])
      (simp_all add: drop_recursive_def recursive_addr_page [OF assms(3)])
qed

lemma boots_leave:
  fixes bld :: boot_build
  assumes sd: "sound (ld_map (bm_ld b))" and rec: "be_recursive_new B (recursive_addr B i) (ld_pt (bm_ld b))" "i < 256"
    and page: "env_translate E (ld_pt (bm_ld b)) (p * 4096) = Some (fb * 4096, fl)" and len: "length (be_layout B bi) \<le> 4096"
  defines "s1 \<equiv> (bm_ld b)\<lparr>ld_mem := written (fb * 4096) (be_layout B bi) (ld_mem (bm_ld b))\<rparr>"
    and "R \<equiv> if recursive_page_table (bld_features bld) then {} else entry_pages i"
  shows "boots B 0 (leave_bootloader B bld (recursive_addr B i) (p * 4096) bi) b
    (\<lambda>_ b'. bm_cpu b' = (if bld_sse bld then enable_sse else id) (enable_write_protect_bit (bm_cpu b)) \<and>
       ld_map (bm_ld b') = ld_map (bm_ld b) \<and> ld_mem (bm_ld b') = ld_mem s1 \<and> keeps_pages R s1 (bm_ld b') \<and>
       (\<forall>page. page div 2 ^ 39 \<noteq> i \<longrightarrow> translate_2m (ld_pt (bm_ld b')) page = translate_2m (ld_pt (bm_ld b)) page) \<and>
       (recursive_page_table (bld_features bld) \<longrightarrow> be_recursive_new B (recursive_addr B i) (ld_pt (bm_ld b'))))"
    (is "boots B 0 _ b ?Q")
proof -
  let ?b1 = "b\<lparr>bm_ld := s1\<rparr>" and ?b2 = "b\<lparr>bm_ld := s1\<rparr>\<lparr>bm_cpu := enable_write_protect_bit (bm_cpu (b\<lparr>bm_ld := s1\<rparr>))\<rparr>"
  have w: "boots B 0 (write_boot_info B (p * 4096) bi) b (\<lambda>_ b'. b' = ?b1)"
    using write_bytes_page [OF page, of 0 "be_layout B bi"] len
    by (intro boots_return [where x = "()" and b' = ?b1]) (simp_all add: write_boot_info_def s1_def)
  have c: "boots B 0 (cpu_bm g) b' (\<lambda>_ b''. b'' = b'\<lparr>bm_cpu := g (bm_cpu b')\<rparr>)" for g b'
    by (rule boots_return [where x = "()" and b' = "b'\<lparr>bm_cpu := g (bm_cpu b')\<rparr>"]) (simp_all add: cpu_bm_def)
  have s1: "ld_map s1 = ld_map (bm_ld b)" "ld_pt s1 = ld_pt (bm_ld b)" by (simp_all add: s1_def)
  have d: "boots B 0 (if recursive_page_table (bld_features bld) then ret_bm () else drop_recursive B (recursive_addr B i)) ?b2
    (\<lambda>_ b'. bm_cpu b' = enable_write_protect_bit (bm_cpu b) \<and> ld_map (bm_ld b') = ld_map s1 \<and> ld_mem (bm_ld b') = ld_mem s1 \<and>
       keeps_pages R s1 (bm_ld b') \<and>
       (\<forall>page. page div 2 ^ 39 \<noteq> i \<longrightarrow> translate_2m (ld_pt (bm_ld b')) page = translate_2m (ld_pt (bm_ld b)) page) \<and>
       (recursive_page_table (bld_features bld) \<longrightarrow> be_recursive_new B (recursive_addr B i) (ld_pt (bm_ld b'))))"
  proof (cases "recursive_page_table (bld_features bld)")
    case True
    then show ?thesis using rec(1) sd s1 keeps_refl [of s1] by (auto simp: R_def intro!: boots_ret)
  next
    case False
    have "boots B 0 (drop_recursive B (recursive_addr B i)) ?b2
      (\<lambda>_ b'. bm_cpu b' = bm_cpu ?b2 \<and> ld_map (bm_ld b') = ld_map s1 \<and> ld_mem (bm_ld b') = ld_mem s1 \<and>
         keeps_pages (entry_pages i) s1 (bm_ld b') \<and>
         (\<forall>page. page div 2 ^ 39 \<noteq> i \<longrightarrow> translate_2m (ld_pt (bm_ld b')) page = translate_2m (ld_pt s1) page))"
      using boots_drop_recursive [of ?b2 i] sd rec s1 by simp
    then show ?thesis using False s1(2) by (simp add: R_def)
  qed
  have "boots B (0 + (0 + (0 + 0))) (leave_bootloader B bld (recursive_addr B i) (p * 4096) bi) b ?Q"
    unfolding leave_bootloader_def
  proof (rule boots_bind [OF w], hypsubst, rule boots_bind [OF c], hypsubst, rule boots_bind [OF d], rule boots_weaken [OF c], elim conjE, hypsubst)
  qed (use s1(1) in simp)
  then show ?thesis by simp
qed

subsection \<open>Loading the kernel\<close>

lemma kernel_elf_pages:
  assumes "0 < kernel_size P" and "kernel_start P + kernel_size P \<le> 2 ^ 39"
  shows "virt_addr_new (env_x86 E) (kernel_start P) = Inr (kernel_start P)"
    and "bind_rust (virt_add (env_x86 E) (kernel_start P) (kernel_size P)) (\<lambda>a. virt_sub (env_x86 E) a 1) = Inr (kernel_start P + kernel_size P - 1)"
    and "large_pages (page_containing_2m (env_x86 E) (kernel_start P)) (page_containing_2m (env_x86 E) (kernel_start P + kernel_size P - 1)) =
      map (\<lambda>n. n * 2 ^ 21) [kernel_start P div 2 ^ 21 ..< Suc ((kernel_start P + kernel_size P - 1) div 2 ^ 21)]"
proof -
  have "kernel_start P + kernel_size P < virt_bound" using assms(2) by (simp add: virt_bound_def)
  then show "virt_addr_new (env_x86 E) (kernel_start P) = Inr (kernel_start P)"
    "bind_rust (virt_add (env_x86 E) (kernel_start P) (kernel_size P)) (\<lambda>a. virt_sub (env_x86 E) a 1) = Inr (kernel_start P + kernel_size P - 1)"
    using virt_valid virt_add_valid virt_sub_valid [of "kernel_start P + kernel_size P" 1] assms(1) by simp_all
  have "page_containing_2m (env_x86 E) a div 2 ^ 21 = a div 2 ^ 21" for a
    unfolding page_2m minus_mod_eq_div_mult by simp
  then show "large_pages (page_containing_2m (env_x86 E) (kernel_start P)) (page_containing_2m (env_x86 E) (kernel_start P + kernel_size P - 1)) =
      map (\<lambda>n. n * 2 ^ 21) [kernel_start P div 2 ^ 21 ..< Suc ((kernel_start P + kernel_size P - 1) div 2 ^ 21)]"
    by (simp only: large_pages_def)
qed

lemma elf_page_level4:
  assumes "kernel_start P + kernel_size P \<le> 2 ^ 39" and "0 < kernel_size P"
    and "n \<in> {kernel_start P div 2 ^ 21 ..< Suc ((kernel_start P + kernel_size P - 1) div 2 ^ 21)}" and "q \<in> large_page n"
  shows "level4_of q = 0"
proof -
  have "kernel_start P + kernel_size P - 1 \<le> 2 ^ 39 - 1" using assms(1) by simp
  then have "n \<le> (2 ^ 39 - 1) div 2 ^ 21" using assms(3) div_le_mono [of "kernel_start P + kernel_size P - 1" "2 ^ 39 - 1" "2 ^ 21"] by simp
  then have "n div 2 ^ 18 = 0" by simp
  then show ?thesis using large_page_level4 [OF assms(4)] by simp
qed

lemma level4_between:
  assumes "i * 2 ^ 27 \<le> q" and "q < (i + 1) * 2 ^ 27"
  shows "level4_of q = i"
  unfolding level4_of_def using assms by (intro div_nat_eqI) simp_all

text \<open>
  \<open>M\<close> are the entries of the kernel and of the temporary page. The boot information and the stack get an
  entry of their own.
\<close>

lemma boots_load_kernel_file:
  fixes P :: boot_params and b :: "'pt boot"
  defines "elf \<equiv> {kernel_start P div 2 ^ 21 ..< Suc ((kernel_start P + kernel_size P - 1) div 2 ^ 21)}"
  assumes cfg: "cfg_boot_info_address (bld_config bld) = None" "cfg_kernel_stack_address (bld_config bld) = None"
      "KERNEL_STACK_SIZE (bld_config bld) = len" "len + 2 \<le> 2 ^ 27"
    and kf: "0 < kernel_size P" "kernel_start P + kernel_size P \<le> 2 ^ 39"
    and sd: "sound (ld_map (bm_ld b))" and l4: "free_from (bm_l4 b) k" "k < 31" "spare (bm_l4 b) (ld_pt (bm_ld b))"
    and elf: "\<forall>n \<in> elf. translate_2m (ld_pt (bm_ld b)) (n * 2 ^ 21) \<noteq> None"
    and seg: "\<forall>seg \<in> set segs. segment_ok (kernel_start P) seg \<and>
        (ph_type seg = Load \<longrightarrow> file_frames (kernel_start P) seg \<inter> usable (ld_map (bm_ld b)) = {})"
      "\<forall>seg \<in> set segs. \<forall>q \<in> touched_pages seg. level4_of q \<in> M \<and> (mappable (ld_pt (bm_ld b)) (q * 4096) \<or> q div 512 \<in> elf)"
      "sorted_wrt (\<lambda>a b. touched_pages a \<inter> touched_pages b = {}) segs" "length (filter (\<lambda>seg. ph_type seg = Tls) segs) \<le> 1"
    and M: "0 \<in> M" "\<forall>j \<in> M. j < 31 \<longrightarrow> bm_l4 b ! j"
  shows "boots B (4 + (sum_list (map loading_cost segs) + 4 * len)) (load_kernel_file B bld P segs) b
    (\<lambda>r b'. \<exists>i fb R. fst r = i * 2 ^ 27 * 4096 \<and> i \<le> k \<and> \<not> bm_l4 b ! i \<and> i \<notin> M \<and> free_from (bm_l4 b') (k + 1) \<and>
       (\<forall>j < 512. \<not> bm_l4 b' ! j \<longrightarrow> \<not> bm_l4 b ! j \<and> j \<noteq> i) \<and> bm_cpu b' = bm_cpu b \<and>
       keeps E mappable entry R (bm_ld b) (bm_ld b') \<and> level4_of ` R \<subseteq> insert i M \<and>
       stack_end (snd r) = (i * 2 ^ 27 + 2 + len) * 4096 \<and> tls_segment (snd r) = tls_segment_of segs \<and>
       (\<forall>seg \<in> set segs. loaded E (kernel_start P) (usable (ld_map (bm_ld b)) - {fb}) (ld_mem (bm_ld b)) (bm_ld b') seg) \<and>
       (\<exists>g. backs E (bm_ld b') {PRESENT, WRITABLE} g (stack_pages (i * 2 ^ 27 + 1) len)) \<and>
       env_translate E (ld_pt (bm_ld b')) (i * 2 ^ 27 * 4096) = Some (fb * 4096, {PRESENT, WRITABLE}) \<and>
       fb \<in> usable (ld_map (bm_ld b)) \<and> fb \<notin> usable (ld_map (bm_ld b')))" (is "boots B _ _ b ?Q")
proof -
  let ?k = "kernel_start P" and ?R = "\<Union>n \<in> elf. large_page n" and ?T = "\<Union>seg \<in> set segs. touched_pages seg"
  let ?un = "unmap_elf B (map (\<lambda>n. n * 2 ^ 21) [?k div 2 ^ 21 ..< Suc ((?k + kernel_size P - 1) div 2 ^ 21)])"
  have R0: "level4_of ` ?R \<subseteq> {0}"
  proof (rule image_subsetI)
    fix q assume "q \<in> ?R"
    then obtain n where "n \<in> elf" "q \<in> large_page n" by blast
    then show "level4_of q \<in> {0}" using elf_page_level4 [OF kf(2,1)] unfolding elf_def by simp
  qed
  have kernel: "boots B (sum_list (map loading_cost segs) + 4 * len + 0)
      (bind_bm (expect_bm ''kernel mapping failed'' (map_kernel E ?k ((i * 2 ^ 27 + 1) * 4096) len segs)) (\<lambda>info. ret_bm (i * 2 ^ 27 * 4096, info))) b2 ?Q"
    if un: "keeps E mappable entry ?R (bm_ld b) (bm_ld b1)" "ld_mem (bm_ld b1) = ld_mem (bm_ld b)" "bm_cpu b1 = bm_cpu b"
        "ld_map (bm_ld b1) = ld_map (bm_ld b)" "\<forall>n \<in> elf. \<forall>q \<in> large_page n. mappable (ld_pt (bm_ld b1)) (q * 4096)"
      and i: "i \<le> k" "\<not> bm_l4 b ! i" "blank (entry (ld_pt (bm_ld b1)) i)"
      and b2: "free_from (bm_l4 b2) (k + 1)" "\<forall>j < 512. \<not> bm_l4 b2 ! j \<longrightarrow> \<not> bm_l4 b ! j \<and> j \<noteq> i" "bm_cpu b2 = bm_cpu b1"
        "keeps E mappable entry {i * 2 ^ 27} (bm_ld b1) (bm_ld b2)" "ld_mem (bm_ld b2) = ld_mem (bm_ld b1)"
        "env_translate E (ld_pt (bm_ld b2)) (i * 2 ^ 27 * 4096) = Some (fb * 4096, {PRESENT, WRITABLE})"
        "fb \<in> usable (ld_map (bm_ld b1))" "fb \<notin> usable (ld_map (bm_ld b2))" for i fb b1 b2
  proof -
    let ?p = "i * 2 ^ 27 + 1" and ?S = "stack_pages (i * 2 ^ 27 + 1) len"
    have iM: "i < 31" "i \<notin> M" using i(1,2) l4(2) M(2) [rule_format, of i] by auto
    note iM = iM(2,1)
    have Si: "level4_of q = i" if "q \<in> insert (i * 2 ^ 27) (insert ?p ?S)" for q
    proof (rule level4_between)
      have "q < i * 2 ^ 27 + (len + 2)" "i * 2 ^ 27 \<le> q" using that by (auto simp: stack_pages_def)
      with cfg(4) show "i * 2 ^ 27 \<le> q" "q < (i + 1) * 2 ^ 27" by simp_all
    qed
    have Ti: "level4_of q \<in> M" if "q \<in> ?T" for q using that seg(2) by blast
    have "q \<notin> insert (i * 2 ^ 27) (insert ?p ?S)" if "q \<in> ?T" for q using Si [of q] Ti [OF that] iM(1) by metis
    then have dis: "?T \<inter> insert (i * 2 ^ 27) (insert ?p ?S) = {}" unfolding disjoint_iff by blast
    have "mappable (ld_pt (bm_ld b1)) (q * 4096)" if "q \<in> ?T" for q
    proof (cases "q div 512 \<in> elf")
      case True
      then show ?thesis using un(5) by (simp add: large_page_def)
    next
      case False
      then have "q \<notin> ?R" by (simp add: large_page_def)
      moreover have "mappable (ld_pt (bm_ld b)) (q * 4096)" using that False seg(2) by blast
      ultimately show ?thesis by (rule keeps_mappableD [OF un(1)])
    qed
    then have mT: "mappable (ld_pt (bm_ld b2)) (q * 4096)" if "q \<in> ?T" for q
      using that dis by (intro keeps_mappableD [OF b2(4)]) auto
    have mS: "mappable (ld_pt (bm_ld b2)) (q * 4096)" if "q \<in> ?S" for q
    proof (rule keeps_mappableD [OF b2(4)])
      show "q \<notin> {i * 2 ^ 27}" using that by (auto simp: stack_pages_def)
      have "q * 4096 div 2 ^ 39 = i" unfolding level4_of_page using that by (intro Si) simp
      then show "mappable (ld_pt (bm_ld b1)) (q * 4096)" using blank_mappable [OF i(3)] by blast
    qed
    have us: "usable (ld_map (bm_ld b2)) \<subseteq> usable (ld_map (bm_ld b)) - {fb}"
      using b2(4,8) un(4) by (auto simp: keeps_def)
    have "(?p + 1 + len) * 4096 \<le> (i + 1) * 2 ^ 27 * 4096" using cfg(4) by simp
    also have "\<dots> < virt_bound" using iM(2) by (simp add: virt_bound_def)
    finally have fits: "(?p + 1 + len) * 4096 < virt_bound" .
    have layout: "kernel_layout mappable ?k ?p len segs (bm_ld b2)"
      unfolding kernel_layout_def
    proof (intro conjI ballI)
      fix sg assume s: "sg \<in> set segs"
      show "segment_ok ?k sg" using seg(1) s by blast
      show "ph_type sg = Load \<longrightarrow> file_frames ?k sg \<inter> usable (ld_map (bm_ld b2)) = {}" using seg(1) s us by blast
      show "touched_pages sg \<inter> insert ?p ?S = {}" using dis s by blast
      fix q assume "q \<in> touched_pages sg"
      with s show "mappable (ld_pt (bm_ld b2)) (q * 4096)" by (intro mT) blast
    qed (use keeps_soundD [OF b2(4)] seg(3,4) fits mS in simp_all)
    note mk = boots_expect [OF runs_map_kernel [OF layout], of "''kernel mapping failed''", simplified exhausted_members, OF TrueI]
    show ?thesis
    proof (rule boots_bind [OF mk], elim conjE exE, rule boots_ret)
      fix info :: memory_info and b3 :: "'pt boot" and g
      assume k3: "keeps E mappable entry (?T \<union> ?S) (bm_ld b2) (bm_ld b3)"
        and ld: "\<forall>seg \<in> set segs. loaded E ?k (usable (ld_map (bm_ld b2))) (ld_mem (bm_ld b2)) (bm_ld b3) seg"
        and st: "stack_end info = (?p + 1 + len) * 4096" "tls_segment info = tls_segment_of segs"
          "backs E (bm_ld b3) {PRESENT, WRITABLE} g ?S" "bm_l4 b3 = bm_l4 b2" "bm_cpu b3 = bm_cpu b2"
      have "keeps E mappable entry (?R \<union> ({i * 2 ^ 27} \<union> (?T \<union> ?S))) (bm_ld b) (bm_ld b3)"
        by (rule keeps_trans [OF un(1) keeps_trans [OF b2(4) k3 order_refl] order_refl])
      moreover have "level4_of ` (?R \<union> ({i * 2 ^ 27} \<union> (?T \<union> ?S))) \<subseteq> insert i M"
      proof (rule image_subsetI)
        fix q assume "q \<in> ?R \<union> ({i * 2 ^ 27} \<union> (?T \<union> ?S))"
        then consider (elf) "level4_of q \<in> level4_of ` ?R" | (seg) "q \<in> ?T" | (own) "q \<in> insert (i * 2 ^ 27) (insert ?p ?S)" by blast
        then show "level4_of q \<in> insert i M"
        proof cases
          case elf
          then have "level4_of q \<in> {0}" by (rule subsetD [OF R0])
          then show ?thesis using M(1) by simp
        qed (simp_all only: Ti Si insertI1 insertI2)
      qed
      moreover have "loaded E ?k (usable (ld_map (bm_ld b)) - {fb}) (ld_mem (bm_ld b)) (bm_ld b3) seg" if "seg \<in> set segs" for seg
        using ld that us placed_mono b2(5) un(2) unfolding loaded_def by metis
      moreover have "i * 2 ^ 27 \<notin> ?T \<union> ?S" using dis by (auto simp: stack_pages_def)
      from keeps_translateD [OF k3 this] b2(6)
      have "env_translate E (ld_pt (bm_ld b3)) (i * 2 ^ 27 * 4096) = Some (fb * 4096, {PRESENT, WRITABLE})" by (rule trans)
      moreover have "fb \<notin> usable (ld_map (bm_ld b3))" by (rule keeps_usableD [OF k3 b2(8)])
      moreover have "stack_end info = (i * 2 ^ 27 + 2 + len) * 4096" using st(1) by simp
      ultimately show "?Q (i * 2 ^ 27 * 4096, info) b3"
        using i(1,2) iM(1) b2(1,2,3,7) un(3,4) st(2-) by (intro exI) (simp only: fst_conv snd_conv, blast)
    qed
  qed
  have un: "boots B 0 ?un b
    (\<lambda>_ b'. bm_l4 b' = bm_l4 b \<and> bm_cpu b' = bm_cpu b \<and> ld_map (bm_ld b') = ld_map (bm_ld b) \<and> ld_mem (bm_ld b') = ld_mem (bm_ld b) \<and>
       keeps E mappable entry ?R (bm_ld b) (bm_ld b') \<and> (\<forall>n \<in> elf. \<forall>q \<in> large_page n. mappable (ld_pt (bm_ld b')) (q * 4096)))"
    unfolding elf_def by (rule boots_unmap_elf [OF sd elf [unfolded elf_def]])
  have "boots B (0 + (4 + (sum_list (map loading_cost segs) + 4 * len + 0))) (load_kernel_file B bld P segs) b ?Q"
    unfolding load_kernel_file_def cfg kernel_stack_page_def option.case
  proof (rule boots_lift [OF kernel_elf_pages(1) [OF kf]], rule boots_lift [OF kernel_elf_pages(2) [OF kf]],
      unfold kernel_elf_pages(3) [OF kf], rule boots_bind [OF un], elim conjE)
    fix b1 :: "'pt boot" assume b1: "bm_l4 b1 = bm_l4 b" "bm_cpu b1 = bm_cpu b" "ld_map (bm_ld b1) = ld_map (bm_ld b)" "ld_mem (bm_ld b1) = ld_mem (bm_ld b)"
      "keeps E mappable entry ?R (bm_ld b) (bm_ld b1)" "\<forall>n \<in> elf. \<forall>q \<in> large_page n. mappable (ld_pt (bm_ld b1)) (q * 4096)"
    have "i \<notin> level4_of ` ?R" if "\<not> bm_l4 b ! i" for i
    proof
      assume "i \<in> level4_of ` ?R"
      from subsetD [OF R0 this] have "i = 0" by simp
      then show False using that M by simp
    qed
    then have sp: "spare (bm_l4 b) (ld_pt (bm_ld b1))" by (intro spare_keeps [OF l4(3) b1(5)]) simp
    have "sound (ld_map (bm_ld b1))" "free_from (bm_l4 b1) k" "spare (bm_l4 b1) (ld_pt (bm_ld b1))" using sd l4(1) sp b1(1,3) by simp_all
    note info = boots_map_boot_info [OF this(1,2) l4(2) this(3), unfolded b1(1)]
    show "boots B (4 + (sum_list (map loading_cost segs) + 4 * len + 0)) (bind_bm (map_boot_info B None) (\<lambda>page.
        bind_bm (lift_bm (page_add (env_x86 E) page 1)) (\<lambda>stack_page.
          bind_bm (expect_bm ''kernel mapping failed'' (map_kernel E ?k stack_page len segs)) (\<lambda>info. ret_bm (page, info))))) b1 ?Q"
    proof (rule boots_bind [OF info], elim exE conjE, hypsubst)
      fix b2 :: "'pt boot" and i fb
      assume i: "i \<le> k" "\<not> bm_l4 b ! i"
        and b2: "free_from (bm_l4 b2) (k + 1)" "\<forall>j < 512. \<not> bm_l4 b2 ! j \<longrightarrow> \<not> bm_l4 b ! j \<and> j \<noteq> i" "bm_cpu b2 = bm_cpu b1"
          "keeps E mappable entry {i * 2 ^ 27} (bm_ld b1) (bm_ld b2)" "ld_mem (bm_ld b2) = ld_mem (bm_ld b1)"
          "env_translate E (ld_pt (bm_ld b2)) (i * 2 ^ 27 * 4096) = Some (fb * 4096, {PRESENT, WRITABLE})"
          "fb \<in> usable (ld_map (bm_ld b1))" "fb \<notin> usable (ld_map (bm_ld b2))"
      have "blank (entry (ld_pt (bm_ld b1)) i)" using sp i l4(2) by (simp add: spare_def)
      note K = kernel [OF b1(5,4,2,3,6) i this b2]
      have "page_add (env_x86 E) (i * 2 ^ 27 * 4096) 1 = Inr ((i * 2 ^ 27 + 1) * 4096)"
        using add_pages [of "i * 2 ^ 27 * 4096" 1] i(1) l4(2) by (simp add: virt_bound_def)
      then show "boots B (sum_list (map loading_cost segs) + 4 * len + 0) (bind_bm (lift_bm (page_add (env_x86 E) (i * 2 ^ 27 * 4096) 1)) (\<lambda>stack_page.
          bind_bm (expect_bm ''kernel mapping failed'' (map_kernel E ?k stack_page len segs)) (\<lambda>info. ret_bm (i * 2 ^ 27 * 4096, info)))) b2 ?Q"
        by (rule boots_lift) (rule K)
    qed
  qed
  then show ?thesis by simp
qed

subsection \<open>Physical memory\<close>

abbreviation window_maps :: "u64 \<Rightarrow> u64 \<Rightarrow> 'pt \<Rightarrow> bool" where
  "window_maps offset mem_top pt \<equiv> \<forall>j \<le> mem_top div 2 ^ 21. translate_2m pt (offset + j * 2 ^ 21) = Some (j * 2 ^ 21, {PRESENT, WRITABLE})"

lemma boots_window:
  assumes cfg: "map_physical_memory (bld_features bld)" "cfg_physical_memory_offset (bld_config bld) = None"
    and sd: "sound (ld_map (bm_ld b))" and l4: "free_from (bm_l4 b) k" "k + level4_needed mem_top \<le> 31" "spare (bm_l4 b) (ld_pt (bm_ld b))"
    and mem_top: "0 < mem_top" "mem_top < phys_bound" "mem_top < level4_needed mem_top * 2 ^ 39"
  shows "boots B (2 * Suc (mem_top div 2 ^ 21)) (map_physical_memory_at B bld mem_top) b
    (\<lambda>offset b'. bm_cpu b' = bm_cpu b \<and> ld_mem (bm_ld b') = ld_mem (bm_ld b) \<and>
       (\<exists>c R. offset = c * 2 ^ 39 \<and> entries_free (bm_l4 b) c (level4_needed mem_top) \<and> c + level4_needed mem_top \<le> 31 \<and>
          keeps E mappable entry R (bm_ld b) (bm_ld b') \<and> level4_of ` R \<subseteq> {c ..< c + level4_needed mem_top}) \<and>
       window_maps offset mem_top (ld_pt (bm_ld b')))" (is "boots B _ _ b ?Q")
proof -
  let ?n = "level4_needed mem_top" and ?hi = "Suc (mem_top div 2 ^ 21)"
  have n0: "0 < ?n" using mem_top(1) by (simp add: level4_needed_def div_greater_zero_iff)
  have hi: "?hi \<le> ?n * 2 ^ 18"
  proof -
    have "mem_top < ?n * 2 ^ 18 * 2 ^ 21" using mem_top(3) by simp
    then have "mem_top div 2 ^ 21 < ?n * 2 ^ 18" by (rule less_mult_imp_div_less)
    then show ?thesis by (rule Suc_leI)
  qed
  have sum: "u64_add (env_profile E) mem_top (LEVEL_4_SIZE - 1) = Inr (mem_top + (2 ^ 39 - 1))"
    using mem_top(2) by (simp add: u64_add_def u64_bound_def phys_bound_def LEVEL_4_SIZE_def)
  have num: "(mem_top + (2 ^ 39 - 1)) div LEVEL_4_SIZE = ?n" by (simp add: level4_needed_def LEVEL_4_SIZE_def)
  have fr: "frame_containing_2m (env_x86 E) a div 2 ^ 21 = a div 2 ^ 21" for a
    unfolding frame_2m minus_mod_eq_div_mult by simp
  have lp: "large_pages (frame_containing_2m (env_x86 E) 0) (frame_containing_2m (env_x86 E) mem_top) = map (\<lambda>n. n * 2 ^ 21) [0 ..< ?hi]"
    unfolding large_pages_def fr by simp
  have zero: "phys_addr_new (env_x86 E) 0 = Inr 0" using new_valid mem_top(2) by simp
  have phys: "boots B (2 * (?hi - 0) + 0) (bind_bm (map_physical B (c * 2 ^ 39) (map (\<lambda>n. n * 2 ^ 21) [0 ..< ?hi])) (\<lambda>_. ret_bm (c * 2 ^ 39))) b1 ?Q"
    if c: "c \<le> k" "entries_free (bm_l4 b) c ?n" and b1: "bm_ld b1 = bm_ld b" "bm_cpu b1 = bm_cpu b" for c b1
  proof -
    let ?o = "c * 2 ^ 18"
    have c31: "c + ?n \<le> 31" using c(1) l4(2) by simp
    have lvl: "(?o + j) div 2 ^ 18 \<in> {c ..< c + ?n}" if "j < ?hi" for j
    proof -
      have "j div 2 ^ 18 < ?n" using that hi by (intro less_mult_imp_div_less) linarith
      then show ?thesis by simp
    qed
    have map: "mappable_2m (ld_pt (bm_ld b1)) ((?o + j) * 2 ^ 21)" if "j \<in> {0 ..< ?hi}" for j
    proof -
      have "(?o + j) * 2 ^ 21 div (2 ^ 21 * 2 ^ 18) = (?o + j) * 2 ^ 21 div 2 ^ 21 div 2 ^ 18" by (rule div_mult2_eq)
      then have "(?o + j) * 2 ^ 21 div 2 ^ 39 = (?o + j) div 2 ^ 18" by simp
      moreover have "blank (entry (ld_pt (bm_ld b1)) ((?o + j) div 2 ^ 18))"
        using lvl [of j] that l4(3) c(2) c31 b1(1) by (simp add: spare_def entries_free_def del: power_numeral)
      ultimately show ?thesis using blank_mappable by blast
    qed
    have "(?o + ?hi) * 2 ^ 21 \<le> (c + ?n) * 2 ^ 18 * 2 ^ 21" using hi by (simp only: mult_le_mono1 add_mult_distrib add_le_mono order_refl)
    also have "\<dots> \<le> virt_bound" using c31 by (simp add: virt_bound_def)
    finally have fits: "(?o + ?hi) * 2 ^ 21 \<le> virt_bound" .
    have sd1: "sound (ld_map (bm_ld b1))" using sd b1(1) by simp
    have o: "c * 2 ^ 39 = ?o * 2 ^ 21" by simp
    note run = boots_map_physical [OF sd1 fits, of 0, OF ballI [OF map]]
    show ?thesis
      unfolding o
    proof (rule boots_bind [OF run], assumption, rule boots_ret, elim conjE, intro conjI exI [of _ c] exI)
      fix b' assume "keeps E mappable entry (\<Union>n \<in> {0 ..< ?hi}. large_page (?o + n)) (bm_ld b1) (bm_ld b')"
      then show "keeps E mappable entry (\<Union>n \<in> {0 ..< ?hi}. large_page (?o + n)) (bm_ld b) (bm_ld b')" using b1(1) by simp
      show "level4_of ` (\<Union>n \<in> {0 ..< ?hi}. large_page (?o + n)) \<subseteq> {c ..< c + ?n}"
      proof (rule image_subsetI)
        fix q assume "q \<in> (\<Union>n \<in> {0 ..< ?hi}. large_page (?o + n))"
        then obtain j where "j < ?hi" "q \<in> large_page (?o + j)" by auto
        then show "level4_of q \<in> {c ..< c + ?n}" using large_page_level4 lvl by metis
      qed
      assume w: "\<forall>n \<in> {0 ..< ?hi}. translate_2m (ld_pt (bm_ld b')) ((?o + n) * 2 ^ 21) = Some (n * 2 ^ 21, {PRESENT, WRITABLE})"
      show "window_maps (?o * 2 ^ 21) mem_top (ld_pt (bm_ld b'))"
        unfolding add_mult_distrib [symmetric] using w by (simp add: less_Suc_eq_le)
    qed (use b1 c(2) c31 in simp_all)
  qed
  have "boots B (0 + 0) (physical_offset B None mem_top) b
      (\<lambda>x b1. \<exists>c. x = c * 2 ^ 39 \<and> c \<le> k \<and> entries_free (bm_l4 b) c ?n \<and> bm_ld b1 = bm_ld b \<and> bm_cpu b1 = bm_cpu b)"
    unfolding physical_offset_def option.case
  proof (rule boots_lift [OF sum], unfold num, rule boots_bind [OF boots_free_entries [OF l4(1) n0]], goal_cases)
    case (2 c b1)
    then have "page_from_indices_1gib (env_x86 E) c 0 = c * 2 ^ 39" using l4(2) by (simp add: from_indices_1gib)
    then show ?case using 2 by (intro boots_ret) auto
  qed (use l4(2) in simp)
  note off = this [simplified add_0]
  have "boots B (0 + (2 * (?hi - 0) + 0)) (map_physical_memory_at B bld mem_top) b ?Q"
    unfolding map_physical_memory_at_def cfg(2) if_P [OF cfg(1)]
  proof (rule boots_bind [OF off], elim exE conjE, hypsubst, rule boots_lift [OF zero], rule boots_lift [OF new_valid [OF mem_top(2)]], unfold lp)
  qed (rule phys)
  then show ?thesis by simp
qed

subsection \<open>Handing over\<close>

text \<open>
  What happens after the kernel is loaded: pages under entries that were free are mapped, the boot
  information is written to frame \<open>fb\<close>, and the recursive entry \<open>r\<close> may be removed.
\<close>

definition later :: "level4 \<Rightarrow> u64 \<Rightarrow> u64 \<Rightarrow> nat list \<Rightarrow> 'pt loader \<Rightarrow> 'pt loader \<Rightarrow> bool" where
  "later st r fb bs s s' \<longleftrightarrow>
     (\<exists>s2 R R'. keeps E mappable entry R s s2 \<and> (\<forall>j \<in> level4_of ` R. j < 31 \<and> \<not> st ! j) \<and>
        keeps_pages R' (s2\<lparr>ld_mem := written (fb * 4096) bs (ld_mem s2)\<rparr>) s' \<and> length bs \<le> 4096 \<and> R' \<subseteq> entry_pages r)"

lemma later_pages:
  assumes "later st r fb bs s s'" and "\<forall>q \<in> Q. level4_of q \<noteq> r \<and> (level4_of q < 31 \<longrightarrow> st ! level4_of q)"
  obtains s2 R R' where "keeps E mappable entry R s s2" and "Q \<inter> R = {}"
    and "keeps_pages R' (s2\<lparr>ld_mem := written (fb * 4096) bs (ld_mem s2)\<rparr>) s'" and "Q \<inter> R' = {}" and "length bs \<le> 4096"
proof -
  obtain s2 R R' where r: "keeps E mappable entry R s s2" "\<forall>j \<in> level4_of ` R. j < 31 \<and> \<not> st ! j"
    "keeps_pages R' (s2\<lparr>ld_mem := written (fb * 4096) bs (ld_mem s2)\<rparr>) s'" "length bs \<le> 4096" "R' \<subseteq> entry_pages r"
    using assms(1) unfolding later_def by blast
  have "q \<notin> R \<and> q \<notin> R'" if "q \<in> Q" for q
    using bspec [OF assms(2) that] bspec [OF r(2) imageI, of q] subsetD [OF r(5), of q] by (auto simp: entry_pages_def)
  then have "Q \<inter> R = {}" "Q \<inter> R' = {}" by blast+
  with r that show thesis by blast
qed

lemma later_loaded:
  assumes "later st r fb bs s s'" and "loaded E k A mem s seg" and "fb \<notin> file_frames k seg \<union> A"
    and "\<forall>q \<in> touched_pages seg. level4_of q \<noteq> r \<and> (level4_of q < 31 \<longrightarrow> st ! level4_of q)"
    and "ph_type seg = Load \<longrightarrow> ph_file_size seg \<le> ph_mem_size seg"
  shows "loaded E k A mem s' seg"
proof (rule later_pages [OF assms(1,4)])
  fix s2 R R' assume r: "keeps E mappable entry R s s2" "touched_pages seg \<inter> R = {}"
    "keeps_pages R' (s2\<lparr>ld_mem := written (fb * 4096) bs (ld_mem s2)\<rparr>) s'" "touched_pages seg \<inter> R' = {}" "length bs \<le> 4096"
  have "loaded E k A mem s2 seg" by (rule loaded_keeps [OF assms(2) r(1,2) assms(5)])
  from loaded_keeps [OF loaded_written [OF this r(5) assms(3,5)] r(3,4) assms(5)] show ?thesis .
qed

lemma later_backs:
  assumes "later st r fb bs s s'" and "backs E s fl g Q"
    and "\<forall>q \<in> Q. level4_of q \<noteq> r \<and> (level4_of q < 31 \<longrightarrow> st ! level4_of q)"
  shows "backs E s' fl g Q"
proof (rule later_pages [OF assms(1,3)])
  fix s2 R R' assume r: "keeps E mappable entry R s s2" "Q \<inter> R = {}"
    "keeps_pages R' (s2\<lparr>ld_mem := written (fb * 4096) bs (ld_mem s2)\<rparr>) s'" "Q \<inter> R' = {}"
  have "backs E s2 fl g Q" by (rule backs_keeps [OF assms(2) r(1,2)])
  then have "backs E (s2\<lparr>ld_mem := written (fb * 4096) bs (ld_mem s2)\<rparr>) fl g Q" by (simp add: backs_def)
  from backs_keeps [OF this r(3,4)] show ?thesis .
qed

lemma later_mappable:
  assumes "later st r fb bs s s'" and "mappable (ld_pt s) (q * 4096)" and "level4_of q \<noteq> r" and "level4_of q < 31 \<longrightarrow> st ! level4_of q"
  shows "mappable (ld_pt s') (q * 4096)"
proof -
  have "\<forall>q \<in> {q}. level4_of q \<noteq> r \<and> (level4_of q < 31 \<longrightarrow> st ! level4_of q)" using assms(3,4) by simp
  then obtain s2 R R' where r: "keeps E mappable entry R s s2" "{q} \<inter> R = {}"
    "keeps_pages R' (s2\<lparr>ld_mem := written (fb * 4096) bs (ld_mem s2)\<rparr>) s'" "{q} \<inter> R' = {}"
    by (rule later_pages [OF assms(1)])
  show ?thesis using keeps_mappableD [OF r(3), of q] keeps_mappableD [OF r(1), of q] r(2,4) assms(2) by simp
qed

lemma later_sound: "later st r fb bs s s' \<Longrightarrow> sound (ld_map s')"
  unfolding later_def keeps_def by blast

lemma later_usable: "later st r fb bs s s' \<Longrightarrow> usable (ld_map s') \<subseteq> usable (ld_map s)"
  unfolding later_def keeps_def by auto

lemma later_info:
  assumes "later st r fb bs s s'" and "env_translate E (ld_pt s) (p * 4096) = Some (fb * 4096, fl)" and "fb \<notin> usable (ld_map s)"
    and "level4_of p \<noteq> r" and "level4_of p < 31 \<longrightarrow> st ! level4_of p" and "i < length bs"
  shows "stored E s' (p * 4096 + i) (bs ! i)"
proof -
  have "\<forall>q \<in> {p}. level4_of q \<noteq> r \<and> (level4_of q < 31 \<longrightarrow> st ! level4_of q)" using assms(4,5) by simp
  then obtain s2 R R' where r: "keeps E mappable entry R s s2" "{p} \<inter> R = {}"
    "keeps_pages R' (s2\<lparr>ld_mem := written (fb * 4096) bs (ld_mem s2)\<rparr>) s'" "{p} \<inter> R' = {}" "length bs \<le> 4096"
    by (rule later_pages [OF assms(1)])
  let ?s = "s2\<lparr>ld_mem := written (fb * 4096) bs (ld_mem s2)\<rparr>"
  have i: "i < 4096" using assms(6) r(5) by simp
  have "env_translate E (ld_pt s2) (p * 4096) = Some (fb * 4096, fl)" using keeps_translateD [OF r(1), of p] r(2) assms(2) by simp
  then have "phys_of E (ld_pt ?s) (p * 4096 + i) = Some (fb * 4096 + i)" using i by (simp add: phys_of_def)
  moreover have "ld_mem ?s (fb * 4096 + i) = bs ! i" using assms(6) by (simp add: written_def)
  moreover have "(fb * 4096 + i) div 4096 \<notin> usable (ld_map ?s)" using keeps_usableD [OF r(1) assms(3)] i by simp
  ultimately have "stored E ?s (p * 4096 + i) (bs ! i)" by (simp add: stored_def)
  moreover have "(p * 4096 + i) div 4096 \<notin> R'" using r(4) i by simp
  ultimately show ?thesis by (rule stored_keeps [OF _ r(3)])
qed

abbreviation window_cost :: "boot_build \<Rightarrow> u64 \<Rightarrow> nat" where
  "window_cost bld mem_top \<equiv> if map_physical_memory (bld_features bld) then 2 * Suc (mem_top div 2 ^ 21) else 0"

lemma boots_hand_over:
  fixes bld :: boot_build and info :: memory_info and b :: "'pt boot"
  assumes cfg: "cfg_physical_memory_offset (bld_config bld) = None" and ep: "entry_point < virt_bound"
    and lay: "\<And>bi. length (be_layout B bi) \<le> 4096"
    and sd: "sound (ld_map (bm_ld b))" and l4: "free_from (bm_l4 b) k" "k + level4_needed mem_top \<le> 31" "spare (bm_l4 b) (ld_pt (bm_ld b))"
    and mem_top: "0 < mem_top" "mem_top < phys_bound" "mem_top < level4_needed mem_top * 2 ^ 39"
    and rec: "be_recursive_new B (recursive_addr B r) (ld_pt (bm_ld b))" "r < 31" "bm_l4 b ! r"
    and pg: "env_translate E (ld_pt (bm_ld b)) (p * 4096) = Some (fb * 4096, fl)" "level4_of p < 31" "bm_l4 b ! level4_of p"
  shows "boots B (window_cost bld mem_top) (hand_over B bld mem_top entry_point (recursive_addr B r) (p * 4096) info) b
    (\<lambda>ho b'. ho_state ho = b' \<and> ho_boot_info_addr ho = p * 4096 \<and> ho_entry_point ho = entry_point \<and>
       ho_stack_pointer ho = stack_end info \<and>
       bm_cpu b' = (if bld_sse bld then enable_sse else id) (enable_write_protect_bit (bm_cpu b)) \<and>
       later (bm_l4 b) r fb (be_layout B (ho_boot_info ho)) (bm_ld b) (bm_ld b') \<and>
       (recursive_page_table (bld_features bld) \<longrightarrow> be_recursive_new B (recursive_addr B r) (ld_pt (bm_ld b'))) \<and>
       (\<exists>offset. ho_boot_info ho = make_boot_info B bld (ld_map (bm_ld b')) (tls_segment info) (recursive_addr B r) offset \<and>
          (map_physical_memory (bld_features bld) \<longrightarrow> window_maps offset mem_top (ld_pt (bm_ld b')) \<and>
             (\<exists>c < 31. offset = c * 2 ^ 39 \<and> \<not> bm_l4 b ! c))))"
    (is "boots B _ _ b ?Q")
proof -
  let ?R' = "if recursive_page_table (bld_features bld) then {} else entry_pages r"
  have window: "boots B (window_cost bld mem_top) (map_physical_memory_at B bld mem_top) b
    (\<lambda>offset b2. bm_cpu b2 = bm_cpu b \<and> (\<exists>R. keeps E mappable entry R (bm_ld b) (bm_ld b2) \<and> (\<forall>j \<in> level4_of ` R. j < 31 \<and> \<not> bm_l4 b ! j)) \<and>
       (map_physical_memory (bld_features bld) \<longrightarrow> window_maps offset mem_top (ld_pt (bm_ld b2)) \<and>
          (\<forall>j \<le> mem_top div 2 ^ 21. (offset + j * 2 ^ 21) div 2 ^ 39 \<noteq> r) \<and> (\<exists>c < 31. offset = c * 2 ^ 39 \<and> \<not> bm_l4 b ! c)))"
  proof (cases "map_physical_memory (bld_features bld)")
    case False
    then show ?thesis using keeps_refl [OF sd] by (auto simp: map_physical_memory_at_def intro!: boots_ret exI [of _ "{}"])
  next
    case True
    note w = boots_window [OF True cfg sd l4 mem_top]
    show ?thesis
      unfolding if_P [OF True]
    proof (rule boots_weaken [OF w], elim conjE exE, intro conjI impI)
      fix offset c R and b2 :: "'pt boot"
      assume R: "keeps E mappable entry R (bm_ld b) (bm_ld b2)" "level4_of ` R \<subseteq> {c ..< c + level4_needed mem_top}"
        and c: "offset = c * 2 ^ 39" "entries_free (bm_l4 b) c (level4_needed mem_top)" "c + level4_needed mem_top \<le> 31"
      have free: "j < 31 \<and> \<not> bm_l4 b ! j" if "j \<in> {c ..< c + level4_needed mem_top}" for j
        using that c(2,3) by (auto simp: entries_free_def)
      then show "\<exists>R. keeps E mappable entry R (bm_ld b) (bm_ld b2) \<and> (\<forall>j \<in> level4_of ` R. j < 31 \<and> \<not> bm_l4 b ! j)"
        using R by blast
      have "0 < level4_needed mem_top" using mem_top(3) by (cases "level4_needed mem_top") simp_all
      then show "\<exists>c < 31. offset = c * 2 ^ 39 \<and> \<not> bm_l4 b ! c" using free [of c] c(1) by (intro exI [of _ c]) simp
      show "\<forall>j \<le> mem_top div 2 ^ 21. (offset + j * 2 ^ 21) div 2 ^ 39 \<noteq> r"
      proof (intro allI impI)
        fix j assume "j \<le> mem_top div 2 ^ 21"
        then have "j * 2 ^ 21 \<le> mem_top" using div_times_less_eq_dividend [of mem_top "2 ^ 21"] mult_le_mono1 order_trans by blast
        then have lt: "j * 2 ^ 21 div 2 ^ 39 < level4_needed mem_top" using mem_top(3) by (intro less_mult_imp_div_less) linarith
        have "(offset + j * 2 ^ 21) div 2 ^ 39 = c + j * 2 ^ 21 div 2 ^ 39"
          unfolding c(1) by (simp only: div_mult_self3 [OF power_not_zero [OF zero_neq_numeral [symmetric]]])
        then have "(offset + j * 2 ^ 21) div 2 ^ 39 \<in> {c ..< c + level4_needed mem_top}" using lt by simp
        with free rec(3) show "(offset + j * 2 ^ 21) div 2 ^ 39 \<noteq> r" by metis
      qed
    qed simp_all
  qed
  have r256: "r < 256" using rec(2) by simp
  have "boots B (window_cost bld mem_top + (0 + 0)) (hand_over B bld mem_top entry_point (recursive_addr B r) (p * 4096) info) b ?Q"
    unfolding hand_over_def
  proof (rule boots_bind [OF window], elim conjE exE)
    fix offset R and b2 :: "'pt boot"
    assume b2: "bm_cpu b2 = bm_cpu b" "keeps E mappable entry R (bm_ld b) (bm_ld b2)" "\<forall>j \<in> level4_of ` R. j < 31 \<and> \<not> bm_l4 b ! j"
      and w: "map_physical_memory (bld_features bld) \<longrightarrow> window_maps offset mem_top (ld_pt (bm_ld b2)) \<and>
        (\<forall>j \<le> mem_top div 2 ^ 21. (offset + j * 2 ^ 21) div 2 ^ 39 \<noteq> r) \<and> (\<exists>c < 31. offset = c * 2 ^ 39 \<and> \<not> bm_l4 b ! c)"
    define bi where "bi = make_boot_info B bld (ld_map (bm_ld b2)) (tls_segment info) (recursive_addr B r) offset"
    have rR: "r \<notin> level4_of ` R" using b2(3) rec(3) by blast
    have pR: "p \<notin> R" using b2(3) pg(3) by blast
    have rec2: "be_recursive_new B (recursive_addr B r) (ld_pt (bm_ld b2))"
      by (rule recursive_same [OF r256 rec(1) keeps_entryD [OF b2(2) rR]])
    have pg2: "env_translate E (ld_pt (bm_ld b2)) (p * 4096) = Some (fb * 4096, fl)" using keeps_translateD [OF b2(2) pR] pg(1) by simp
    note leave = boots_leave [OF keeps_soundD [OF b2(2)] rec2 r256 pg2 lay [of bi], of bld]
    have "boots B (0 + 0) (bind_bm (leave_bootloader B bld (recursive_addr B r) (p * 4096) bi) (\<lambda>_.
        bind_bm (lift_bm (virt_addr_new (env_x86 E) entry_point)) (\<lambda>entry b3.
          Inr (\<lparr>ho_boot_info_addr = p * 4096, ho_entry_point = entry, ho_stack_pointer = stack_end info, ho_boot_info = bi, ho_state = b3\<rparr>, b3)))) b2 ?Q"
    proof (rule boots_bind [OF leave], rule boots_lift [OF virt_valid [OF ep]], elim conjE)
      fix b3 :: "'pt boot"
      assume b3: "bm_cpu b3 = (if bld_sse bld then enable_sse else id) (enable_write_protect_bit (bm_cpu b2))" "ld_map (bm_ld b3) = ld_map (bm_ld b2)"
        "keeps_pages ?R' ((bm_ld b2)\<lparr>ld_mem := written (fb * 4096) (be_layout B bi) (ld_mem (bm_ld b2))\<rparr>) (bm_ld b3)"
        "\<forall>page. page div 2 ^ 39 \<noteq> r \<longrightarrow> translate_2m (ld_pt (bm_ld b3)) page = translate_2m (ld_pt (bm_ld b2)) page"
        "recursive_page_table (bld_features bld) \<longrightarrow> be_recursive_new B (recursive_addr B r) (ld_pt (bm_ld b3))"
      have "?R' \<subseteq> entry_pages r" by simp
      then have later: "later (bm_l4 b) r fb (be_layout B bi) (bm_ld b) (bm_ld b3)"
        unfolding later_def using b2(2,3) b3(3) lay [of bi] by blast
      have "window_maps offset mem_top (ld_pt (bm_ld b3)) \<and> (\<exists>c < 31. offset = c * 2 ^ 39 \<and> \<not> bm_l4 b ! c)"
        if "map_physical_memory (bld_features bld)"
        using w that b3(4) by simp
      then show "boots B 0 (\<lambda>b3. Inr (\<lparr>ho_boot_info_addr = p * 4096, ho_entry_point = entry_point, ho_stack_pointer = stack_end info, ho_boot_info = bi, ho_state = b3\<rparr>, b3)) b3 ?Q"
        using b2(1) b3(1,2,5) later by (intro boots_return [where b' = b3]) (auto simp: bi_def)
    qed
    then show "boots B (0 + 0) (\<lambda>b2. let bi = make_boot_info B bld (ld_map (bm_ld b2)) (tls_segment info) (recursive_addr B r) offset
       in bind_bm (leave_bootloader B bld (recursive_addr B r) (p * 4096) bi) (\<lambda>_.
            bind_bm (lift_bm (virt_addr_new (env_x86 E) entry_point)) (\<lambda>entry b3.
              Inr (\<lparr>ho_boot_info_addr = p * 4096, ho_entry_point = entry, ho_stack_pointer = stack_end info, ho_boot_info = bi, ho_state = b3\<rparr>, b3))) b2) b2 ?Q"
      by (rule boots_cong [rotated]) (simp only: bi_def Let_def)
  qed
  then show ?thesis by simp
qed

end

end
