(* ===== verification/BootLoader.thy ===== *)
theory BootLoader
  imports BootCorrect
begin

text \<open>
  What the bootloader's last stage hands to the kernel, as one theorem about \<^verbatim>\<open>bootloader_main\<close>, and an
  instance of the machine it runs on.
\<close>

subsection \<open>Specification\<close>

text \<open>The large pages of the kernel file, and the entries of the top-level table that the kernel uses.\<close>

definition elf_pages :: "boot_params \<Rightarrow> u64 set" where
  "elf_pages P = {kernel_start P div 2 ^ 21 ..< Suc ((kernel_start P + kernel_size P - 1) div 2 ^ 21)}"

definition kernel_entries :: "program_header list \<Rightarrow> u64 set" where
  "kernel_entries segs =
     {i. i = 0 \<or> (\<exists>seg \<in> set segs. ph_virtual_addr seg div 2 ^ 39 \<le> i \<and> i \<le> (ph_virtual_addr seg + ph_mem_size seg) div 2 ^ 39)}"

text \<open>
  The kernel file and the address space it is loaded into: segments as a linker lays them out, within the
  file and below entry \<open>K\<close>, on pages that are free or belong to the identity mapping of the file, and enough
  blank entries below the one of the temporary page.
\<close>

definition boot_ready ::
  "('pt \<Rightarrow> u64 \<Rightarrow> bool) \<Rightarrow> ('pt \<Rightarrow> u64 \<Rightarrow> 'sub) \<Rightarrow> ('sub \<Rightarrow> bool) \<Rightarrow> ('pt \<Rightarrow> u64 \<Rightarrow> (u64 \<times> page_flags) option) \<Rightarrow>
   boot_params \<Rightarrow> program_header list \<Rightarrow> u64 \<Rightarrow> u64 \<Rightarrow> u64 \<Rightarrow> 'pt \<Rightarrow> bool" where
  "boot_ready mappable entry blank translate_2m P segs len mem_top K pt \<longleftrightarrow>
     0 < K \<and> K + 2 + level4_needed mem_top \<le> 31 \<and> mem_top mod 2 ^ 39 \<noteq> 0 \<and> len + 2 \<le> 2 ^ 27 \<and>
     kernel_start P + kernel_size P \<le> 2 ^ 39 \<and>
     (\<forall>i \<in> elf_pages P. translate_2m pt (i * 2 ^ 21) \<noteq> None) \<and>
     (\<forall>seg \<in> set segs. ph_virtual_addr seg + ph_mem_size seg < K * 2 ^ 39 \<and> segment_ok (kernel_start P) seg \<and>
        (ph_type seg = Load \<longrightarrow> ph_offset seg + ph_file_size seg \<le> kernel_size P) \<and>
        (\<forall>q \<in> touched_pages seg. mappable pt (q * 4096) \<or> q div 512 \<in> elf_pages P)) \<and>
     sorted_wrt (\<lambda>a b. touched_pages a \<inter> touched_pages b = {}) segs \<and>
     length (filter (\<lambda>seg. ph_type seg = Tls) segs) \<le> 1 \<and> length segs \<le> 32 \<and>
     (\<forall>i < 31. i \<notin> kernel_entries segs \<longrightarrow> blank (entry pt i))"

text \<open>
  What the kernel gets. \<open>pt\<close>, \<open>mem\<close> and \<open>c\<close> are the page table, the memory and the registers at the start of
  the stage, \<open>m\<close> the map built from the table of the BIOS.
\<close>

definition handed_over ::
  "'pt boot_env \<Rightarrow> ('pt \<Rightarrow> u64 \<Rightarrow> bool) \<Rightarrow> ('pt \<Rightarrow> u64 \<Rightarrow> (u64 \<times> page_flags) option) \<Rightarrow> boot_build \<Rightarrow> boot_params \<Rightarrow> u64 \<Rightarrow>
   program_header list \<Rightarrow> memory_map \<Rightarrow> cpu \<Rightarrow> 'pt \<Rightarrow> (u64 \<Rightarrow> nat) \<Rightarrow> 'pt handover \<Rightarrow> bool" where
  "handed_over B mappable translate_2m bld P entry_point segs m c pt mem ho \<longleftrightarrow>
     (let E = be_loader B; s = bm_ld (ho_state ho); bi = ho_boot_info ho; len = KERNEL_STACK_SIZE (bld_config bld) in
        ho_entry_point ho = entry_point \<and>
        (\<forall>seg \<in> set segs. loaded E (kernel_start P) (usable m) mem s seg) \<and>
        (\<exists>p g. ho_stack_pointer ho = (p + 1 + len) * 4096 \<and> p + 1 + len \<le> 31 * 2 ^ 27 \<and> backs E s {PRESENT, WRITABLE} g (stack_pages p len)) \<and>
        (\<forall>i < length (be_layout B bi). stored E s (ho_boot_info_addr ho + i) (be_layout B bi ! i)) \<and>
        sound (ld_map s) \<and> sound (bi_memory_map bi) \<and> usable (bi_memory_map bi) = usable (ld_map s) \<and>
        (\<forall>f \<in> usable (bi_memory_map bi). f \<in> usable m \<and> (\<forall>x \<in> set (used_areas P). \<not> in_area f x)) \<and>
        bi_tls_template bi =
          (case tls_segment_of segs of None \<Rightarrow> \<lparr>tls_start_addr = 0, tls_file_size = 0, tls_mem_size = 0\<rparr> | Some t \<Rightarrow> t) \<and>
        (map_physical_memory (bld_features bld) \<longrightarrow>
           (\<exists>offset. bi_physical_memory_offset bi = Some offset \<and> offset mod 2 ^ 39 = 0 \<and> 2 ^ 39 \<le> offset \<and> offset < 31 * 2 ^ 39 \<and>
              (\<forall>j \<le> top_of m div 2 ^ 21. translate_2m (ld_pt s) (offset + j * 2 ^ 21) = Some (j * 2 ^ 21, {PRESENT, WRITABLE})))) \<and>
        (recursive_page_table (bld_features bld) \<longrightarrow>
           (\<exists>r < 31. bi_recursive_page_table_addr bi = Some (recursive_addr B r) \<and>
              be_recursive_new B (recursive_addr B r) (ld_pt s))) \<and>
        (\<forall>q. 32 \<le> level4_of q \<and> mappable pt (q * 4096) \<longrightarrow> mappable (ld_pt s) (q * 4096)) \<and>
        bm_cpu (ho_state ho) = (if bld_sse bld then enable_sse else id) (enable_write_protect_bit (enable_nxe_bit c)))"

definition boot_cost :: "boot_build \<Rightarrow> program_header list \<Rightarrow> u64 \<Rightarrow> nat" where
  "boot_cost bld segs mem_top =
     4 + (sum_list (map loading_cost segs) + 4 * KERNEL_STACK_SIZE (bld_config bld)) +
     (if map_physical_memory (bld_features bld) then 2 * Suc (mem_top div 2 ^ 21) else 0)"

subsection \<open>Lemmas\<close>

lemma create_from_sound:
  assumes "region_sort srt" and "\<forall>e \<in> set es. e820_ok e" and "length es \<le> max_memory_map_size" and "create_from srt p es = Inr m"
  shows "sound m"
proof (rule region_sort.create_from_result [OF assms(1-3), of p])
  fix m' rs assume "create_from srt p es = Inr m'" "mm_wf m'" "mm_deref m' = trim_usable rs" "sorted_wrt region_before rs"
  then show ?thesis using trim_sole [of rs] assms(4) by (simp add: sound_def sole_usable_def owners_def)
qed

lemma collect_segments_64: "length xs + length segs \<le> 32 \<Longrightarrow> collect_segments (map Ph64 segs) xs = Inr (xs @ segs)"
  by (induction segs arbitrary: xs) simp_all

lemma touched_level4:
  assumes "segment_ok k seg" and "q \<in> touched_pages seg"
  shows "level4_of q = 31 \<or> ph_virtual_addr seg div 2 ^ 39 \<le> level4_of q \<and> level4_of q \<le> (ph_virtual_addr seg + ph_mem_size seg) div 2 ^ 39"
proof -
  let ?v = "ph_virtual_addr seg" and ?e = "ph_virtual_addr seg + ph_mem_size seg"
  have l: "ph_type seg = Load" using assms(2) by (auto simp: touched_pages_def split: if_splits)
  then have le: "ph_file_size seg \<le> ph_mem_size seg" using assms(1) by (simp add: segment_ok_def)
  consider "q = TEMP_PAGE div 4096" | "?v div 4096 \<le> q" "q \<le> ?e div 4096"
  proof (cases "q \<in> segment_pages seg")
    case False
    then have "q \<in> bss_temp seg" using assms(2) l by (simp add: touched_pages_def)
    then show ?thesis using that(1) by (auto simp: bss_temp_def split: if_splits)
  next
    case True
    have "q \<le> ?e div 4096" if "q < (?v + ph_file_size seg + 4095) div 4096"
    proof -
      have "q + 1 \<le> (?v + ph_file_size seg + 4095) div 4096" using that by simp
      then have "(q + 1) * 4096 \<le> (?v + ph_file_size seg + 4095) div 4096 * 4096" by (rule mult_le_mono1)
      also have "\<dots> \<le> ?v + ph_file_size seg + 4095" by (rule div_times_less_eq_dividend)
      finally have "(q + 1) * 4096 \<le> ?v + ph_file_size seg + 4095" .
      then have "q * 4096 \<le> ?e" using le by simp
      then show ?thesis using div_le_mono [of "q * 4096" ?e 4096] by simp
    qed
    then show ?thesis using True that(2) by (auto simp: segment_pages_def file_pages_def split: if_splits)
  qed
  then show ?thesis
  proof cases
    case 1
    then show ?thesis by (simp add: TEMP_PAGE_def level4_of_def)
  next
    case 2
    have "a div 2 ^ 39 = level4_of (a div 4096)" for a
    proof -
      have "a div (4096 * 2 ^ 27) = a div 4096 div 2 ^ 27" by (rule div_mult2_eq)
      then show ?thesis by (simp add: level4_of_def)
    qed
    then show ?thesis using 2 unfolding level4_of_def by (metis div_le_mono)
  qed
qed

lemma below_level4_needed:
  assumes "a mod 2 ^ 39 \<noteq> 0"
  shows "a < level4_needed a * 2 ^ 39"
proof -
  have "a + 2 ^ 39 - 1 = (a - 1) + 2 ^ 39" using assms by (cases a) simp_all
  then have "level4_needed a = (a - 1) div 2 ^ 39 + 1" unfolding level4_needed_def by (simp only: div_add_self2 power_not_zero zero_neq_numeral not_False_eq_True)
  moreover have "a div 2 ^ 39 \<le> (a - 1) div 2 ^ 39"
  proof -
    have "a div 2 ^ 39 * 2 ^ 39 + a mod 2 ^ 39 = a" by (rule div_mult_mod_eq)
    then have "a div 2 ^ 39 * 2 ^ 39 \<le> a - 1" using assms by linarith
    then have "a div 2 ^ 39 * 2 ^ 39 div 2 ^ 39 \<le> (a - 1) div 2 ^ 39" by (rule div_le_mono)
    then show ?thesis by simp
  qed
  ultimately have "a div 2 ^ 39 < level4_needed a" by simp
  moreover have "(0::nat) < 2 ^ 39" by simp
  ultimately show ?thesis using div_less_iff_less_mult by blast
qed

lemma loaded_mono: "loaded E k A mem s seg \<Longrightarrow> A \<subseteq> A' \<Longrightarrow> loaded E k A' mem s seg"
  using placed_mono unfolding loaded_def by metis

lemma file_in_kernel_area:
  assumes "ph_offset seg + ph_file_size seg \<le> kernel_size P" and "0 < kernel_size P" and "f \<in> file_frames (kernel_start P) seg"
  shows "in_area f (Kernel, kernel_start P div 4096, (kernel_start P + kernel_size P - 1) div 4096 + 1)"
proof -
  let ?k = "kernel_start P"
  have "?k div 4096 \<le> (?k + ph_offset seg) div 4096" by (intro div_le_mono) simp
  moreover have "(?k + ph_offset seg + ph_file_size seg + 4095) div 4096 \<le> (?k + kernel_size P - 1 + 4096) div 4096"
    using assms(1,2) by (intro div_le_mono) linarith
  moreover have "(?k + kernel_size P - 1 + 4096) div 4096 = (?k + kernel_size P - 1) div 4096 + 1" by (rule div_add_self2) simp
  ultimately show ?thesis using assms(3) unfolding in_area_def file_frames_def fst_conv snd_conv atLeastLessThan_iff by linarith
qed

context boot_machine
begin

lemma load_kernel_prefix:
  fixes b :: "'pt boot"
  assumes sd: "sound (ld_map (bm_ld b))" and l4: "free_from (bm_l4 b) K" "K < 31"
    and m1: "mark_used_regions E P (ld_map (bm_ld b)) = Inr m1" "sound m1" "usable m1 \<subseteq> usable (ld_map (bm_ld b))"
    and root: "p4_physical P = root"
  obtains r b1 where "load_kernel B bld P segs b =
      bind_bm (load_kernel_file B bld P segs) (\<lambda>(page, info). ret_bm (recursive_addr B r, page, info)) b1"
    and "ld_map (bm_ld b1) = m1" and "ld_mem (bm_ld b1) = ld_mem (bm_ld b)" and "bm_cpu b1 = enable_nxe_bit (bm_cpu b)"
    and "r \<le> K" and "\<not> bm_l4 b ! r" and "be_recursive_new B (recursive_addr B r) (ld_pt (bm_ld b1))"
    and "keeps E mappable entry (entry_pages r) (bm_ld b) (bm_ld b1)" and "free_from (bm_l4 b1) (K + 1)"
    and "\<forall>j < 512. \<not> bm_l4 b1 ! j \<longrightarrow> \<not> bm_l4 b ! j \<and> j \<noteq> r"
    and "\<And>page. page div 2 ^ 39 \<noteq> r \<Longrightarrow> translate_2m (ld_pt (bm_ld b1)) page = translate_2m (ld_pt (bm_ld b)) page"
proof -
  let ?b0 = "b\<lparr>bm_cpu := enable_nxe_bit (bm_cpu b)\<rparr>"
  have "boots B 0 (free_entries_bm 1) ?b0
    (\<lambda>i b'. i \<le> K \<and> entries_free (bm_l4 b) i 1 \<and> free_from (bm_l4 b') (K + 1) \<and>
       (\<forall>j < 512. \<not> bm_l4 b' ! j \<longrightarrow> \<not> bm_l4 b ! j \<and> \<not> (i \<le> j \<and> j < i + 1)) \<and> bm_ld b' = bm_ld b \<and> bm_cpu b' = enable_nxe_bit (bm_cpu b))"
    using boots_free_entries [of ?b0 K 1] l4 by simp
  from boots_0 [OF this] obtain r b1 where f: "free_entries_bm 1 ?b0 = Inr (r, b1)" "r \<le> K" "entries_free (bm_l4 b) r 1"
    "free_from (bm_l4 b1) (K + 1)" "\<forall>j < 512. \<not> bm_l4 b1 ! j \<longrightarrow> \<not> bm_l4 b ! j \<and> \<not> (r \<le> j \<and> j < r + 1)"
    "bm_ld b1 = bm_ld b" "bm_cpu b1 = enable_nxe_bit (bm_cpu b)" by blast
  have sd1: "sound (ld_map (bm_ld b1))" using sd f(6) by simp
  have r256: "r < 256" using f(2) l4(2) by simp
  from boots_0 [OF boots_install_recursive [OF sd1 r256]] obtain a b2 where
    i: "install_recursive B root r b1 = Inr (a, b2)" "a = recursive_addr B r" "bm_l4 b2 = bm_l4 b1" "bm_cpu b2 = bm_cpu b1"
      "be_recursive_new B a (ld_pt (bm_ld b2))" "keeps E mappable entry (entry_pages r) (bm_ld b1) (bm_ld b2)"
      "ld_map (bm_ld b2) = ld_map (bm_ld b1)" "ld_mem (bm_ld b2) = ld_mem (bm_ld b1)"
      "\<forall>page. page div 2 ^ 39 \<noteq> r \<longrightarrow> translate_2m (ld_pt (bm_ld b2)) page = translate_2m (ld_pt (bm_ld b1)) page" by blast
  let ?b3 = "b2\<lparr>bm_ld := (bm_ld b2)\<lparr>ld_map := m1\<rparr>\<rparr>"
  have "map_bm (mark_used_regions E P) b2 = Inr ((), ?b3)" using m1(1) i(7) f(6) by (simp add: map_bm_def)
  then have eq: "load_kernel B bld P segs b =
      bind_bm (load_kernel_file B bld P segs) (\<lambda>(page, info). ret_bm (recursive_addr B r, page, info)) ?b3"
    using f(1) i(1,2) root by (simp add: load_kernel_def make_recursive_def bind_bm_def cpu_bm_def)
  have "usable m1 \<subseteq> usable (ld_map (bm_ld b2))" using m1(3) i(7) f(6) by simp
  then have "keeps E mappable entry {} (bm_ld b2) (bm_ld ?b3)" using keeps_map [OF m1(2)] by simp
  then have "keeps E mappable entry (entry_pages r) (bm_ld b1) (bm_ld ?b3)" by (rule keeps_trans [OF i(6)]) simp
  moreover have "\<not> bm_l4 b ! r" using f(3) by (simp add: entries_free_def)
  moreover have "\<forall>j < 512. \<not> bm_l4 ?b3 ! j \<longrightarrow> \<not> bm_l4 b ! j \<and> j \<noteq> r" using f(5) i(3) by auto
  ultimately show thesis
    using that [of r ?b3] eq f(2,4,6,7) i(2,3,4,5,8,9) by simp
qed

lemma kernel_entries_below:
  assumes "\<forall>seg \<in> set segs. ph_virtual_addr seg + ph_mem_size seg < K * 2 ^ 39" and "0 < K" and "i \<in> kernel_entries segs"
  shows "i < K"
proof (cases "i = 0")
  case False
  then obtain seg where "seg \<in> set segs" "i \<le> (ph_virtual_addr seg + ph_mem_size seg) div 2 ^ 39"
    using assms(3) unfolding kernel_entries_def by blast
  moreover from this assms(1) have "(ph_virtual_addr seg + ph_mem_size seg) div 2 ^ 39 < K"
    by (intro less_mult_imp_div_less) blast
  ultimately show ?thesis by simp
qed (use assms(2) in simp)

lemma kernel_entries_free:
  assumes "\<forall>seg \<in> set segs. ph_virtual_addr seg + ph_mem_size seg < K * 2 ^ 39" and "0 < K" and "length st = 512"
    and "\<forall>i < 512. st ! i \<longleftrightarrow> i \<in> kernel_entries segs"
  shows "free_from st K"
proof -
  have "i \<notin> kernel_entries segs" if "K \<le> i" for i using kernel_entries_below [OF assms(1,2), of i] that by auto
  then show ?thesis using assms(3,4) by (simp add: free_from_def)
qed

lemma elf_page_entry:
  assumes "kernel_start P + kernel_size P \<le> 2 ^ 39" and "0 < kernel_size P" and "n \<in> elf_pages P"
  shows "n * 2 ^ 21 div 2 ^ 39 = 0"
proof -
  have "n * 512 \<in> large_page n" by (simp add: large_page_def)
  then have "level4_of (n * 512) = 0" using elf_page_level4 [OF assms(1,2)] assms(3) by (simp add: elf_pages_def)
  then have "n * 512 * 4096 div 2 ^ 39 = 0" unfolding level4_of_page .
  then show ?thesis by simp
qed

text \<open>The kernel loaded, up to the physical memory: the state handed to \<open>hand_over\<close>.\<close>

definition kernel_in_place ::
  "boot_build \<Rightarrow> boot_params \<Rightarrow> program_header list \<Rightarrow> memory_map \<Rightarrow> 'pt \<Rightarrow> (u64 \<Rightarrow> nat) \<Rightarrow> cpu \<Rightarrow> u64 \<Rightarrow> u64 \<Rightarrow>
   u64 \<times> memory_info \<Rightarrow> 'pt boot \<Rightarrow> bool" where
  "kernel_in_place bld P segs m1 pt mem c K r x b \<longleftrightarrow>
     (\<exists>i fb g. fst x = i * 2 ^ 27 * 4096 \<and> bm_l4 b ! 0 \<and>
        (\<forall>q. 32 \<le> level4_of q \<and> mappable pt (q * 4096) \<longrightarrow> mappable (ld_pt (bm_ld b)) (q * 4096)) \<and>
        i < 31 \<and> bm_l4 b ! i \<and> i \<noteq> r \<and> r < 31 \<and> bm_l4 b ! r \<and>
        free_from (bm_l4 b) (K + 2) \<and> spare (bm_l4 b) (ld_pt (bm_ld b)) \<and> bm_cpu b = enable_nxe_bit c \<and>
        sound (ld_map (bm_ld b)) \<and> usable (ld_map (bm_ld b)) \<subseteq> usable m1 \<and>
        be_recursive_new B (recursive_addr B r) (ld_pt (bm_ld b)) \<and>
        (\<forall>seg \<in> set segs. \<forall>q \<in> touched_pages seg. level4_of q \<noteq> r \<and> (level4_of q < 31 \<longrightarrow> bm_l4 b ! level4_of q)) \<and>
        stack_end (snd x) = (i * 2 ^ 27 + 2 + KERNEL_STACK_SIZE (bld_config bld)) * 4096 \<and> tls_segment (snd x) = tls_segment_of segs \<and>
        (\<forall>seg \<in> set segs. loaded E (kernel_start P) (usable m1 - {fb}) mem (bm_ld b) seg) \<and>
        backs E (bm_ld b) {PRESENT, WRITABLE} g (stack_pages (i * 2 ^ 27 + 1) (KERNEL_STACK_SIZE (bld_config bld))) \<and>
        env_translate E (ld_pt (bm_ld b)) (i * 2 ^ 27 * 4096) = Some (fb * 4096, {PRESENT, WRITABLE}) \<and>
        fb \<in> usable m1 \<and> fb \<notin> usable (ld_map (bm_ld b)))"

lemma boots_kernel_in_place:
  fixes b b1 :: "'pt boot"
  assumes cfg: "cfg_boot_info_address (bld_config bld) = None" "cfg_kernel_stack_address (bld_config bld) = None"
    and rd: "boot_ready mappable entry blank translate_2m P segs (KERNEL_STACK_SIZE (bld_config bld)) mem_top K (ld_pt (bm_ld b))"
    and ks: "0 < kernel_size P" and l4: "length (bm_l4 b) = 512" "\<forall>i < 512. bm_l4 b ! i \<longleftrightarrow> i \<in> kernel_entries segs"
    and m1: "sound m1" "\<forall>f \<in> usable m1. \<forall>x \<in> set (used_areas P). \<not> in_area f x"
    and b1: "ld_map (bm_ld b1) = m1" "ld_mem (bm_ld b1) = mem" "bm_cpu b1 = enable_nxe_bit c" "r \<le> K" "\<not> bm_l4 b ! r"
      "be_recursive_new B (recursive_addr B r) (ld_pt (bm_ld b1))" "keeps E mappable entry (entry_pages r) (bm_ld b) (bm_ld b1)"
      "free_from (bm_l4 b1) (K + 1)" "\<forall>j < 512. \<not> bm_l4 b1 ! j \<longrightarrow> \<not> bm_l4 b ! j \<and> j \<noteq> r"
      "\<And>page. page div 2 ^ 39 \<noteq> r \<Longrightarrow> translate_2m (ld_pt (bm_ld b1)) page = translate_2m (ld_pt (bm_ld b)) page"
  shows "boots B (4 + (sum_list (map loading_cost segs) + 4 * KERNEL_STACK_SIZE (bld_config bld))) (load_kernel_file B bld P segs) b1
    (kernel_in_place bld P segs m1 (ld_pt (bm_ld b)) mem c K r)"
proof -
  let ?M = "insert 31 (kernel_entries segs)" and ?len = "KERNEL_STACK_SIZE (bld_config bld)"
  note rd = rd [unfolded boot_ready_def]
  have K: "K + 2 \<le> 31" "?len + 2 \<le> 2 ^ 27" "kernel_start P + kernel_size P \<le> 2 ^ 39" using rd by simp_all
  have rM: "r \<notin> ?M" "r < 31" "r \<noteq> 0" using b1(4,5) l4(2) K(1) by (auto simp: kernel_entries_def)
  have marked: "bm_l4 b1 ! j" if "j \<in> ?M" "j < 31" for j
    using b1(9) [rule_format, of j] l4(2) [rule_format, of j] that by auto
  have free: "free_from (bm_l4 b) K" using rd by (intro kernel_entries_free [OF _ _ l4]) simp_all
  have high: "j < 31" if "j \<in> kernel_entries segs" for j
  proof -
    have "j < K" by (rule kernel_entries_below [OF _ _ that]) (use rd in simp_all)
    then show ?thesis using K(1) by simp
  qed
  have lvl: "i = r" if "i \<in> level4_of ` entry_pages r" for i using that by (auto simp: entry_pages_def)
  have "spare (bm_l4 b) (ld_pt (bm_ld b))" using rd l4(2) by (simp add: spare_def)
  then have sp: "spare (bm_l4 b1) (ld_pt (bm_ld b1))"
  proof (rule spare_keeps [OF _ b1(7)])
    fix j assume j: "j < 31" "\<not> bm_l4 b1 ! j"
    then have "\<not> bm_l4 b ! j \<and> j \<noteq> r" using b1(9) [rule_format, of j] by simp
    then show "\<not> bm_l4 b ! j \<and> j \<notin> level4_of ` entry_pages r" using lvl by blast
  qed
  have seg: "segment_ok (kernel_start P) sg" "ph_type sg = Load \<Longrightarrow> ph_offset sg + ph_file_size sg \<le> kernel_size P"
    "\<And>q. q \<in> touched_pages sg \<Longrightarrow> mappable (ld_pt (bm_ld b)) (q * 4096) \<or> q div 512 \<in> elf_pages P" if "sg \<in> set segs" for sg
    using rd that by simp_all
  have touched: "level4_of q \<in> ?M" if "sg \<in> set segs" "q \<in> touched_pages sg" for sg q
    using touched_level4 [OF seg(1) [OF that(1)] that(2)] that(1) by (auto simp: kernel_entries_def)
  have held: "file_frames (kernel_start P) sg \<inter> usable (ld_map (bm_ld b1)) = {}" if "sg \<in> set segs" "ph_type sg = Load" for sg
  proof -
    have "(Kernel, kernel_start P div 4096, (kernel_start P + kernel_size P - 1) div 4096 + 1) \<in> set (used_areas P)"
      by (simp add: used_areas_def)
    then show ?thesis using file_in_kernel_area [OF seg(2) [OF that] ks] m1(2) b1(1) by blast
  qed
  have map: "mappable (ld_pt (bm_ld b1)) (q * 4096) \<or> q div 512 \<in> elf_pages P" if "sg \<in> set segs" "q \<in> touched_pages sg" for sg q
  proof -
    have "q \<notin> entry_pages r" using touched [OF that] rM(1) by (auto simp: entry_pages_def)
    then show ?thesis using seg(3) [OF that] keeps_mappableD [OF b1(7)] by blast
  qed
  have elf: "\<forall>n \<in> elf_pages P. translate_2m (ld_pt (bm_ld b1)) (n * 2 ^ 21) \<noteq> None"
  proof
    fix n assume n: "n \<in> elf_pages P"
    have "n * 2 ^ 21 div 2 ^ 39 \<noteq> r" using elf_page_entry [OF K(3) ks n] rM(3) by metis
    then show "translate_2m (ld_pt (bm_ld b1)) (n * 2 ^ 21) \<noteq> None" using b1(10) rd n by metis
  qed
  have load: "boots B (4 + (sum_list (map loading_cost segs) + 4 * ?len)) (load_kernel_file B bld P segs) b1
    (\<lambda>r b'. \<exists>i fb R. fst r = i * 2 ^ 27 * 4096 \<and> i \<le> K + 1 \<and> \<not> bm_l4 b1 ! i \<and> i \<notin> ?M \<and> free_from (bm_l4 b') (K + 1 + 1) \<and>
       (\<forall>j < 512. \<not> bm_l4 b' ! j \<longrightarrow> \<not> bm_l4 b1 ! j \<and> j \<noteq> i) \<and> bm_cpu b' = bm_cpu b1 \<and>
       keeps E mappable entry R (bm_ld b1) (bm_ld b') \<and> level4_of ` R \<subseteq> insert i ?M \<and>
       stack_end (snd r) = (i * 2 ^ 27 + 2 + ?len) * 4096 \<and> tls_segment (snd r) = tls_segment_of segs \<and>
       (\<forall>seg \<in> set segs. loaded E (kernel_start P) (usable (ld_map (bm_ld b1)) - {fb}) (ld_mem (bm_ld b1)) (bm_ld b') seg) \<and>
       (\<exists>g. backs E (bm_ld b') {PRESENT, WRITABLE} g (stack_pages (i * 2 ^ 27 + 1) ?len)) \<and>
       env_translate E (ld_pt (bm_ld b')) (i * 2 ^ 27 * 4096) = Some (fb * 4096, {PRESENT, WRITABLE}) \<and>
       fb \<in> usable (ld_map (bm_ld b1)) \<and> fb \<notin> usable (ld_map (bm_ld b')))"
  proof (rule boots_load_kernel_file [OF cfg refl K(2) ks K(3) _ b1(8) _ sp elf [unfolded elf_pages_def]], goal_cases)
    case 1 show ?case using m1(1) b1(1) by simp
  next
    case 2 show ?case using K(1) by simp
  next
    case 3 show ?case using seg(1) held by blast
  next
    case 4 show ?case using touched map unfolding elf_pages_def by blast
  next
    case 5 show ?case using rd by blast
  next
    case 6 show ?case using rd by blast
  next
    case 7 show ?case by (simp add: kernel_entries_def)
  next
    case 8 show ?case using marked by blast
  qed
  show ?thesis
  proof (rule boots_weaken [OF load], elim exE conjE)
    fix x :: "u64 \<times> memory_info" and b2 :: "'pt boot" and i fb R g
    assume x: "fst x = i * 2 ^ 27 * 4096" "stack_end (snd x) = (i * 2 ^ 27 + 2 + ?len) * 4096" "tls_segment (snd x) = tls_segment_of segs"
      and i: "i \<le> K + 1" "\<not> bm_l4 b1 ! i" "i \<notin> ?M"
      and b2: "free_from (bm_l4 b2) (K + 1 + 1)" "\<forall>j < 512. \<not> bm_l4 b2 ! j \<longrightarrow> \<not> bm_l4 b1 ! j \<and> j \<noteq> i" "bm_cpu b2 = bm_cpu b1"
        "keeps E mappable entry R (bm_ld b1) (bm_ld b2)" "level4_of ` R \<subseteq> insert i ?M"
        "\<forall>seg \<in> set segs. loaded E (kernel_start P) (usable (ld_map (bm_ld b1)) - {fb}) (ld_mem (bm_ld b1)) (bm_ld b2) seg"
        "backs E (bm_ld b2) {PRESENT, WRITABLE} g (stack_pages (i * 2 ^ 27 + 1) ?len)"
        "env_translate E (ld_pt (bm_ld b2)) (i * 2 ^ 27 * 4096) = Some (fb * 4096, {PRESENT, WRITABLE})"
        "fb \<in> usable (ld_map (bm_ld b1))" "fb \<notin> usable (ld_map (bm_ld b2))"
    have i31: "i < 31" using i(1) K(1) by simp
    have r1: "bm_l4 b1 ! r" using b1(9) [rule_format, of r] rM(2) by auto
    then have ir: "i \<noteq> r" "r \<notin> level4_of ` R" using i(2) b2(5) rM(1) by auto
    have mk: "bm_l4 b2 ! j" if "bm_l4 b1 ! j \<or> j = i" "j < 31" for j using b2(2) [rule_format, of j] that by auto
    have "spare (bm_l4 b2) (ld_pt (bm_ld b2))"
    proof (rule spare_keeps [OF sp b2(4)])
      fix j assume j: "j < 31" "\<not> bm_l4 b2 ! j"
      then have "\<not> bm_l4 b1 ! j" "j \<noteq> i" using mk [of j] by auto
      moreover from this marked [of j] j(1) have "j \<notin> ?M" by blast
      ultimately show "\<not> bm_l4 b1 ! j \<and> j \<notin> level4_of ` R" using b2(5) by blast
    qed
    moreover have "be_recursive_new B (recursive_addr B r) (ld_pt (bm_ld b2))"
      by (rule recursive_same [OF _ b1(6) keeps_entryD [OF b2(4) ir(2)]]) (use rM(2) in simp)
    moreover have "level4_of q \<noteq> r \<and> (level4_of q < 31 \<longrightarrow> bm_l4 b2 ! level4_of q)" if "sg \<in> set segs" "q \<in> touched_pages sg" for sg q
      using touched [OF that] rM(1) marked [of "level4_of q"] mk [of "level4_of q"] by blast
    moreover have "usable (ld_map (bm_ld b2)) \<subseteq> usable m1" using b2(4) b1(1) by (simp add: keeps_def)
    moreover have "mappable (ld_pt (bm_ld b2)) (q * 4096)" if "32 \<le> level4_of q" "mappable (ld_pt (bm_ld b)) (q * 4096)" for q
    proof -
      have "q \<notin> entry_pages r" using that(1) rM(2) by (auto simp: entry_pages_def)
      moreover have "level4_of q \<notin> insert i ?M" using that(1) i31 high [of "level4_of q"] by auto
      then have "q \<notin> R" using b2(5) by blast
      ultimately show ?thesis using keeps_mappableD [OF b1(7)] keeps_mappableD [OF b2(4)] that(2) by blast
    qed
    moreover have "bm_l4 b2 ! 0" using mk [of 0] marked [of 0] by (simp add: kernel_entries_def)
    ultimately show "kernel_in_place bld P segs m1 (ld_pt (bm_ld b)) mem c K r x b2"
      unfolding kernel_in_place_def
      using x i31 ir(1) rM(2) mk [of i] mk [of r] r1 b2(1,3,6-) b1(1-3) keeps_soundD [OF b2(4)]
      by (intro exI [of _ i] exI [of _ fb] exI [of _ g]) (simp add: add.assoc)
  qed
qed

lemma boots_handed_over:
  fixes b :: "'pt boot" and x :: "u64 \<times> memory_info"
  assumes cfg: "cfg_physical_memory_offset (bld_config bld) = None" and ep: "entry_point < virt_bound"
    and lay: "\<And>bi. length (be_layout B bi) \<le> 4096"
    and rd: "boot_ready mappable entry blank translate_2m P segs (KERNEL_STACK_SIZE (bld_config bld)) (top_of m) K pt"
    and mem_top: "0 < top_of m" "top_of m < phys_bound" and ks: "0 < kernel_size P"
    and m1: "usable m1 = {f \<in> usable m. \<forall>x \<in> set (used_areas P). \<not> in_area f x}"
    and x: "kernel_in_place bld P segs m1 pt mem c K r x b"
  shows "boots B (window_cost bld (top_of m)) (hand_over B bld (top_of m) entry_point (recursive_addr B r) (fst x) (snd x)) b
    (\<lambda>ho b'. ho_state ho = b' \<and> usable (ld_map (bm_ld b')) \<subseteq> usable m1 \<and>
       handed_over B mappable translate_2m bld P entry_point segs m c pt mem ho)"
proof -
  let ?len = "KERNEL_STACK_SIZE (bld_config bld)"
  obtain i fb g where i: "fst x = i * 2 ^ 27 * 4096" "i < 31" "bm_l4 b ! i" "i \<noteq> r"
    and zero: "bm_l4 b ! 0" and high: "\<forall>q. 32 \<le> level4_of q \<and> mappable pt (q * 4096) \<longrightarrow> mappable (ld_pt (bm_ld b)) (q * 4096)"
    and r: "r < 31" "bm_l4 b ! r" "be_recursive_new B (recursive_addr B r) (ld_pt (bm_ld b))"
    and b: "free_from (bm_l4 b) (K + 2)" "spare (bm_l4 b) (ld_pt (bm_ld b))" "bm_cpu b = enable_nxe_bit c"
      "sound (ld_map (bm_ld b))" "usable (ld_map (bm_ld b)) \<subseteq> usable m1"
    and lvl: "\<forall>seg \<in> set segs. \<forall>q \<in> touched_pages seg. level4_of q \<noteq> r \<and> (level4_of q < 31 \<longrightarrow> bm_l4 b ! level4_of q)"
    and info: "stack_end (snd x) = (i * 2 ^ 27 + 2 + ?len) * 4096" "tls_segment (snd x) = tls_segment_of segs"
    and kern: "\<forall>seg \<in> set segs. loaded E (kernel_start P) (usable m1 - {fb}) mem (bm_ld b) seg"
    and stack: "backs E (bm_ld b) {PRESENT, WRITABLE} g (stack_pages (i * 2 ^ 27 + 1) ?len)"
    and pg: "env_translate E (ld_pt (bm_ld b)) (i * 2 ^ 27 * 4096) = Some (fb * 4096, {PRESENT, WRITABLE})"
      "fb \<in> usable m1" "fb \<notin> usable (ld_map (bm_ld b))"
    using x unfolding kernel_in_place_def by blast
  note rd = rd [unfolded boot_ready_def]
  have K: "K + 2 + level4_needed (top_of m) \<le> 31" "?len + 2 \<le> 2 ^ 27" "top_of m mod 2 ^ 39 \<noteq> 0" using rd by simp_all
  have below: "top_of m < level4_needed (top_of m) * 2 ^ 39" using K(3) by (rule below_level4_needed)
  have l4p: "level4_of (i * 2 ^ 27) = i" unfolding level4_of_def by (rule div_mult_self_is_m) simp
  have p: "level4_of (i * 2 ^ 27) < 31" "bm_l4 b ! level4_of (i * 2 ^ 27)" unfolding l4p using i(2,3) by simp_all
  have pr: "level4_of (i * 2 ^ 27) \<noteq> r" "level4_of (i * 2 ^ 27) < 31 \<longrightarrow> bm_l4 b ! level4_of (i * 2 ^ 27)"
    unfolding l4p using i(3,4) by simp_all
  have stackl: "\<forall>q \<in> stack_pages (i * 2 ^ 27 + 1) ?len. level4_of q \<noteq> r \<and> (level4_of q < 31 \<longrightarrow> bm_l4 b ! level4_of q)"
  proof
    fix q assume "q \<in> stack_pages (i * 2 ^ 27 + 1) ?len"
    then have "level4_of q = i" unfolding level4_of_def stack_pages_def using K(2) by (intro div_nat_eqI) auto
    then show "level4_of q \<noteq> r \<and> (level4_of q < 31 \<longrightarrow> bm_l4 b ! level4_of q)" using i(3,4) by simp
  qed
  show ?thesis
    unfolding i(1)
  proof (rule boots_weaken [OF boots_hand_over [OF cfg ep lay b(4,1) K(1) b(2) mem_top below r(3,1,2) pg(1) p]], elim conjE exE)
    fix ho :: "'pt handover" and b' offset
    assume ho: "ho_state ho = b'" "ho_boot_info_addr ho = i * 2 ^ 27 * 4096" "ho_entry_point ho = entry_point"
        "ho_stack_pointer ho = stack_end (snd x)"
      and cpu: "bm_cpu b' = (if bld_sse bld then enable_sse else id) (enable_write_protect_bit (bm_cpu b))"
      and lt: "later (bm_l4 b) r fb (be_layout B (ho_boot_info ho)) (bm_ld b) (bm_ld b')"
      and rc: "recursive_page_table (bld_features bld) \<longrightarrow> be_recursive_new B (recursive_addr B r) (ld_pt (bm_ld b'))"
      and bi: "ho_boot_info ho = make_boot_info B bld (ld_map (bm_ld b')) (tls_segment (snd x)) (recursive_addr B r) offset"
      and w: "map_physical_memory (bld_features bld) \<longrightarrow> window_maps offset (top_of m) (ld_pt (bm_ld b')) \<and>
        (\<exists>c < 31. offset = c * 2 ^ 39 \<and> \<not> bm_l4 b ! c)"
    have wf: "mm_wf (ld_map (bm_ld b'))" using later_sound [OF lt] by (simp add: sound_def)
    have mm: "usable (bi_memory_map (ho_boot_info ho)) = usable (ld_map (bm_ld b'))"
      by (simp add: bi make_boot_info_def boot_info_new_def usable_def mm_sort_correct(2) [OF wf])
    have so: "sound (bi_memory_map (ho_boot_info ho))"
      using later_sound [OF lt] mm_sort_correct(1,2) [OF wf]
      by (simp add: bi make_boot_info_def boot_info_new_def sound_def sole_usable_def)
    have off: "offset mod 2 ^ 39 = 0 \<and> 2 ^ 39 \<le> offset \<and> offset < 31 * 2 ^ 39" if "map_physical_memory (bld_features bld)"
    proof -
      from that w have "\<exists>c < 31. offset = c * 2 ^ 39 \<and> \<not> bm_l4 b ! c" by (elim impE conjE)
      then obtain c where c: "c < 31" "offset = c * 2 ^ 39" "\<not> bm_l4 b ! c" by blast
      then have "c \<noteq> 0" using zero by metis
      with c(1,2) show ?thesis by simp
    qed
    have hi: "\<forall>q. 32 \<le> level4_of q \<and> mappable pt (q * 4096) \<longrightarrow> mappable (ld_pt (bm_ld b')) (q * 4096)"
    proof (intro allI impI, elim conjE)
      fix q assume q: "32 \<le> level4_of q" "mappable pt (q * 4096)"
      show "mappable (ld_pt (bm_ld b')) (q * 4096)" by (rule later_mappable [OF lt]) (use high q r(1) in simp_all)
    qed
    have seg: "loaded E (kernel_start P) (usable m) mem (bm_ld b') sg" if sg: "sg \<in> set segs" for sg
    proof (cases "ph_type sg = Load")
      case True
      have ok: "ph_file_size sg \<le> ph_mem_size sg" "ph_offset sg + ph_file_size sg \<le> kernel_size P"
        using rd sg True by (auto simp: segment_ok_def)
      have "(Kernel, kernel_start P div 4096, (kernel_start P + kernel_size P - 1) div 4096 + 1) \<in> set (used_areas P)"
        by (simp add: used_areas_def)
      then have "fb \<notin> file_frames (kernel_start P) sg \<union> (usable m1 - {fb})"
        using file_in_kernel_area [OF ok(2) ks] pg(2) m1 by blast
      from later_loaded [OF lt bspec [OF kern sg] this bspec [OF lvl sg]] ok(1)
      have "loaded E (kernel_start P) (usable m1 - {fb}) mem (bm_ld b') sg" by simp
      moreover have "usable m1 - {fb} \<subseteq> usable m" using m1 by blast
      ultimately show ?thesis by (rule loaded_mono)
    qed (simp add: loaded_def)
    have sub: "\<forall>f \<in> usable (ld_map (bm_ld b')). f \<in> usable m \<and> (\<forall>x \<in> set (used_areas P). \<not> in_area f x)"
      using later_usable [OF lt] b(5) m1 by blast
    have st: "\<exists>p g. ho_stack_pointer ho = (p + 1 + ?len) * 4096 \<and> p + 1 + ?len \<le> 31 * 2 ^ 27 \<and> backs E (bm_ld b') {PRESENT, WRITABLE} g (stack_pages p ?len)"
      using later_backs [OF lt stack stackl] ho(4) info(1) i(2) K(2) by (intro exI [of _ "i * 2 ^ 27 + 1"] exI [of _ g]) simp
    have inf: "\<forall>j < length (be_layout B (ho_boot_info ho)).
        stored E (bm_ld b') (ho_boot_info_addr ho + j) (be_layout B (ho_boot_info ho) ! j)"
      unfolding ho(2) using later_info [OF lt pg(1,3) pr(1,2)] by blast
    have "handed_over B mappable translate_2m bld P entry_point segs m c pt mem ho"
      unfolding handed_over_def Let_def ho(1)
      using ho(3) seg st inf mm later_sound [OF lt] so sub w off hi rc r(1) cpu b(3) info(2)
      by (auto simp: bi make_boot_info_def boot_info_new_def)
    then show "ho_state ho = b' \<and> usable (ld_map (bm_ld b')) \<subseteq> usable m1 \<and>
        handed_over B mappable translate_2m bld P entry_point segs m c pt mem ho"
      using ho(1) later_usable [OF lt] b(5) by blast
  qed
qed

lemma bind_bm_ret: "bind_bm (bind_bm f (\<lambda>(x, y). ret_bm (z, x, y))) (\<lambda>(z, x, y). g z x y) b = bind_bm f (\<lambda>(x, y). g z x y) b"
  by (simp add: bind_bm_def ret_bm_def bind_rust_def split: sum.split prod.split)

lemma load_and_hand_over:
  fixes b :: "'pt boot"
  assumes cfg: "cfg_boot_info_address (bld_config bld) = None" "cfg_kernel_stack_address (bld_config bld) = None"
      "cfg_physical_memory_offset (bld_config bld) = None"
    and ep: "entry_point < virt_bound" and lay: "\<And>bi. length (be_layout B bi) \<le> 4096"
    and rd: "boot_ready mappable entry blank translate_2m P segs (KERNEL_STACK_SIZE (bld_config bld)) (top_of m) K (ld_pt (bm_ld b))"
    and l4: "length (bm_l4 b) = 512" "\<forall>i < 512. bm_l4 b ! i \<longleftrightarrow> i \<in> kernel_entries segs"
    and m: "ld_map (bm_ld b) = m" "sound m" "0 < top_of m" "top_of m < phys_bound" and ks: "0 < kernel_size P"
    and m1: "mark_used_regions E P m = Inr m1" "sound m1" "usable m1 = {f \<in> usable m. \<forall>x \<in> set (used_areas P). \<not> in_area f x}"
    and root: "p4_physical P = root"
  shows "case bind_bm (load_kernel B bld P segs) (\<lambda>(r, page, info). hand_over B bld (top_of m) entry_point r page info) b of
      Inl p \<Rightarrow> p \<in> exhausted \<and> \<not> ample E (boot_cost bld segs (top_of m)) m1
    | Inr (ho, _) \<Rightarrow> handed_over B mappable translate_2m bld P entry_point segs m (bm_cpu b) (ld_pt (bm_ld b)) (ld_mem (bm_ld b)) ho \<and>
        card (usable m1) \<le> boot_cost bld segs (top_of m) + card (usable (bi_memory_map (ho_boot_info ho)))"
proof -
  let ?Q = "\<lambda>ho b'. ho_state ho = b' \<and> usable (ld_map (bm_ld b')) \<subseteq> usable m1 \<and>
    handed_over B mappable translate_2m bld P entry_point segs m (bm_cpu b) (ld_pt (bm_ld b)) (ld_mem (bm_ld b)) ho"
  have K: "0 < K" "K < 31" "\<forall>seg \<in> set segs. ph_virtual_addr seg + ph_mem_size seg < K * 2 ^ 39"
    using rd by (simp_all add: boot_ready_def)
  have "usable m1 \<subseteq> usable (ld_map (bm_ld b))" using m1(3) m(1) by blast
  then obtain r b1 where eq: "load_kernel B bld P segs b =
      bind_bm (load_kernel_file B bld P segs) (\<lambda>(page, info). ret_bm (recursive_addr B r, page, info)) b1"
    and b1: "ld_map (bm_ld b1) = m1" "ld_mem (bm_ld b1) = ld_mem (bm_ld b)" "bm_cpu b1 = enable_nxe_bit (bm_cpu b)" "r \<le> K" "\<not> bm_l4 b ! r"
      "be_recursive_new B (recursive_addr B r) (ld_pt (bm_ld b1))" "keeps E mappable entry (entry_pages r) (bm_ld b) (bm_ld b1)"
      "free_from (bm_l4 b1) (K + 1)" "\<forall>j < 512. \<not> bm_l4 b1 ! j \<longrightarrow> \<not> bm_l4 b ! j \<and> j \<noteq> r"
      "\<And>page. page div 2 ^ 39 \<noteq> r \<Longrightarrow> translate_2m (ld_pt (bm_ld b1)) page = translate_2m (ld_pt (bm_ld b)) page"
    using load_kernel_prefix [of b K P m1 bld segs thesis] m(1,2) m1(1,2) kernel_entries_free [OF K(3,1) l4] K(2) root by metis
  have held: "\<forall>f \<in> usable m1. \<forall>x \<in> set (used_areas P). \<not> in_area f x" using m1(3) by blast
  let ?f = "bind_bm (load_kernel_file B bld P segs) (\<lambda>(page, info). hand_over B bld (top_of m) entry_point (recursive_addr B r) page info)"
  have "boots B (4 + (sum_list (map loading_cost segs) + 4 * KERNEL_STACK_SIZE (bld_config bld)) + window_cost bld (top_of m)) ?f b1 ?Q"
    unfolding case_prod_beta
    by (rule boots_bind [OF boots_kernel_in_place [OF cfg(1,2) rd ks l4 m1(2) held b1]])
      (assumption, rule boots_handed_over [OF cfg(3) ep lay rd m(3,4) ks m1(3)])
  then have run: "boots B (boot_cost bld segs (top_of m)) ?f b1 ?Q"
    by (simp add: boot_cost_def)
  have eq': "bind_bm (load_kernel B bld P segs) (\<lambda>(r, page, info). hand_over B bld (top_of m) entry_point r page info) b = ?f b1"
    using bind_bm_ret [of "load_kernel_file B bld P segs"] eq by (simp add: bind_bm_def)
  show ?thesis
    using run
  proof (cases rule: boots_cases)
    case (ok ho b')
    have "card (usable m1) \<le> boot_cost bld segs (top_of m) + card (usable (ld_map (bm_ld b')))"
      using spends_card [OF ok(3)] b1(1) by simp
    moreover have "usable (bi_memory_map (ho_boot_info ho)) = usable (ld_map (bm_ld b'))"
      using ok(2) by (simp add: handed_over_def Let_def)
    ultimately show ?thesis using ok(1,2) eq' by simp
  qed (use b1(1) eq' in simp)
qed

end

subsection \<open>The whole stage\<close>

text \<open>The hypotheses on what the earlier stages left: the table of the BIOS, the areas in use, the kernel file.\<close>

definition boot_input ::
  "'pt boot_env \<Rightarrow> boot_params \<Rightarrow> (u64 \<Rightarrow> nat) \<Rightarrow> u64 \<Rightarrow> program_header list \<Rightarrow> memory_map \<Rightarrow> bool" where
  "boot_input B P mem entry_point segs m \<longleftrightarrow>
     (let bytes = map mem [kernel_start P ..< kernel_start P + kernel_size P] in
      (\<forall>e \<in> set (memory_table P). e820_ok e) \<and> length (memory_table P) \<le> max_memory_map_size \<and>
      create_from (env_sort (be_loader B)) (env_profile (be_loader B)) (memory_table P) = Inr m \<and> used_memory_ok P m \<and>
      be_elf_new B bytes = Some \<lparr>elf_entry_point = entry_point, elf_headers = map Ph64 segs\<rparr> \<and> be_sanity_check B bytes \<and>
      entry_point < virt_bound)"

definition default_addresses :: "bootloader_config \<Rightarrow> bool" where
  "default_addresses c \<longleftrightarrow>
     cfg_boot_info_address c = None \<and> cfg_kernel_stack_address c = None \<and> cfg_physical_memory_offset c = None"

lemma boot_input_top:
  assumes "boot_input B P mem entry_point segs m"
  shows "max_phys_addr_of p m = Inr (top_of m)" and "top_of m < phys_bound" and "0 < top_of m"
proof -
  have u: "used_memory_ok P m" using assms by (simp add: boot_input_def Let_def)
  then have wf: "mm_wf m" by (simp add: used_memory_ok_def settled_def)
  obtain r where r: "r \<in> set (mm_deref m)" "0 < end_frame_number (rng r)"
  proof -
    have "area_free m (FrameZero, 0, 1)" using u by (simp add: used_memory_ok_def used_areas_def)
    then show ?thesis using that by (auto simp: area_free_def available_def Suc_le_eq)
  qed
  then have "mm_deref m \<noteq> []" by auto
  then show "max_phys_addr_of p m = Inr (top_of m)" "top_of m < phys_bound" by (rule max_phys_addr_top [OF wf])+
  have "end_frame_number (rng r) * 4096 \<le> top_of m" unfolding top_of_def using r(1) by (intro Max_ge) simp_all
  then show "0 < top_of m" using r(2) by simp
qed

lemma boot_input_read_elf:
  assumes "boot_input B P mem entry_point segs m" and "length segs \<le> 32"
  shows "read_elf B (map mem [kernel_start P ..< kernel_start P + kernel_size P]) = Inr (entry_point, segs)"
  using assms collect_segments_64 [of "[]" segs] by (simp add: boot_input_def Let_def read_elf_def expect_def)

context boot_machine
begin

lemma bootloader_main_correct:
  assumes root: "p4_physical P = root" and inp: "boot_input B P mem entry_point segs m" and cfg: "default_addresses (bld_config bld)"
    and rd: "boot_ready mappable entry blank translate_2m P segs (KERNEL_STACK_SIZE (bld_config bld)) (top_of m) K pt"
    and lay: "\<And>bi. length (be_layout B bi) \<le> 4096"
  shows "\<exists>m1. mark_used_regions E P m = Inr m1 \<and>
    (case bootloader_main B bld P c scr pt mem of
       Inl p \<Rightarrow> p \<in> exhausted \<and> \<not> ample E (boot_cost bld segs (top_of m)) m1
     | Inr ho \<Rightarrow> handed_over B mappable translate_2m bld P entry_point segs m c pt mem ho \<and>
         card (usable m1) \<le> boot_cost bld segs (top_of m) + card (usable (bi_memory_map (ho_boot_info ho))))"
proof -
  note i = inp [unfolded boot_input_def Let_def]
  have m: "create_from (env_sort E) (env_profile E) (memory_table P) = Inr m" and u: "used_memory_ok P m" and ep: "entry_point < virt_bound"
    using i by simp_all
  have sd: "sound m" using i by (intro create_from_sound [OF region_sort_axioms _ _ m]) simp_all
  have rd': "length segs \<le> 32" "K \<le> 31" "\<forall>seg \<in> set segs. ph_virtual_addr seg + ph_mem_size seg < K * 2 ^ 39"
    using rd by (simp_all add: boot_ready_def)
  have "K * 2 ^ 39 \<le> virt_bound" using rd'(2) by (simp add: virt_bound_def)
  then have "\<forall>seg \<in> set segs. ph_virtual_addr seg + ph_mem_size seg < virt_bound" using rd'(3) less_le_trans by blast
  then obtain l4 where l4: "used_level4_entries_new (env_x86 E) (env_profile E) segs = Inr l4" "length l4 = 512"
    "\<forall>i < 512. l4 ! i \<longleftrightarrow> i \<in> kernel_entries segs"
    using used_level4_entries_exact [OF x86_addresses_axioms, of segs "env_profile E"] unfolding kernel_entries_def by blast
  obtain m1 where m1: "mark_used_regions E P m = Inr m1" "sound m1" "usable m1 = {f \<in> usable m. \<forall>x \<in> set (used_areas P). \<not> in_area f x}"
    using mark_used_regions_spec [OF frame_allocation_axioms u] sd by (auto simp: sound_def settled_def)
  let ?b = "\<lparr>bm_ld = \<lparr>ld_pt = pt, ld_map = m, ld_mem = mem\<rparr>, bm_l4 = l4, bm_cpu = c, bm_screen = clear_screen scr\<rparr>"
  have "0 < kernel_size P" using u by (simp add: used_memory_ok_def)
  from load_and_hand_over [OF _ _ _ ep lay, of bld P segs m K ?b m1] this cfg rd l4(2,3) sd boot_input_top [OF inp] m1 root
  have "case bind_bm (load_kernel B bld P segs) (\<lambda>(r, page, info). hand_over B bld (top_of m) entry_point r page info) ?b of
      Inl p \<Rightarrow> p \<in> exhausted \<and> \<not> ample E (boot_cost bld segs (top_of m)) m1
    | Inr (ho, _) \<Rightarrow> handed_over B mappable translate_2m bld P entry_point segs m (bm_cpu ?b) (ld_pt (bm_ld ?b)) (ld_mem (bm_ld ?b)) ho \<and>
        card (usable m1) \<le> boot_cost bld segs (top_of m) + card (usable (bi_memory_map (ho_boot_info ho)))"
    by (simp add: default_addresses_def)
  moreover have "bootloader_main B bld P c scr pt mem =
    bind_rust (bind_bm (load_kernel B bld P segs) (\<lambda>(r, page, info). hand_over B bld (top_of m) entry_point r page info) ?b) (\<lambda>(ho, _). Inr ho)"
    by (simp add: bootloader_main_def m boot_input_top(1) [OF inp] boot_input_read_elf [OF inp rd'(1)] l4(1))
  ultimately show ?thesis using m1(1) by (auto simp: bind_rust_def split: sum.splits)
qed

end

end
