(* ===== verification/BootExample.thy ===== *)
theory BootExample
  imports BootLoader
begin

text \<open>
  An instance of the machine of \<open>boot_machine\<close>: the four-level table of \<open>Paging\<close> with pages of 2 MiB and
  recursive entries, and a boot on it. A page under a recursive entry or inside a large page is not translated
  as a page of 4 KiB and cannot be mapped as one.
\<close>

subsection \<open>The table\<close>

record boot_tables =
  bt_small :: page_tables
  bt_large :: "u64 \<rightharpoonup> (u64 \<times> page_flags)"
  bt_recursive :: "u64 set"

definition large_of :: "u64 \<Rightarrow> u64" where
  "large_of page = page div 2 ^ 21 * 2 ^ 21"

definition shut :: "boot_tables \<Rightarrow> u64 \<Rightarrow> bool" where
  "shut pt page \<longleftrightarrow> page div 2 ^ 39 \<in> bt_recursive pt \<or> bt_large pt (large_of page) \<noteq> None"

definition bt_translate :: "boot_tables \<Rightarrow> u64 \<Rightarrow> (u64 \<times> page_flags) option" where
  "bt_translate pt page = (if shut pt page then None else leaves (bt_small pt) page)"

definition bt_translate_2m :: "boot_tables \<Rightarrow> u64 \<Rightarrow> (u64 \<times> page_flags) option" where
  "bt_translate_2m pt page = (if page div 2 ^ 39 \<in> bt_recursive pt then None else bt_large pt page)"

definition bt_mappable :: "boot_tables \<Rightarrow> u64 \<Rightarrow> bool" where
  "bt_mappable pt page \<longleftrightarrow> \<not> shut pt page \<and> leaves (bt_small pt) page = None"

definition bt_mappable_2m :: "boot_tables \<Rightarrow> u64 \<Rightarrow> bool" where
  "bt_mappable_2m pt page \<longleftrightarrow>
     page div 2 ^ 39 \<notin> bt_recursive pt \<and> bt_large pt page = None \<and> (1, table_of 1 page) \<notin> tables (bt_small pt)"

definition with_small :: "boot_tables \<Rightarrow> 'r \<times> page_tables \<times> 'fa \<Rightarrow> 'r \<times> boot_tables \<times> 'fa" where
  "with_small pt = (\<lambda>(r, small, fa). (r, pt\<lparr>bt_small := small\<rparr>, fa))"

definition bt_map_to :: "(boot_tables, 'fa) map_to" where
  "bt_map_to alloc page frame fl pt fa =
     (if shut pt page then Inr (Inl ParentEntryHugePage, pt, fa)
      else map_sum id (with_small pt) (four_level_map_to alloc page frame fl (bt_small pt) fa))"

definition bt_map_to_2m :: "(boot_tables, 'fa) map_to" where
  "bt_map_to_2m alloc page frame fl pt fa =
     (if page div 2 ^ 39 \<in> bt_recursive pt then Inr (Inl ParentEntryHugePage, pt, fa)
      else bind_rust (create_tables alloc [3, 2] page (bt_small pt) fa) (\<lambda>(r, small, fa').
        case r of
          Inl e \<Rightarrow> Inr (Inl e, pt\<lparr>bt_small := small\<rparr>, fa')
        | Inr _ \<Rightarrow>
            if bt_large pt page \<noteq> None \<or> (1, table_of 1 page) \<in> tables small
            then Inr (Inl (PageAlreadyMapped page), pt\<lparr>bt_small := small\<rparr>, fa')
            else Inr (Inr page, pt\<lparr>bt_small := small, bt_large := (bt_large pt)(page \<mapsto> (frame, fl))\<rparr>, fa')))"

definition bt_recursive_addr :: "u64 \<Rightarrow> u64" where
  "bt_recursive_addr i = page_from_indices x86_documented i i i i"

definition bt_recursive_new :: "u64 \<Rightarrow> boot_tables \<Rightarrow> bool" where
  "bt_recursive_new addr pt \<longleftrightarrow>
     addr div 2 ^ 39 < 256 \<and> addr div 2 ^ 39 \<in> bt_recursive pt \<and> addr = bt_recursive_addr (addr div 2 ^ 39)"

definition bt_unmap :: "u64 \<Rightarrow> boot_tables \<Rightarrow> (unmap_error + u64) \<times> boot_tables" where
  "bt_unmap page pt =
     (case bt_translate pt page of
        Some (f, _) \<Rightarrow> (Inr f, pt\<lparr>bt_small := (bt_small pt)\<lparr>leaves := (leaves (bt_small pt))(page := None)\<rparr>\<rparr>)
      | None \<Rightarrow>
          if bt_recursive_new page pt then (Inr 0, pt\<lparr>bt_recursive := bt_recursive pt - {page div 2 ^ 39}\<rparr>)
          else (Inl Page_not_mapped, pt))"

definition bt_unmap_2m :: "u64 \<Rightarrow> boot_tables \<Rightarrow> (unmap_error + u64) \<times> boot_tables" where
  "bt_unmap_2m page pt =
     (case bt_translate_2m pt page of
        None \<Rightarrow> (Inl Page_not_mapped, pt)
      | Some (f, _) \<Rightarrow>
          (Inr f, pt\<lparr>bt_large := (bt_large pt)(page := None),
             bt_small := (bt_small pt)\<lparr>leaves := (\<lambda>a. if large_of a = page then None else leaves (bt_small pt) a)\<rparr>\<rparr>))"

text \<open>Writing an entry of the top-level table drops what was under it; the address has to be one of a frame.\<close>

definition bt_set_p4_entry :: "u64 \<Rightarrow> u64 \<Rightarrow> u64 \<Rightarrow> page_flags \<Rightarrow> boot_tables \<Rightarrow> boot_tables rust" where
  "bt_set_p4_entry root i addr fl pt =
     (if addr mod 4096 \<noteq> 0 \<or> addr \<noteq> root then Inl invalid_address
      else Inr \<lparr>bt_small = \<lparr>tables = {(l, t) \<in> tables (bt_small pt). t div 2 ^ (27 - 9 * l) \<noteq> i},
                           leaves = (\<lambda>a. if a div 2 ^ 39 = i then None else leaves (bt_small pt) a)\<rparr>,
               bt_large = (\<lambda>a. if a div 2 ^ 39 = i then None else bt_large pt a),
               bt_recursive = insert i (bt_recursive pt)\<rparr>)"

definition bt_entry ::
  "boot_tables \<Rightarrow> u64 \<Rightarrow> bool \<times> ((nat \<times> u64) set \<times> (u64 \<rightharpoonup> u64 \<times> page_flags)) \<times> (u64 \<rightharpoonup> u64 \<times> page_flags)" where
  "bt_entry pt i = (i \<in> bt_recursive pt, under (bt_small pt) i, \<lambda>a. if a div 2 ^ 39 = i then bt_large pt a else None)"

definition bt_blank :: "bool \<times> ((nat \<times> u64) set \<times> (u64 \<rightharpoonup> u64 \<times> page_flags)) \<times> (u64 \<rightharpoonup> u64 \<times> page_flags) \<Rightarrow> bool" where
  "bt_blank e \<longleftrightarrow> e = (False, ({}, Map.empty), Map.empty)"

definition boot_loader_env :: "profile \<Rightarrow> boot_tables loader_env" where
  "boot_loader_env p =
     \<lparr>env_sort = insertion_sort_by, env_x86 = x86_documented, env_profile = p, env_map_to = bt_map_to,
      env_unmap = bt_unmap, env_translate = bt_translate\<rparr>"

lemma boot_loader_env_fields [simp]:
  "env_sort (boot_loader_env p) = insertion_sort_by" "env_x86 (boot_loader_env p) = x86_documented"
  "env_profile (boot_loader_env p) = p" "env_map_to (boot_loader_env p) = bt_map_to"
  "env_unmap (boot_loader_env p) = bt_unmap" "env_translate (boot_loader_env p) = bt_translate"
  by (simp_all add: boot_loader_env_def)

subsection \<open>The laws of the mapper\<close>

lemma bt_map_Ok:
  assumes "bt_map_to alloc page frame fl pt fa = Inr (Inr u, pt', fa')"
  obtains small where "\<not> shut pt page" and "pt' = pt\<lparr>bt_small := small\<rparr>"
    and "four_level_map_to alloc page frame fl (bt_small pt) fa = Inr (Inr u, small, fa')"
  using assms by (cases "four_level_map_to alloc page frame fl (bt_small pt) fa")
    (auto simp: bt_map_to_def with_small_def split: if_splits)

lemma bt_map_Err:
  assumes "bt_map_to alloc page frame fl pt fa = Inr (Inl e, pt', fa')"
  shows "bt_translate pt' = bt_translate pt"
proof (cases "shut pt page")
  case False
  then obtain small where "pt' = pt\<lparr>bt_small := small\<rparr>" "four_level_map_to alloc page frame fl (bt_small pt) fa = Inr (Inl e, small, fa')"
    using assms by (cases "four_level_map_to alloc page frame fl (bt_small pt) fa") (auto simp: bt_map_to_def with_small_def)
  then show ?thesis using fl.map_failed by (fastforce simp: bt_translate_def shut_def)
qed (use assms in \<open>simp add: bt_map_to_def\<close>)

lemma done_within_with_small:
  assumes "done_within alloc n fa x r"
  shows "done_within alloc n fa x (map_sum id (with_small pt) r)"
proof -
  obtain fs fa1 where f: "drawn alloc fs fa fa1"
    "length fs \<le> n \<and> (\<exists>pt'. r = Inr (Inr x, pt', fa1)) \<or>
     length fs < n \<and> (\<exists>pt' fa2. alloc fa1 = Inr (None, fa2) \<and> r = Inr (Inl FrameAllocationFailed, pt', fa2)) \<or>
     length fs < n \<and> (\<exists>p. alloc fa1 = Inl p \<and> r = Inl p)" using assms unfolding done_within_def by blast
  then show ?thesis unfolding done_within_def by (intro exI [of _ fs] exI [of _ fa1]) (auto simp: with_small_def)
qed

lemma shut_small [simp]: "shut (pt\<lparr>bt_small := small\<rparr>) page = shut pt page"
  by (simp add: shut_def)

lemma bt_mapper: "mapper bt_map_to bt_translate bt_mappable"
proof (rule mapper.intro)
  fix alloc :: "'fa frame_source" and page frame fl pt fa u pt' fa' q
  assume m: "bt_map_to alloc page frame fl pt fa = Inr (Inr u, pt', fa')"
  obtain small where s: "\<not> shut pt page" "pt' = pt\<lparr>bt_small := small\<rparr>"
    "four_level_map_to alloc page frame fl (bt_small pt) fa = Inr (Inr u, small, fa')" by (rule bt_map_Ok [OF m])
  have l: "leaves small = (leaves (bt_small pt))(page \<mapsto> (frame, fl))" by (rule fl.map_ok [OF s(3)])
  show "bt_translate pt' = (bt_translate pt)(page \<mapsto> (frame, fl))" using s(1,2) l by (auto simp: bt_translate_def)
  show "\<exists>fs. length fs \<le> 3 \<and> drawn alloc fs fa fa'" by (rule fl.map_ok_draws [OF s(3)])
  show "bt_translate pt page = None" using fl.map_taken [OF s(3)] by (simp add: bt_translate_def)
  show "bt_mappable pt' q" if "bt_mappable pt q" "q \<noteq> page" using that s(2) l by (simp add: bt_mappable_def)
next
  fix alloc :: "'fa frame_source" and page frame fl pt fa
  assume "bt_mappable pt page"
  then show "done_within alloc 3 fa page (bt_map_to alloc page frame fl pt fa)"
    using done_within_with_small [OF fl.map_outcome, of "bt_small pt" page alloc fa pt frame fl]
    by (simp add: bt_mappable_def bt_map_to_def)
qed (rule bt_map_Err)

subsection \<open>The laws of the machine\<close>

lemma large_of_level4: "large_of page div 2 ^ 39 = page div 2 ^ 39"
proof -
  have d: "a div 2 ^ 39 = a div 2 ^ 21 div 2 ^ 18" for a :: nat
  proof -
    have "a div (2 ^ 21 * 2 ^ 18) = a div 2 ^ 21 div 2 ^ 18" by (rule div_mult2_eq)
    then show ?thesis by simp
  qed
  show ?thesis unfolding d [of "large_of page"] d [of page] by (simp add: large_of_def)
qed

lemma large_of_small: "large_of (q * 4096) = q div 512 * 2 ^ 21"
proof -
  have "q * 4096 div (4096 * 512) = q * 4096 div 4096 div 512" by (rule div_mult2_eq)
  then show ?thesis by (simp add: large_of_def)
qed

lemma large_number: "large_of (n * 2 ^ 21) = n * 2 ^ 21"
  by (simp add: large_of_def)

lemma large_level4: "n * 2 ^ 21 div 2 ^ 39 = n div 2 ^ 18" for n :: nat
proof -
  have "n * 2 ^ 21 div (2 ^ 21 * 2 ^ 18) = n * 2 ^ 21 div 2 ^ 21 div 2 ^ 18" by (rule div_mult2_eq)
  then show ?thesis by simp
qed

lemma bt_unmap_Ok:
  assumes "bt_translate pt page = Some (f, fl)"
  shows "\<exists>pt'. bt_unmap page pt = (Inr f, pt') \<and> bt_translate pt' = (bt_translate pt)(page := None) \<and> bt_mappable pt' page \<and>
    (\<forall>q. bt_mappable pt q \<longrightarrow> bt_mappable pt' q)"
proof -
  have "\<not> shut pt page" using assms by (auto simp: bt_translate_def split: if_splits)
  then show ?thesis using assms by (auto simp: bt_unmap_def bt_translate_def bt_mappable_def fun_eq_iff)
qed

lemma bt_unmap_entry:
  assumes "bt_unmap page pt = (Inr f, pt')" and "i \<noteq> page div 2 ^ 39"
  shows "bt_entry pt' i = bt_entry pt i"
proof (cases "bt_translate pt page")
  case None
  then show ?thesis using assms by (auto simp: bt_unmap_def bt_entry_def split: if_splits simp del: power_numeral)
next
  case (Some x)
  then show ?thesis using assms under_leaves [OF assms(2), of "bt_small pt" None]
    by (auto simp: bt_unmap_def bt_entry_def split: prod.splits simp del: power_numeral)
qed

lemma bt_map_entry:
  assumes "bt_map_to alloc page frame fl pt fa = Inr (Inr u, pt', fa')" and "i \<noteq> page div 2 ^ 39"
  shows "bt_entry pt' i = bt_entry pt i"
proof (rule bt_map_Ok [OF assms(1)])
  fix small assume "pt' = pt\<lparr>bt_small := small\<rparr>" "four_level_map_to alloc page frame fl (bt_small pt) fa = Inr (Inr u, small, fa')"
  then show ?thesis using four_level_map_under [OF _ assms(2)] by (auto simp: bt_entry_def simp del: power_numeral)
qed

interpretation bt: kernel_loader "boot_loader_env p" bt_mappable bt_entry for p
proof (intro kernel_loader.intro kernel_loader_axioms.intro)
  show "frame_allocation (env_sort (boot_loader_env p)) (env_x86 (boot_loader_env p))"
    by (simp add: fa.frame_allocation_axioms)
  show "mapper (env_map_to (boot_loader_env p)) (env_translate (boot_loader_env p)) bt_mappable"
    by (simp add: bt_mapper)
qed (simp_all add: bt_unmap_Ok bt_unmap_entry bt_map_entry del: power_numeral)

lemma create_tables_known:
  "create_tables alloc ls page pt fa = Inr (r, pt', fa') \<Longrightarrow> l \<notin> set ls \<Longrightarrow> (l, t) \<in> tables pt' \<longleftrightarrow> (l, t) \<in> tables pt"
proof (induction ls arbitrary: pt fa)
  case (Cons k ls)
  obtain q pt1 fa1 where 1: "create_next_table alloc k page pt fa = Inr (q, pt1, fa1)"
    "pt' = pt1 \<or> create_tables alloc ls page pt1 fa1 = Inr (r, pt', fa')"
    using Cons.prems(1) by (auto simp: rust_splits)
  then have "(l, t) \<in> tables pt1 \<longleftrightarrow> (l, t) \<in> tables pt"
    using Cons.prems(2) by (auto simp: create_next_table_def bind_rust_eq_Inr split: if_splits option.splits)
  then show ?case using 1(2) Cons.IH Cons.prems(2) by auto
qed simp

lemma bt_map_2m_Ok:
  assumes "bt_map_to_2m alloc page frame fl pt fa = Inr (Inr u, pt', fa')"
  obtains small v where "page div 2 ^ 39 \<notin> bt_recursive pt" and "create_tables alloc [3, 2] page (bt_small pt) fa = Inr (Inr v, small, fa')"
    and "pt' = pt\<lparr>bt_small := small, bt_large := (bt_large pt)(page \<mapsto> (frame, fl))\<rparr>"
  using assms by (auto simp: bt_map_to_2m_def rust_splits split: if_splits simp del: create_tables.simps power_numeral)

lemma bt_map_2m_outcome:
  assumes "bt_mappable_2m pt page"
  shows "done_within alloc 2 fa page (bt_map_to_2m alloc page frame fl pt fa)"
proof -
  note c = create_tables_outcome [of alloc "[3, 2]" fa page "bt_small pt", simplified length_Cons list.size(3)]
  obtain fs fa1 where f: "drawn alloc fs fa fa1"
    "length fs \<le> 2 \<and> (\<exists>small. create_tables alloc [3, 2] page (bt_small pt) fa = Inr (Inr page, small, fa1)) \<or>
     length fs < 2 \<and> (\<exists>small fa2. alloc fa1 = Inr (None, fa2) \<and>
       create_tables alloc [3, 2] page (bt_small pt) fa = Inr (Inl FrameAllocationFailed, small, fa2)) \<or>
     length fs < 2 \<and> (\<exists>p. alloc fa1 = Inl p \<and> create_tables alloc [3, 2] page (bt_small pt) fa = Inl p)"
    using c unfolding done_within_def numeral_2_eq_2 by blast
  have "(1, table_of 1 page) \<notin> tables small" if "create_tables alloc [3, 2] page (bt_small pt) fa = Inr (r, small, fa2)" for r small fa2
    using create_tables_known [OF that, of 1] assms by (simp add: bt_mappable_2m_def)
  then show ?thesis
    unfolding done_within_def using f assms
    by (intro exI [of _ fs] exI [of _ fa1]) (auto simp: bt_map_to_2m_def bt_mappable_2m_def simp del: create_tables.simps power_numeral)
qed

lemma bt_map_2m_effect:
  assumes "bt_map_to_2m alloc (n * 2 ^ 21) frame fl pt fa = Inr (Inr u, pt', fa')"
  shows "bt_translate_2m pt' = (bt_translate_2m pt)(n * 2 ^ 21 \<mapsto> (frame, fl))"
    and "q div 512 \<noteq> n \<Longrightarrow> bt_translate pt' (q * 4096) = bt_translate pt (q * 4096) \<and>
      (bt_mappable pt (q * 4096) \<longrightarrow> bt_mappable pt' (q * 4096))"
    and "k \<noteq> n \<Longrightarrow> bt_mappable_2m pt (k * 2 ^ 21) \<Longrightarrow> bt_mappable_2m pt' (k * 2 ^ 21)"
    and "i \<noteq> n div 2 ^ 18 \<Longrightarrow> bt_entry pt' i = bt_entry pt i"
proof -
  obtain small v where s: "n * 2 ^ 21 div 2 ^ 39 \<notin> bt_recursive pt"
    "create_tables alloc [3, 2] (n * 2 ^ 21) (bt_small pt) fa = Inr (Inr v, small, fa')"
    "pt' = pt\<lparr>bt_small := small, bt_large := (bt_large pt)(n * 2 ^ 21 \<mapsto> (frame, fl))\<rparr>" by (rule bt_map_2m_Ok [OF assms])
  have lv: "leaves small = leaves (bt_small pt)" by (rule create_tables_leaves [OF s(2)])
  show "bt_translate_2m pt' = (bt_translate_2m pt)(n * 2 ^ 21 \<mapsto> (frame, fl))"
    using s(1,3) by (auto simp: bt_translate_2m_def fun_eq_iff simp del: power_numeral)
  show "bt_translate pt' (q * 4096) = bt_translate pt (q * 4096) \<and> (bt_mappable pt (q * 4096) \<longrightarrow> bt_mappable pt' (q * 4096))"
    if "q div 512 \<noteq> n"
  proof -
    have "shut pt' (q * 4096) = shut pt (q * 4096)" using that unfolding shut_def s(3) large_of_small by simp
    then show ?thesis using lv s(3) by (simp add: bt_translate_def bt_mappable_def)
  qed
  show "bt_mappable_2m pt' (k * 2 ^ 21)" if "k \<noteq> n" "bt_mappable_2m pt (k * 2 ^ 21)"
    using that create_tables_known [OF s(2), of 1] by (simp add: bt_mappable_2m_def s(3))
  show "bt_entry pt' i = bt_entry pt i" if "i \<noteq> n div 2 ^ 18"
  proof -
    have i: "i \<noteq> n * 2 ^ 21 div 2 ^ 39" using that unfolding large_level4 .
    have "under small i = under (bt_small pt) i" by (rule create_tables_under [OF s(2) _ i]) simp
    then show ?thesis using i by (auto simp: bt_entry_def s(3) fun_eq_iff simp del: power_numeral)
  qed
qed

lemma bt_unmap_2m_effect:
  assumes "bt_translate_2m pt (n * 2 ^ 21) \<noteq> None"
  shows "\<exists>f pt'. bt_unmap_2m (n * 2 ^ 21) pt = (Inr f, pt') \<and> bt_translate_2m pt' = (bt_translate_2m pt)(n * 2 ^ 21 := None) \<and>
    (\<forall>q. q div 512 \<noteq> n \<longrightarrow> bt_translate pt' (q * 4096) = bt_translate pt (q * 4096) \<and>
       (bt_mappable pt (q * 4096) \<longrightarrow> bt_mappable pt' (q * 4096))) \<and>
    (\<forall>q. q div 512 = n \<longrightarrow> bt_mappable pt' (q * 4096)) \<and> (\<forall>i. i \<noteq> n div 2 ^ 18 \<longrightarrow> bt_entry pt' i = bt_entry pt i)"
proof -
  obtain f fl where t: "bt_translate_2m pt (n * 2 ^ 21) = Some (f, fl)" using assms by auto
  let ?small = "(bt_small pt)\<lparr>leaves := (\<lambda>a. if large_of a = n * 2 ^ 21 then None else leaves (bt_small pt) a)\<rparr>"
  define pt' where "pt' = pt\<lparr>bt_large := (bt_large pt)(n * 2 ^ 21 := None), bt_small := ?small\<rparr>"
  have u: "bt_unmap_2m (n * 2 ^ 21) pt = (Inr f, pt')" using t by (simp add: bt_unmap_2m_def pt'_def)
  have rec: "n * 2 ^ 21 div 2 ^ 39 \<notin> bt_recursive pt" using assms unfolding bt_translate_2m_def by metis
  have ne: "q div 512 * 2 ^ 21 = n * 2 ^ 21 \<longleftrightarrow> q div 512 = n" for q by simp
  have out: "bt_translate pt' (q * 4096) = bt_translate pt (q * 4096) \<and> (bt_mappable pt (q * 4096) \<longrightarrow> bt_mappable pt' (q * 4096))"
    if "q div 512 \<noteq> n" for q
    using that by (simp add: bt_translate_def bt_mappable_def shut_def pt'_def large_of_small)
  have into: "bt_mappable pt' (q * 4096)" if "q div 512 = n" for q
  proof -
    have "q * 4096 div 2 ^ 39 = n * 2 ^ 21 div 2 ^ 39" using large_of_level4 [of "q * 4096"] that by (simp only: large_of_small)
    then have "q * 4096 div 2 ^ 39 \<notin> bt_recursive pt" using rec by metis
    then show ?thesis using that by (simp add: bt_mappable_def shut_def pt'_def large_of_small)
  qed
  have ent: "bt_entry pt' i = bt_entry pt i" if "i \<noteq> n div 2 ^ 18" for i
  proof -
    have i: "i \<noteq> n * 2 ^ 21 div 2 ^ 39" using that unfolding large_level4 .
    have "a div 2 ^ 39 \<noteq> i" if "large_of a = n * 2 ^ 21" for a using large_of_level4 [of a] that i by metis
    then show ?thesis using i by (auto simp: bt_entry_def under_def pt'_def fun_eq_iff simp del: power_numeral)
  qed
  have "bt_translate_2m pt' = (bt_translate_2m pt)(n * 2 ^ 21 := None)"
    by (auto simp: bt_translate_2m_def pt'_def fun_eq_iff)
  with u out into ent show ?thesis by blast
qed

lemma bt_recursive_addr_level4:
  assumes "i < 256"
  shows "bt_recursive_addr i div 2 ^ 39 = i"
proof -
  have "bt_recursive_addr i = i * 2 ^ 39 + i * 2 ^ 30 + i * 2 ^ 21 + i * 2 ^ 12"
    unfolding bt_recursive_addr_def using assms by (intro xd.from_indices) simp_all
  moreover have "(i * 2 ^ 39 + i * 2 ^ 30 + i * 2 ^ 21 + i * 2 ^ 12) div 2 ^ 39 = i" by (rule div_nat_eqI) (use assms in simp_all)
  ultimately show ?thesis by metis
qed

lemma bt_set_root:
  assumes "root mod 4096 = 0" and "i < 256"
  shows "\<exists>pt'. bt_set_p4_entry root i root {PRESENT, WRITABLE} pt = Inr pt' \<and> bt_recursive_new (bt_recursive_addr i) pt' \<and>
    (\<forall>j. j \<noteq> i \<longrightarrow> bt_entry pt' j = bt_entry pt j) \<and>
    (\<forall>page. page div 2 ^ 39 \<noteq> i \<longrightarrow> bt_translate pt' page = bt_translate pt page \<and>
       bt_translate_2m pt' page = bt_translate_2m pt page \<and> (bt_mappable pt page \<longrightarrow> bt_mappable pt' page))"
proof -
  define pt' where "pt' = \<lparr>bt_small = \<lparr>tables = {(l, t) \<in> tables (bt_small pt). t div 2 ^ (27 - 9 * l) \<noteq> i},
                           leaves = (\<lambda>a. if a div 2 ^ 39 = i then None else leaves (bt_small pt) a)\<rparr>,
               bt_large = (\<lambda>a. if a div 2 ^ 39 = i then None else bt_large pt a),
               bt_recursive = insert i (bt_recursive pt)\<rparr>"
  have s: "bt_set_p4_entry root i root {PRESENT, WRITABLE} pt = Inr pt'" using assms(1) by (simp add: bt_set_p4_entry_def pt'_def)
  have "bt_recursive_new (bt_recursive_addr i) pt'" unfolding bt_recursive_new_def bt_recursive_addr_level4 [OF assms(2)] using assms(2) by (simp add: pt'_def)
  moreover have "bt_entry pt' j = bt_entry pt j" if "j \<noteq> i" for j
    using that by (auto simp: bt_entry_def under_def pt'_def fun_eq_iff simp del: power_numeral)
  moreover have "bt_translate pt' page = bt_translate pt page \<and> bt_translate_2m pt' page = bt_translate_2m pt page \<and>
      (bt_mappable pt page \<longrightarrow> bt_mappable pt' page)" if "page div 2 ^ 39 \<noteq> i" for page
  proof -
    have "large_of page div 2 ^ 39 \<noteq> i" using that large_of_level4 by metis
    then have "shut pt' page = shut pt page" using that by (simp add: shut_def pt'_def del: power_numeral)
    then show ?thesis using that by (simp add: bt_translate_def bt_translate_2m_def bt_mappable_def pt'_def del: power_numeral)
  qed
  ultimately show ?thesis using s by blast
qed

lemma bt_recursive_same:
  assumes "i < 256" and "bt_recursive_new (bt_recursive_addr i) pt" and "bt_entry pt' i = bt_entry pt i"
  shows "bt_recursive_new (bt_recursive_addr i) pt'"
  using assms(2,3) unfolding bt_recursive_new_def bt_recursive_addr_level4 [OF assms(1)] by (simp add: bt_entry_def)

lemma bt_recursive_unmap:
  assumes "i < 256" and "bt_recursive_new (bt_recursive_addr i) pt"
  shows "\<exists>f pt'. bt_unmap (bt_recursive_addr i) pt = (Inr f, pt') \<and>
    (\<forall>page. page div 2 ^ 39 \<noteq> i \<longrightarrow> bt_translate pt' page = bt_translate pt page \<and> bt_translate_2m pt' page = bt_translate_2m pt page \<and>
       (bt_mappable pt page \<longrightarrow> bt_mappable pt' page))"
proof -
  have "i \<in> bt_recursive pt" using assms(2) unfolding bt_recursive_new_def bt_recursive_addr_level4 [OF assms(1)] by simp
  then have "bt_translate pt (bt_recursive_addr i) = None"
    by (simp add: bt_translate_def shut_def bt_recursive_addr_level4 [OF assms(1)] del: power_numeral)
  then have "bt_unmap (bt_recursive_addr i) pt = (Inr 0, pt\<lparr>bt_recursive := bt_recursive pt - {i}\<rparr>)"
    using assms(2) by (simp add: bt_unmap_def bt_recursive_addr_level4 [OF assms(1)] del: power_numeral)
  then show ?thesis by (auto simp: bt_translate_def bt_translate_2m_def bt_mappable_def shut_def simp del: power_numeral)
qed

lemma bt_blank_mappable:
  assumes "bt_blank (bt_entry pt i)" and "page div 2 ^ 39 = i"
  shows "bt_mappable pt page \<and> bt_mappable_2m pt page"
proof -
  have e: "i \<notin> bt_recursive pt" "\<And>a. a div 2 ^ 39 = i \<Longrightarrow> bt_large pt a = None" "\<And>a. a div 2 ^ 39 = i \<Longrightarrow> leaves (bt_small pt) a = None"
    "\<And>l t. (l, t) \<in> tables (bt_small pt) \<Longrightarrow> t div 2 ^ (27 - 9 * l) \<noteq> i"
    using assms(1) by (auto simp: bt_blank_def bt_entry_def under_def fun_eq_iff split: if_splits simp del: power_numeral)
      (metis not_None_eq surj_pair)+
  have "table_of 1 page div 2 ^ (27 - 9 * 1) = i"
    using assms(2) div_mult2_eq [of page "2 ^ 21" "2 ^ 18"] by (simp add: table_of_def)
  then have "(1, table_of 1 page) \<notin> tables (bt_small pt)" using e(4) by blast
  moreover have "bt_large pt (large_of page) = None" using e(2) [of "large_of page"] large_of_level4 [of page] assms(2) by metis
  ultimately show ?thesis
    using e(1) e(2,3) [OF assms(2)] assms(2) by (simp add: bt_mappable_def bt_mappable_2m_def shut_def del: power_numeral)
qed

text \<open>
  The environment of a boot. The ELF reader is one for a file with a known entry point and headers, recognised by
  its magic bytes; the layout of the boot information starts with the number of its regions.
\<close>

definition boot_env_documented :: "profile \<Rightarrow> u64 \<Rightarrow> elf \<Rightarrow> boot_tables boot_env" where
  "boot_env_documented p root elf =
     \<lparr>be_loader = boot_loader_env p, be_map_to_2m = bt_map_to_2m, be_unmap_2m = bt_unmap_2m, be_set_p4_entry = bt_set_p4_entry root,
      be_recursive_new = bt_recursive_new, be_elf_new = (\<lambda>bytes. if take 4 bytes = [127, 69, 76, 70] then Some elf else None),
      be_sanity_check = (\<lambda>bytes. 64 \<le> length bytes), be_layout = (\<lambda>bi. [next_entry_index (bi_memory_map bi) mod 256])\<rparr>"

lemma boot_env_documented_fields [simp]:
  "be_loader (boot_env_documented p root elf) = boot_loader_env p" "be_map_to_2m (boot_env_documented p root elf) = bt_map_to_2m"
  "be_unmap_2m (boot_env_documented p root elf) = bt_unmap_2m" "be_set_p4_entry (boot_env_documented p root elf) = bt_set_p4_entry root"
  "be_recursive_new (boot_env_documented p root elf) = bt_recursive_new"
  "be_elf_new (boot_env_documented p root elf) bytes = (if take 4 bytes = [127, 69, 76, 70] then Some elf else None)"
  "be_sanity_check (boot_env_documented p root elf) bytes \<longleftrightarrow> 64 \<le> length bytes"
  "be_layout (boot_env_documented p root elf) bi = [next_entry_index (bi_memory_map bi) mod 256]"
  "recursive_addr (boot_env_documented p root elf) = bt_recursive_addr"
  by (simp_all add: boot_env_documented_def recursive_addr_def bt_recursive_addr_def fun_eq_iff)

interpretation bm: boot_machine "boot_env_documented p (n * 4096) elf" bt_mappable bt_entry "n * 4096" bt_blank bt_translate_2m bt_mappable_2m
  for p n elf
proof (intro boot_machine.intro boot_machine_axioms.intro, unfold boot_env_documented_fields boot_loader_env_fields)
  show "kernel_loader (boot_loader_env p) bt_mappable bt_entry" by (rule bt.kernel_loader_axioms)
next
  fix i pt assume "i < (256::nat)"
  then show "\<exists>pt'. bt_set_p4_entry (n * 4096) i (n * 4096) {PRESENT, WRITABLE} pt = Inr pt' \<and> bt_recursive_new (bt_recursive_addr i) pt' \<and>
      (\<forall>j. j \<noteq> i \<longrightarrow> bt_entry pt' j = bt_entry pt j) \<and>
      (\<forall>page. page div 2 ^ 39 \<noteq> i \<longrightarrow> bt_translate pt' page = bt_translate pt page \<and>
         bt_translate_2m pt' page = bt_translate_2m pt page \<and> (bt_mappable pt page \<longrightarrow> bt_mappable pt' page))"
    by (intro bt_set_root) simp_all
next
  fix alloc :: "memory_map frame_source" and m frame fl pt fa u pt' fa'
  assume "bt_map_to_2m alloc (m * 2 ^ 21) frame fl pt fa = Inr (Inr u, pt', fa')"
  note e = bt_map_2m_effect [OF this]
  show "bt_translate_2m pt' = (bt_translate_2m pt)(m * 2 ^ 21 \<mapsto> (frame, fl)) \<and>
      (\<forall>q. q div 512 \<noteq> m \<longrightarrow> bt_translate pt' (q * 4096) = bt_translate pt (q * 4096) \<and>
         (bt_mappable pt (q * 4096) \<longrightarrow> bt_mappable pt' (q * 4096))) \<and>
      (\<forall>k. k \<noteq> m \<longrightarrow> bt_mappable_2m pt (k * 2 ^ 21) \<longrightarrow> bt_mappable_2m pt' (k * 2 ^ 21)) \<and>
      (\<forall>i. i \<noteq> m div 2 ^ 18 \<longrightarrow> bt_entry pt' i = bt_entry pt i)"
    using e by blast
qed (rule bt_blank_mappable bt_recursive_same bt_recursive_unmap bt_unmap_2m_effect bt_map_2m_outcome; assumption)+

subsection \<open>The property and a boot\<close>

text \<open>
  C6: the bootloader's last stage, from the BIOS memory table to the jump. On a kernel file whose segments
  lie within the file, on pages of their own, it loads every segment (file bytes, zeroed rest, its flags,
  frames that are the file's or were usable), maps the stack below the stack pointer, writes the boot
  information to its page, reports as usable only frames that the table reported as usable and that neither
  the bootloader nor the kernel holds, maps the whole physical memory and keeps the recursive entry where the
  features ask for it, and sets the registers. The only panics are those of a map with too few free frames or
  slots for the stated number of allocations.
\<close>

theorem bootloader_hands_over:
  assumes "boot_machine B mappable entry (p4_physical P) blank translate_2m mappable_2m"
    and "boot_input B P mem entry_point segs m" and "default_addresses (bld_config bld)"
    and "boot_ready mappable entry blank translate_2m P segs (KERNEL_STACK_SIZE (bld_config bld)) (top_of m) K pt"
    and "\<And>bi. length (be_layout B bi) \<le> 4096"
  shows "\<exists>m1. mark_used_regions (be_loader B) P m = Inr m1 \<and>
    (case bootloader_main B bld P c scr pt mem of
       Inl p \<Rightarrow> p \<in> exhausted \<and> \<not> ample (be_loader B) (boot_cost bld segs (top_of m)) m1
     | Inr ho \<Rightarrow> handed_over B mappable translate_2m bld P entry_point segs m c pt mem ho \<and>
         card (usable m1) \<le> boot_cost bld segs (top_of m) + card (usable (bi_memory_map (ho_boot_info ho))))"
  by (rule boot_machine.bootloader_main_correct [OF assms(1) refl assms(2-5)])

text \<open>
  A kernel of 20000 bytes with one segment, 5 MiB of memory, the file identity mapped by a page of 2 MiB; the
  physical memory is mapped and the recursive entry kept.
\<close>

definition five_mib :: e820_memory_region where
  "five_mib = \<lparr>e820_start_addr = 0, e820_len = 5242880, e820_region_type = 1, e820_acpi_extended_attributes = 0\<rparr>"

definition boot_params_example :: boot_params where
  "boot_params_example = example_params\<lparr>memory_table := [five_mib]\<rparr>"

definition boot_memory :: "u64 \<Rightarrow> nat" where
  "boot_memory a =
     (if a = 4194304 then 127 else if a = 4194305 then 69 else if a = 4194306 then 76 else if a = 4194307 then 70 else a mod 256)"

definition boot_tables_example :: boot_tables where
  "boot_tables_example =
     \<lparr>bt_small = \<lparr>tables = {}, leaves = Map.empty\<rparr>, bt_large = [4194304 \<mapsto> (4194304, {PRESENT, WRITABLE})], bt_recursive = {}\<rparr>"

definition boot_build_example :: boot_build where
  "boot_build_example =
     \<lparr>bld_features = \<lparr>recursive_page_table = True, map_physical_memory = True\<rparr>, bld_sse = True,
      bld_config = config_default\<lparr>cfg_kernel_stack_size := Some 2\<rparr>\<rparr>"

definition boot_env_example :: "boot_tables boot_env" where
  "boot_env_example = boot_env_documented Debug (1 * 4096) \<lparr>elf_entry_point = 2097408, elf_headers = map Ph64 [example_segment]\<rparr>"

lemma boot_env_example_layout: "length (be_layout boot_env_example bi) \<le> 4096"
  by (simp add: boot_env_example_def)

lemma five_mib_map:
  obtains m where "create_from insertion_sort_by Debug [five_mib] = Inr m" and "mm_wf m" and "mm_deref m = [e820_region five_mib]"
    and "next_entry_index m = 1"
proof (rule inss.create_from_result [of "[five_mib]" Debug])
  fix m rs assume m: "create_from insertion_sort_by Debug [five_mib] = Inr m" "mm_wf m" "mm_deref m = trim_usable rs"
    "mset rs = mset (map e820_region [five_mib])"
  then have d: "mm_deref m = [e820_region five_mib]" by simp
  then have "length (take (next_entry_index m) (entries m)) = 1" by (simp add: mm_deref_def)
  then have "next_entry_index m = 1" using m(2) by (simp add: mm_wf_def)
  with that [OF m(1,2) d] show thesis .
qed (simp_all add: five_mib_def e820_ok_def phys_bound_def max_memory_map_size_def)

lemma five_mib_owners:
  assumes "mm_deref m = [e820_region five_mib]"
  shows "owners m f = (if f < 1280 then {#Usable#} else {#})"
  using assms by (simp add: owners_def type_at_def holds_def five_mib_def e820_region_def)

lemma boot_example_used_memory:
  assumes "mm_wf m" and "mm_deref m = [e820_region five_mib]" and "next_entry_index m = 1"
  shows "used_memory_ok boot_params_example m"
proof -
  have "settled m" using assms by (simp add: settled_def e820_region_def five_mib_def is_empty_def)
  then show ?thesis
    using assms(2,3)
    by (simp add: used_memory_ok_def max_memory_map_size_def boot_params_example_def example_params_def phys_bound_def
        used_areas_def area_free_def area_disjoint_def available_def frame_bound_def five_mib_owners [OF assms(2)])
      (simp add: e820_region_def five_mib_def)
qed

lemma boot_example_input:
  assumes "create_from insertion_sort_by Debug [five_mib] = Inr m" and "used_memory_ok boot_params_example m"
  shows "boot_input boot_env_example boot_params_example boot_memory 2097408 [example_segment] m"
proof -
  have "take 4 (map boot_memory [4194304 ..< 4214304]) = map boot_memory [4194304 ..< 4194308]"
    by (simp add: take_map take_upt del: upt_rec_numeral)
  also have "\<dots> = [127, 69, 76, 70]" by (simp add: boot_memory_def)
  finally have "take 4 (map boot_memory [4194304 ..< 4214304]) = [127, 69, 76, 70]" .
  then show ?thesis
    using assms by (simp add: boot_input_def Let_def boot_env_example_def boot_params_example_def example_params_def five_mib_def e820_ok_def
        phys_bound_def virt_bound_def max_memory_map_size_def del: upt_rec_numeral)
qed

lemma boot_example_top: "mm_deref m = [e820_region five_mib] \<Longrightarrow> top_of m = 5242880"
  by (simp add: top_of_def e820_region_def five_mib_def)

lemma boot_example_ready:
  "boot_ready bt_mappable bt_entry bt_blank bt_translate_2m boot_params_example [example_segment] 2 5242880 1 boot_tables_example"
proof -
  have t: "touched_pages example_segment = {512, 513, 4277075694}"
    by (auto simp: touched_pages_def segment_pages_def bss_temp_def example_segment_def TEMP_PAGE_def)
  have ok: "segment_ok 4194304 example_segment"
    by (simp add: segment_ok_def example_segment_def segment_pages_def bss_temp_def TEMP_PAGE_def phys_bound_def virt_bound_def)
  have e: "elf_pages boot_params_example = {2}" by (auto simp: elf_pages_def boot_params_example_def example_params_def)
  have blank: "bt_blank (bt_entry boot_tables_example i)" if "i < 31" "i \<notin> kernel_entries [example_segment]" for i
    using that by (auto simp: bt_blank_def bt_entry_def under_def boot_tables_example_def kernel_entries_def)
  show ?thesis
    using ok blank
    by (simp add: boot_ready_def t e level4_needed_def)
      (simp add: boot_params_example_def example_params_def boot_tables_example_def bt_translate_2m_def bt_mappable_def shut_def
        large_of_def example_segment_def)
qed

lemma boot_example_machine:
  "boot_machine boot_env_example bt_mappable bt_entry (p4_physical boot_params_example) bt_blank bt_translate_2m bt_mappable_2m"
  using bm.boot_machine_axioms [of Debug 1] by (simp add: boot_env_example_def boot_params_example_def example_params_def)

lemma boot_example_config:
  "default_addresses (bld_config boot_build_example)" "KERNEL_STACK_SIZE (bld_config boot_build_example) = 2"
  by (simp_all add: default_addresses_def boot_build_example_def config_default_def KERNEL_STACK_SIZE_def)

lemma boot_example_loader: "be_loader boot_env_example = boot_loader_env Debug"
  by (simp add: boot_env_example_def)

lemma boot_example_cost: "boot_cost boot_build_example [example_segment] 5242880 = 39"
proof -
  have "segment_pages example_segment = {512, 513}" by (auto simp: segment_pages_def example_segment_def)
  then show ?thesis
    by (simp add: boot_cost_def loading_cost_def boot_build_example_def KERNEL_STACK_SIZE_def) (simp add: example_segment_def)
qed

lemma boot_example_ample:
  assumes "used_memory_ok boot_params_example m" and "mm_deref m = [e820_region five_mib]" and "next_entry_index m = 1"
    and "mark_used_regions (boot_loader_env Debug) boot_params_example m = Inr m1"
  shows "ample (boot_loader_env Debug) (boot_cost boot_build_example [example_segment] 5242880) m1"
proof -
  have fa: "frame_allocation (env_sort (boot_loader_env Debug)) (env_x86 (boot_loader_env Debug))"
    by (simp add: fa.frame_allocation_axioms)
  have m1: "settled m1" "next_entry_index m1 \<le> 9" "usable m1 = {f \<in> usable m. \<forall>x \<in> set (used_areas boot_params_example). \<not> in_area f x}"
    using mark_used_regions_spec [OF fa assms(1)] assms(3,4) by auto
  have "f \<in> usable m1" if "16 \<le> f" "f < 55" for f
    using that unfolding m1(3) by (simp add: usable_def five_mib_owners [OF assms(2)] used_areas_def boot_params_example_def example_params_def in_area_def)
  then show ?thesis
    unfolding boot_example_cost using m1(1,2)
    by (intro bt.ample_by_slots [where F = "{16 ..< 55}"]) (auto simp: settled_def max_memory_map_size_def)
qed

theorem bootloader_hands_over_witness:
  "boot_machine boot_env_example bt_mappable bt_entry (p4_physical boot_params_example) bt_blank bt_translate_2m bt_mappable_2m \<and>
   default_addresses (bld_config boot_build_example) \<and>
   (\<exists>m ho. boot_input boot_env_example boot_params_example boot_memory 2097408 [example_segment] m \<and>
      boot_ready bt_mappable bt_entry bt_blank bt_translate_2m boot_params_example [example_segment] 2 (top_of m) 1 boot_tables_example \<and>
      bootloader_main boot_env_example boot_build_example boot_params_example \<lparr>efer = 0, cr0 = 0, cr4 = 0\<rparr>
        (Text \<lparr>text_mem = Map.empty, current_offset = 0\<rparr>) boot_tables_example boot_memory = Inr ho \<and>
      ho_entry_point ho = 2097408 \<and> stored (boot_loader_env Debug) (bm_ld (ho_state ho)) 2097409 1 \<and>
      stored (boot_loader_env Debug) (bm_ld (ho_state ho)) 2097440 0 \<and> 1025 \<notin> usable (bi_memory_map (ho_boot_info ho)))"
proof -
  note bm = boot_example_machine and cfg = boot_example_config and env = boot_example_loader
  let ?ho = "bootloader_main boot_env_example boot_build_example boot_params_example \<lparr>efer = 0, cr0 = 0, cr4 = 0\<rparr>
        (Text \<lparr>text_mem = Map.empty, current_offset = 0\<rparr>) boot_tables_example boot_memory"
  obtain m where m: "create_from insertion_sort_by Debug [five_mib] = Inr m" "mm_wf m" "mm_deref m = [e820_region five_mib]" "next_entry_index m = 1"
    by (rule five_mib_map)
  have u: "used_memory_ok boot_params_example m" by (rule boot_example_used_memory [OF m(2-)])
  note i = boot_example_input [OF m(1) u]
  have rd: "boot_ready bt_mappable bt_entry bt_blank bt_translate_2m boot_params_example [example_segment]
      (KERNEL_STACK_SIZE (bld_config boot_build_example)) (top_of m) 1 boot_tables_example"
    using boot_example_ready cfg(2) boot_example_top [OF m(3)] by simp
  from bootloader_hands_over [OF bm i cfg(1) rd boot_env_example_layout] obtain m1 where
    m1: "mark_used_regions (boot_loader_env Debug) boot_params_example m = Inr m1"
      "case ?ho of
         Inl p \<Rightarrow> p \<in> exhausted \<and> \<not> ample (boot_loader_env Debug) (boot_cost boot_build_example [example_segment] (top_of m)) m1
       | Inr ho \<Rightarrow> handed_over boot_env_example bt_mappable bt_translate_2m boot_build_example boot_params_example 2097408 [example_segment] m
           \<lparr>efer = 0, cr0 = 0, cr4 = 0\<rparr> boot_tables_example boot_memory ho \<and>
           card (usable m1) \<le> boot_cost boot_build_example [example_segment] (top_of m) + card (usable (bi_memory_map (ho_boot_info ho)))"
    unfolding env by blast
  from m1(2) boot_example_ample [OF u m(3,4) m1(1)] obtain ho where ho: "?ho = Inr ho"
    "handed_over boot_env_example bt_mappable bt_translate_2m boot_build_example boot_params_example 2097408 [example_segment] m
       \<lparr>efer = 0, cr0 = 0, cr4 = 0\<rparr> boot_tables_example boot_memory ho"
    using boot_example_top [OF m(3)] by (cases ?ho) simp_all
  then have h: "ho_entry_point ho = 2097408" "loaded (boot_loader_env Debug) 4194304 (usable m) boot_memory (bm_ld (ho_state ho)) example_segment"
    "\<forall>f \<in> usable (bi_memory_map (ho_boot_info ho)). \<forall>x \<in> set (used_areas boot_params_example). \<not> in_area f x"
    by (simp_all add: handed_over_def Let_def env boot_params_example_def example_params_def)
  have e: "ph_type example_segment = Load" "ph_virtual_addr example_segment = 2097408" "ph_file_size example_segment = 32"
    "ph_mem_size example_segment = 4176" "ph_offset example_segment = 256"
    by (simp_all add: example_segment_def)
  have "stored (boot_loader_env Debug) (bm_ld (ho_state ho)) (2097408 + 1) (boot_memory (4194304 + 256 + 1))"
    using h(2) [unfolded loaded_def e] by (auto dest!: spec [of _ "1::nat"])
  moreover have "stored (boot_loader_env Debug) (bm_ld (ho_state ho)) (2097408 + 32) 0"
    using h(2) [unfolded loaded_def e] by (auto dest!: spec [of _ "32::nat"])
  moreover have "1025 \<notin> usable (bi_memory_map (ho_boot_info ho))"
    using h(3) by (auto simp: used_areas_def boot_params_example_def example_params_def in_area_def)
  ultimately show ?thesis using bm cfg i rd ho(1) h(1) by (intro conjI exI [of _ m] exI [of _ ho]) (simp_all add: boot_memory_def)
qed

end
