(* ===== verification/BuildScript.thy ===== *)
theory BuildScript
  imports BuildConfig
begin

text \<open>
  The bootloader's build script (\<^verbatim>\<open>main\<close> of \<^verbatim>\<open>bootloader/build.rs\<close>): it checks the target and the kernel file,
  wraps the kernel into an archive with the LLVM tools, reads the configuration out of the kernel's manifest and
  writes it as Rust constants, and tells cargo what to link.

  The script ends with a panic, with \<^verbatim>\<open>process::exit\<close>, or normally; what it printed, the commands it ran and
  the world it changed are its state. The world (the file system, and what other programs do to it) is a
  parameter \<open>'w\<close>, as are the crates \<^verbatim>\<open>llvm_tools\<close> and \<^verbatim>\<open>toml\<close>. Paths are strings with \<^verbatim>\<open>/\<close> between their
  components. A command's output is the text that \<^verbatim>\<open>from_utf8_lossy\<close> makes of its bytes.
\<close>

subsection \<open>Paths and text\<close>

fun split_at :: "char \<Rightarrow> string \<Rightarrow> string list" where
  "split_at c [] = [[]]"
| "split_at c (x # xs) =
     (if x = c then [] # split_at c xs
      else case split_at c xs of [] \<Rightarrow> [[x]] | p # ps \<Rightarrow> (x # p) # ps)"

text \<open>\<^verbatim>\<open>Path::file_name\<close> and \<^verbatim>\<open>Path::file_stem\<close>: empty components and \<^verbatim>\<open>.\<close> are not components.\<close>

definition file_name :: "string \<Rightarrow> string option" where
  "file_name p =
     (case rev (filter (\<lambda>c. c \<noteq> [] \<and> c \<noteq> ''.'') (split_at (CHR ''/'') p)) of
        [] \<Rightarrow> None
      | c # _ \<Rightarrow> if c = ''..'' then None else Some c)"

definition file_stem :: "string \<Rightarrow> string option" where
  "file_stem p =
     map_option (\<lambda>n.
       let before = rev (drop 1 (dropWhile (\<lambda>x. x \<noteq> CHR ''.'') (rev n)))
       in if CHR ''.'' \<in> set n \<and> before \<noteq> [] then before else n) (file_name p)"

definition path_join :: "string \<Rightarrow> string \<Rightarrow> string" where
  "path_join dir p =
     (if take 1 p = ''/'' then p else if dir = [] \<or> last dir = CHR ''/'' then dir @ p else dir @ ''/'' @ p)"

text \<open>\<^verbatim>\<open>str::lines\<close>: a final line ending does not start another line.\<close>

definition strip_cr :: "string \<Rightarrow> string" where
  "strip_cr l = (if l \<noteq> [] \<and> last l = CHR 0x0D then butlast l else l)"

definition str_lines :: "string \<Rightarrow> string list" where
  "str_lines s =
     (let ps = split_at (CHR 0x0A) s
      in map strip_cr (butlast ps) @ (if last ps = [] then [] else [last ps]))"

definition ascii_space :: "char \<Rightarrow> bool" where
  "ascii_space c \<longleftrightarrow> c \<in> {CHR 0x20, CHR 0x09, CHR 0x0A, CHR 0x0C, CHR 0x0D}"

definition split_ascii_whitespace :: "string \<Rightarrow> string list" where
  "split_ascii_whitespace s = split_runs ascii_space [] s"

definition replace_char :: "char \<Rightarrow> char \<Rightarrow> string \<Rightarrow> string" where
  "replace_char c d s = map (\<lambda>x. if x = c then d else x) s"

definition debug_option :: "u64 option \<Rightarrow> string" where
  "debug_option x = (case x of None \<Rightarrow> ''None'' | Some n \<Rightarrow> ''Some('' @ show_nat n @ '')'')"

subsection \<open>The environment\<close>

datatype var_error = NotPresent | NotUnicode
datatype tools_error = Tools_not_found | Tools_error string

record command =
  program :: string
  arguments :: "string list"
  current_dir :: "string option"

record process =
  proc_stdout :: string
  proc_success :: bool

record 'w build_env =
  env_var :: "string \<Rightarrow> var_error + string"
  path_exists :: "string \<Rightarrow> 'w \<Rightarrow> bool"
  llvm_tools_new :: "tools_error + (string \<Rightarrow> string option)"
  llvm_exe :: "string \<Rightarrow> string"
  run_process :: "command \<Rightarrow> 'w \<Rightarrow> process option \<times> 'w"
  read_to_string :: "string \<Rightarrow> 'w \<Rightarrow> string option"
  parse_toml :: "string \<Rightarrow> toml_value option"
  file_create :: "string \<Rightarrow> 'w \<Rightarrow> bool \<times> 'w"
  write_all :: "string \<Rightarrow> string \<Rightarrow> 'w \<Rightarrow> bool \<times> 'w"

record 'w build =
  b_world :: 'w
  b_stdout :: string
  b_stderr :: string
  b_commands :: "command list"

datatype stop = Build_panic panic | Process_exit nat

type_synonym ('a, 'w) script = "'w build \<Rightarrow> (stop + 'a) \<times> 'w build"

definition bind_bs :: "('a, 'w) script \<Rightarrow> ('a \<Rightarrow> ('b, 'w) script) \<Rightarrow> ('b, 'w) script" where
  "bind_bs f g s = (case f s of (Inl e, s1) \<Rightarrow> (Inl e, s1) | (Inr x, s1) \<Rightarrow> g x s1)"

definition ret_bs :: "'a \<Rightarrow> ('a, 'w) script" where
  "ret_bs x s = (Inr x, s)"

definition stop_bs :: "stop \<Rightarrow> ('a, 'w) script" where
  "stop_bs e s = (Inl e, s)"

definition panic_bs :: "string \<Rightarrow> ('a, 'w) script" where
  "panic_bs msg = stop_bs (Build_panic (Explicit_panic msg))"

definition expect_bs :: "string \<Rightarrow> 'a option \<Rightarrow> ('a, 'w) script" where
  "expect_bs msg x = (case x of None \<Rightarrow> stop_bs (Build_panic (Unwrap_failed msg)) | Some y \<Rightarrow> ret_bs y)"

definition eprint_bs :: "string \<Rightarrow> (unit, 'w) script" where
  "eprint_bs t s = (Inr (), s\<lparr>b_stderr := b_stderr s @ t\<rparr>)"

definition println_bs :: "string \<Rightarrow> (unit, 'w) script" where
  "println_bs t s = (Inr (), s\<lparr>b_stdout := b_stdout s @ t @ [CHR 0x0A]\<rparr>)"

definition fail_bs :: "string \<Rightarrow> ('a, 'w) script" where
  "fail_bs t = bind_bs (eprint_bs t) (\<lambda>_. stop_bs (Process_exit 1))"

definition run_bs :: "'w build_env \<Rightarrow> string \<Rightarrow> command \<Rightarrow> (process, 'w) script" where
  "run_bs E msg c s =
     (let (r, w) = run_process E c (b_world s)
      in expect_bs msg r (s\<lparr>b_world := w, b_commands := b_commands s @ [c]\<rparr>))"

definition world_bs :: "string \<Rightarrow> ('w \<Rightarrow> bool \<times> 'w) \<Rightarrow> (unit, 'w) script" where
  "world_bs msg f s =
     (let (ok, w) = f (b_world s) in expect_bs msg (if ok then Some () else None) (s\<lparr>b_world := w\<rparr>))"

abbreviation nl :: string where "nl \<equiv> [CHR 0x0A]"

subsection \<open>The steps of the script\<close>

definition check_target :: "'w build_env \<Rightarrow> (unit, 'w) script" where
  "check_target E =
     bind_bs (expect_bs ''TARGET not set'' (case env_var E ''TARGET'' of Inl _ \<Rightarrow> None | Inr t \<Rightarrow> Some t)) (\<lambda>target.
       bind_bs (expect_bs ''target has no file stem'' (file_stem target)) (\<lambda>stem.
         if stem \<noteq> ''x86_64-bootloader''
         then panic_bs ''The bootloader must be compiled for the `x86_64-bootloader.json` target.'' else ret_bs ()))"

definition kernel_path :: "'w build_env \<Rightarrow> (string, 'w) script" where
  "kernel_path E =
     (case env_var E ''KERNEL'' of
        Inr p \<Rightarrow> ret_bs p
      | Inl _ \<Rightarrow> fail_bs (''The KERNEL environment variable must be set for building the bootloader.'' @ nl @ nl @
          ''If you use `bootimage` for building you need at least version 0.7.0. You can '' @
          ''update `bootimage` by running `cargo install bootimage --force`.'' @ nl))"

definition check_exists :: "'w build_env \<Rightarrow> string \<Rightarrow> (unit, 'w) script" where
  "check_exists E p s = (if path_exists E p (b_world s) then ret_bs () s else panic_bs (''KERNEL does not exist: '' @ p) s)"

definition find_tools :: "'w build_env \<Rightarrow> (string \<Rightarrow> string option, 'w) script" where
  "find_tools E =
     (case llvm_tools_new E of
        Inr tools \<Rightarrow> ret_bs (\<lambda>name. tools (llvm_exe E name))
      | Inl Tools_not_found \<Rightarrow> fail_bs (''Error: llvm-tools not found'' @ nl @
          ''Maybe the rustup component `llvm-tools-preview` is missing?'' @ nl @
          ''  Install it through: `rustup component add llvm-tools-preview`'' @ nl)
      | Inl (Tools_error err) \<Rightarrow> fail_bs (''Failed to retrieve llvm-tools component: '' @ err @ nl))"

definition size_command :: "string \<Rightarrow> string \<Rightarrow> command" where
  "size_command llvm_size kernel_file = \<lparr>program = llvm_size, arguments = [kernel_file], current_dir = None\<rparr>"

definition check_text_size :: "'w build_env \<Rightarrow> (string \<Rightarrow> string option) \<Rightarrow> string \<Rightarrow> (unit, 'w) script" where
  "check_text_size E tools kernel_file =
     bind_bs (expect_bs ''llvm-size not found in llvm-tools'' (tools ''llvm-size'')) (\<lambda>llvm_size.
       bind_bs (run_bs E ''failed to run llvm-size'' (size_command llvm_size kernel_file)) (\<lambda>p.
         bind_bs (expect_bs ''unexpected llvm-size line output''
                    (case drop 1 (str_lines (proc_stdout p)) of [] \<Rightarrow> None | l # _ \<Rightarrow> Some l)) (\<lambda>second_line.
           bind_bs (expect_bs ''unexpected llvm-size output''
                      (case split_ascii_whitespace second_line of [] \<Rightarrow> None | x # _ \<Rightarrow> Some x)) (\<lambda>text_size.
             if text_size = ''0''
             then panic_bs (''Kernel executable has an empty text section. Perhaps the entry point was set incorrectly?'' @ nl @ nl @
                    ''Kernel executable at `'' @ kernel_file @ ''`'' @ nl)
             else ret_bs ()))))"

definition strip_command :: "string \<Rightarrow> string \<Rightarrow> string \<Rightarrow> command" where
  "strip_command objcopy kernel_file stripped_kernel =
     \<lparr>program = objcopy, arguments = [''--strip-debug'', kernel_file, stripped_kernel], current_dir = None\<rparr>"

definition check_status :: "'w build_env \<Rightarrow> string \<Rightarrow> string \<Rightarrow> command \<Rightarrow> (unit, 'w) script" where
  "check_status E not_run failed c =
     bind_bs (run_bs E not_run c) (\<lambda>p. if \<not> proc_success p then fail_bs (failed @ nl) else ret_bs ())"

definition symbol_name :: "string \<Rightarrow> string" where
  "symbol_name stripped_kernel_file_name =
     replace_char (CHR ''.'') (CHR ''_'') (replace_char (CHR ''-'') (CHR ''_'') stripped_kernel_file_name)"

definition wrap_command :: "string \<Rightarrow> string \<Rightarrow> string \<Rightarrow> string \<Rightarrow> command" where
  "wrap_command objcopy out_dir stripped_kernel_file_name kernel_bin =
     (let replaced = symbol_name stripped_kernel_file_name in
      \<lparr>program = objcopy,
       arguments =
         [''-I'', ''binary'', ''-O'', ''elf64-x86-64'', ''--binary-architecture=i386:x86-64'',
          ''--rename-section'', ''.data=.kernel'',
          ''--redefine-sym'', ''_binary_'' @ replaced @ ''_start=_kernel_start_addr'',
          ''--redefine-sym'', ''_binary_'' @ replaced @ ''_end=_kernel_end_addr'',
          ''--redefine-sym'', ''_binary_'' @ replaced @ ''_size=_kernel_size'',
          stripped_kernel_file_name, kernel_bin],
       current_dir = Some out_dir\<rparr>)"

definition archive_command :: "string \<Rightarrow> string \<Rightarrow> string \<Rightarrow> command" where
  "archive_command ar kernel_archive kernel_bin =
     \<lparr>program = ar, arguments = [''crs'', kernel_archive, kernel_bin], current_dir = None\<rparr>"

definition archive_kernel ::
  "'w build_env \<Rightarrow> (string \<Rightarrow> string option) \<Rightarrow> string \<Rightarrow> string \<Rightarrow> string \<Rightarrow> (unit, 'w) script" where
  "archive_kernel E tools out_dir kernel_file kernel_file_name =
     (let stripped_kernel_file_name = ''kernel_stripped-'' @ kernel_file_name;
          stripped_kernel = path_join out_dir stripped_kernel_file_name;
          kernel_bin = path_join out_dir (''kernel_bin-'' @ kernel_file_name @ ''.o'');
          kernel_archive = path_join out_dir (''libkernel_bin-'' @ kernel_file_name @ ''.a'') in
      bind_bs (expect_bs ''llvm-objcopy not found in llvm-tools'' (tools ''llvm-objcopy'')) (\<lambda>objcopy.
        bind_bs (check_status E ''failed to run objcopy to strip debug symbols'' ''Error: Stripping debug symbols failed''
                   (strip_command objcopy kernel_file stripped_kernel)) (\<lambda>_.
          bind_bs (check_status E ''failed to run objcopy'' ''Error: Running objcopy failed''
                     (wrap_command objcopy out_dir stripped_kernel_file_name kernel_bin)) (\<lambda>_.
            bind_bs (case tools ''llvm-ar'' of
                       Some ar \<Rightarrow> ret_bs ar
                     | None \<Rightarrow> fail_bs (''Failed to retrieve llvm-ar component'' @ nl @
                         ''This component is available since nightly-2019-03-29,'' @
                         ''so try updating your toolchain if you'' @ [CHR 0x27] @ ''re using an older nightly'' @ nl)) (\<lambda>ar.
              check_status E ''failed to run ar'' ''Error: Running ar failed'' (archive_command ar kernel_archive kernel_bin))))))"

subsection \<open>The configuration\<close>

definition toml_get :: "string \<Rightarrow> toml_value \<Rightarrow> toml_value option" where
  "toml_get key v = (case v of Table t \<Rightarrow> map_of t key | _ \<Rightarrow> None)"

definition as_table :: "toml_value \<Rightarrow> (string \<times> toml_value) list option" where
  "as_table v = (case v of Table t \<Rightarrow> Some t | _ \<Rightarrow> None)"

definition bootloader_table :: "toml_value \<Rightarrow> (string \<times> toml_value) list option" where
  "bootloader_table manifest =
     Option.bind (toml_get ''package'' manifest) (\<lambda>t. Option.bind (toml_get ''metadata'' t) (\<lambda>t.
       Option.bind (toml_get ''bootloader'' t) as_table))"

definition lift_bs :: "'a rust \<Rightarrow> ('a, 'w) script" where
  "lift_bs r = (case r of Inl e \<Rightarrow> stop_bs (Build_panic e) | Inr x \<Rightarrow> ret_bs x)"

definition read_bs :: "'w build_env \<Rightarrow> string \<Rightarrow> (string, 'w) script" where
  "read_bs E path s =
     expect_bs (''failed to read kernel manifest file (path: '' @ path @ '')'') (read_to_string E path (b_world s)) s"

definition read_manifest :: "'w build_env \<Rightarrow> bool \<Rightarrow> (bootloader_config, 'w) script" where
  "read_manifest E map_physical_memory =
     (case env_var E ''KERNEL_MANIFEST'' of
        Inl NotPresent \<Rightarrow>
          panic_bs (''The KERNEL_MANIFEST environment variable must be set for building the bootloader.'' @ nl @ nl @
            ''If you use `bootimage` for building you need at least version 0.7.7. You can '' @
            ''update `bootimage` by running `cargo install bootimage --force`.'')
      | Inl NotUnicode \<Rightarrow> panic_bs ''The KERNEL_MANIFEST environment variable contains invalid unicode''
      | Inr path \<Rightarrow>
          bind_bs (println_bs (''cargo:rerun-if-changed='' @ path)) (\<lambda>_.
            bind_bs (read_bs E path) (\<lambda>contents.
              bind_bs (expect_bs (''failed to parse kernel'' @ [CHR 0x27] @ ''s Cargo.toml'') (parse_toml E contents)) (\<lambda>manifest.
                case bootloader_table manifest of
                  None \<Rightarrow> ret_bs config_default
                | Some table \<Rightarrow> lift_bs (parse_to_config map_physical_memory table config_default)))))"

definition config_text :: "bootloader_config \<Rightarrow> string" where
  "config_text cfg =
     (let indent = nl @ replicate 12 (CHR '' '') in
      ''const PHYSICAL_MEMORY_OFFSET: Option<u64> = '' @ debug_option (cfg_physical_memory_offset cfg) @ '';'' @ indent @
      ''const KERNEL_STACK_ADDRESS: Option<u64> = '' @ debug_option (cfg_kernel_stack_address cfg) @ '';'' @ indent @
      ''const KERNEL_STACK_SIZE: u64 = '' @ show_nat (KERNEL_STACK_SIZE cfg) @ '';'' @ indent @
      ''const BOOT_INFO_ADDRESS: Option<u64> = '' @ debug_option (cfg_boot_info_address cfg) @ '';'')"

definition write_config :: "'w build_env \<Rightarrow> string \<Rightarrow> bootloader_config \<Rightarrow> (unit, 'w) script" where
  "write_config E out_dir cfg =
     (let file_path = path_join out_dir ''bootloader_config.rs'' in
      bind_bs (world_bs ''failed to create bootloader_config.rs'' (file_create E file_path)) (\<lambda>_.
        world_bs ''write to bootloader_config.rs failed'' (write_all E file_path (config_text cfg))))"

definition link_arguments :: "string \<Rightarrow> string \<Rightarrow> string \<Rightarrow> (unit, 'w) script" where
  "link_arguments out_dir kernel_file kernel_file_name =
     bind_bs (println_bs (''cargo:rustc-link-search=native='' @ out_dir)) (\<lambda>_.
       bind_bs (println_bs (''cargo:rustc-link-lib=static=kernel_bin-'' @ kernel_file_name)) (\<lambda>_.
         bind_bs (println_bs ''cargo:rerun-if-env-changed=KERNEL'') (\<lambda>_.
           bind_bs (println_bs ''cargo:rerun-if-env-changed=KERNEL_MANIFEST'') (\<lambda>_.
             bind_bs (println_bs (''cargo:rerun-if-changed='' @ kernel_file)) (\<lambda>_.
               println_bs ''cargo:rerun-if-changed=build.rs'')))))"

subsection \<open>The script\<close>

text \<open>Without the feature \<^verbatim>\<open>binary\<close> the script is empty.\<close>

definition build_main :: "'w build_env \<Rightarrow> bool \<Rightarrow> bool \<Rightarrow> (unit, 'w) script" where
  "build_main E binary map_physical_memory =
     (if \<not> binary then ret_bs ()
      else bind_bs (check_target E) (\<lambda>_.
        bind_bs (expect_bs ''OUT_DIR not set'' (case env_var E ''OUT_DIR'' of Inl _ \<Rightarrow> None | Inr d \<Rightarrow> Some d)) (\<lambda>out_dir.
          bind_bs (kernel_path E) (\<lambda>kernel_file.
            bind_bs (expect_bs ''KERNEL has no valid file name'' (file_name kernel_file)) (\<lambda>kernel_file_name.
              bind_bs (check_exists E kernel_file) (\<lambda>_.
                bind_bs (find_tools E) (\<lambda>tools.
                  bind_bs (check_text_size E tools kernel_file) (\<lambda>_.
                    bind_bs (archive_kernel E tools out_dir kernel_file kernel_file_name) (\<lambda>_.
                      bind_bs (read_manifest E map_physical_memory) (\<lambda>cfg.
                        bind_bs (write_config E out_dir cfg) (\<lambda>_.
                          link_arguments out_dir kernel_file kernel_file_name)))))))))))"

subsection \<open>Outcomes\<close>

text \<open>\<open>scripted f s P Q\<close>: a script that stops does so as \<open>P\<close> says, one that ends does so as \<open>Q\<close> says.\<close>

definition scripted :: "('a, 'w) script \<Rightarrow> 'w build \<Rightarrow> (stop \<Rightarrow> 'w build \<Rightarrow> bool) \<Rightarrow> ('a \<Rightarrow> 'w build \<Rightarrow> bool) \<Rightarrow> bool" where
  "scripted f s P Q \<longleftrightarrow> (case f s of (Inl e, s') \<Rightarrow> P e s' | (Inr x, s') \<Rightarrow> Q x s')"

lemma scripted_bind:
  assumes "scripted f s P R" and "\<And>x s'. R x s' \<Longrightarrow> scripted (g x) s' P Q"
  shows "scripted (bind_bs f g) s P Q"
proof -
  obtain r s1 where f: "f s = (r, s1)" by force
  show ?thesis using assms f by (cases r) (simp_all add: scripted_def bind_bs_def)
qed

lemma scripted_ret: "Q x s \<Longrightarrow> scripted (ret_bs x) s P Q"
  by (simp add: scripted_def ret_bs_def)

lemma scripted_weaken: "scripted f s P R \<Longrightarrow> (\<And>x s'. R x s' \<Longrightarrow> Q x s') \<Longrightarrow> scripted f s P Q"
  by (auto simp: scripted_def split: prod.splits sum.splits)

text \<open>A failure: a panic or exit code 1, with nothing on the standard output but possibly the manifest's line.\<close>

definition manifest_line :: "'w build_env \<Rightarrow> string" where
  "manifest_line E = (case env_var E ''KERNEL_MANIFEST'' of Inl _ \<Rightarrow> [] | Inr path \<Rightarrow> ''cargo:rerun-if-changed='' @ path @ nl)"

definition build_failed :: "'w build_env \<Rightarrow> string \<Rightarrow> stop \<Rightarrow> 'w build \<Rightarrow> bool" where
  "build_failed E out e s' \<longleftrightarrow> (\<forall>n. e = Process_exit n \<longrightarrow> n = 1) \<and> b_stdout s' \<in> {out, out @ manifest_line E}"

abbreviation quiet :: "'w build \<Rightarrow> 'w build \<Rightarrow> bool" where
  "quiet s s' \<equiv> b_stdout s' = b_stdout s \<and> b_stderr s' = b_stderr s"

lemma scripted_panic: "b_stdout s \<in> {out, out @ manifest_line E} \<Longrightarrow> scripted (panic_bs msg) s (build_failed E out) Q"
  by (simp add: scripted_def panic_bs_def stop_bs_def build_failed_def)

lemma scripted_fail: "b_stdout s \<in> {out, out @ manifest_line E} \<Longrightarrow> scripted (fail_bs msg) s (build_failed E out) Q"
  by (simp add: scripted_def fail_bs_def bind_bs_def eprint_bs_def stop_bs_def build_failed_def)

lemma scripted_expect:
  "b_stdout s \<in> {out, out @ manifest_line E} \<Longrightarrow>
   scripted (expect_bs msg x) s (build_failed E out) (\<lambda>y s'. x = Some y \<and> s' = s)"
  by (simp add: scripted_def expect_bs_def stop_bs_def ret_bs_def build_failed_def split: option.splits)

lemma scripted_run:
  "b_stdout s \<in> {out, out @ manifest_line E} \<Longrightarrow>
   scripted (run_bs E msg c) s (build_failed E out)
     (\<lambda>p s'. quiet s s' \<and> b_commands s' = b_commands s @ [c] \<and> run_process E c (b_world s) = (Some p, b_world s'))"
  by (auto simp: scripted_def run_bs_def Let_def expect_bs_def stop_bs_def ret_bs_def build_failed_def split: option.splits prod.splits)

lemma scripted_world:
  "b_stdout s \<in> {out, out @ manifest_line E} \<Longrightarrow>
   scripted (world_bs msg f) s (build_failed E out)
     (\<lambda>_ s'. quiet s s' \<and> b_commands s' = b_commands s \<and> f (b_world s) = (True, b_world s'))"
  by (auto simp: scripted_def world_bs_def Let_def expect_bs_def stop_bs_def ret_bs_def build_failed_def split: option.splits prod.splits)

lemma scripted_println: "scripted (println_bs t) s P (\<lambda>_ s'. s' = s\<lparr>b_stdout := b_stdout s @ t @ nl\<rparr>)"
  by (simp add: scripted_def println_bs_def)

lemma scripted_status:
  assumes "b_stdout s \<in> {out, out @ manifest_line E}"
  shows "scripted (check_status E m1 m2 c) s (build_failed E out)
     (\<lambda>_ s'. quiet s s' \<and> b_commands s' = b_commands s @ [c] \<and>
        (\<exists>p. run_process E c (b_world s) = (Some p, b_world s') \<and> proc_success p))"
  unfolding check_status_def
  by (rule scripted_bind [OF scripted_run [OF assms]]) (use assms in \<open>auto intro: scripted_fail scripted_ret\<close>)

lemma scripted_check_target:
  "b_stdout s = out \<Longrightarrow> scripted (check_target E) s (build_failed E out)
     (\<lambda>_ s'. s' = s \<and> (\<exists>t. env_var E ''TARGET'' = Inr t \<and> file_stem t = Some ''x86_64-bootloader''))"
  unfolding check_target_def
  by (rule scripted_bind [OF scripted_expect], simp, rule scripted_bind [OF scripted_expect], simp)
    (auto intro!: scripted_panic scripted_ret split: sum.splits)

lemma scripted_text_size:
  assumes "b_stdout s = out"
  shows "scripted (check_text_size E tools k) s (build_failed E out)
    (\<lambda>_ s'. quiet s s' \<and> (\<exists>z p line size_rest text. tools ''llvm-size'' = Some z \<and> b_commands s' = b_commands s @ [size_command z k] \<and>
       run_process E (size_command z k) (b_world s) = (Some p, b_world s') \<and>
       drop 1 (str_lines (proc_stdout p)) = line # size_rest \<and> split_ascii_whitespace line = text \<and> text \<noteq> [] \<and> hd text \<noteq> ''0''))"
  unfolding check_text_size_def
  by (rule scripted_bind [OF scripted_expect], simp add: assms, rule scripted_bind [OF scripted_run], simp add: assms,
      rule scripted_bind [OF scripted_expect], simp add: assms, rule scripted_bind [OF scripted_expect], simp add: assms)
    (auto simp: assms intro!: scripted_panic scripted_ret split: list.splits)

text \<open>The commands that wrap the kernel, in the order they are run.\<close>

definition archive_commands :: "string \<Rightarrow> string \<Rightarrow> string \<Rightarrow> string \<Rightarrow> string \<Rightarrow> command list" where
  "archive_commands objcopy ar out_dir kernel_file name =
     (let stripped = ''kernel_stripped-'' @ name; bin = path_join out_dir (''kernel_bin-'' @ name @ ''.o'') in
      [strip_command objcopy kernel_file (path_join out_dir stripped), wrap_command objcopy out_dir stripped bin,
       archive_command ar (path_join out_dir (''libkernel_bin-'' @ name @ ''.a'')) bin])"

text \<open>\<open>runs_all E cs w w'\<close>: run one after the other from \<open>w\<close>, the commands succeed and leave \<open>w'\<close>.\<close>

fun runs_all :: "'w build_env \<Rightarrow> command list \<Rightarrow> 'w \<Rightarrow> 'w \<Rightarrow> bool" where
  "runs_all E [] w w' \<longleftrightarrow> w' = w"
| "runs_all E (c # cs) w w' \<longleftrightarrow> (\<exists>p w1. run_process E c w = (Some p, w1) \<and> proc_success p \<and> runs_all E cs w1 w')"

lemma scripted_archive:
  assumes "b_stdout s = out"
  shows "scripted (archive_kernel E tools out_dir k name) s (build_failed E out)
    (\<lambda>_ s'. quiet s s' \<and> (\<exists>objcopy ar. tools ''llvm-objcopy'' = Some objcopy \<and> tools ''llvm-ar'' = Some ar \<and>
       b_commands s' = b_commands s @ archive_commands objcopy ar out_dir k name \<and>
       runs_all E (archive_commands objcopy ar out_dir k name) (b_world s) (b_world s')))"
proof -
  have ar: "scripted (case tools ''llvm-ar'' of Some ar \<Rightarrow> ret_bs ar | None \<Rightarrow> fail_bs msg) s1 (build_failed E out)
      (\<lambda>ar s'. tools ''llvm-ar'' = Some ar \<and> s' = s1)" if "b_stdout s1 = out" for s1 msg
    using that by (auto intro!: scripted_fail scripted_ret split: option.splits)
  show ?thesis
    unfolding archive_kernel_def Let_def
  proof (rule scripted_bind [OF scripted_expect], simp add: assms, elim conjE, hypsubst, rule scripted_bind [OF scripted_status], simp add: assms,
      elim conjE exE, rule scripted_bind [OF scripted_status], simp add: assms, elim conjE exE, rule scripted_bind [OF ar], simp add: assms,
      elim conjE, hypsubst, rule scripted_weaken [OF scripted_status], simp add: assms)
  qed (auto simp: archive_commands_def Let_def)
qed

lemma scripted_read:
  "b_stdout s \<in> {out, out @ manifest_line E} \<Longrightarrow>
   scripted (read_bs E path) s (build_failed E out) (\<lambda>x s'. read_to_string E path (b_world s) = Some x \<and> s' = s)"
  by (simp add: scripted_def read_bs_def expect_bs_def stop_bs_def ret_bs_def build_failed_def split: option.split)

lemma scripted_lift:
  "b_stdout s \<in> {out, out @ manifest_line E} \<Longrightarrow> scripted (lift_bs r) s (build_failed E out) (\<lambda>x s'. r = Inr x \<and> s' = s)"
  by (simp add: lift_bs_def scripted_def stop_bs_def ret_bs_def build_failed_def split: sum.split)

lemma scripted_manifest:
  fixes s :: "'w build"
  assumes "b_stdout s = out"
  shows "scripted (read_manifest E feat) s (build_failed E out)
    (\<lambda>cfg s'. b_stdout s' = out @ manifest_line E \<and> b_stderr s' = b_stderr s \<and> b_commands s' = b_commands s \<and> b_world s' = b_world s \<and>
       (\<exists>path contents manifest. env_var E ''KERNEL_MANIFEST'' = Inr path \<and> read_to_string E path (b_world s) = Some contents \<and>
          parse_toml E contents = Some manifest \<and>
          (case bootloader_table manifest of None \<Rightarrow> cfg = config_default
           | Some table \<Rightarrow> parse_to_config feat table config_default = Inr cfg)))"
proof (cases "env_var E ''KERNEL_MANIFEST''")
  case (Inl e)
  then show ?thesis using assms by (cases e) (simp_all add: read_manifest_def scripted_panic)
next
  case (Inr path)
  have line: "scripted (println_bs (''cargo:rerun-if-changed='' @ path)) s (build_failed E out)
      (\<lambda>_ s'. b_stdout s' = out @ manifest_line E \<and> b_stderr s' = b_stderr s \<and> b_commands s' = b_commands s \<and> b_world s' = b_world s)"
    using assms Inr by (simp add: scripted_def println_bs_def manifest_line_def)
  show ?thesis
    unfolding read_manifest_def Inr sum.case
  proof (rule scripted_bind [OF line], rule scripted_bind [OF scripted_read], simp, elim conjE, hypsubst,
      rule scripted_bind [OF scripted_expect], simp, elim conjE, hypsubst)
    fix s1 :: "'w build" and contents manifest
    assume s1: "b_stdout s1 = out @ manifest_line E" "b_stderr s1 = b_stderr s" "b_commands s1 = b_commands s" "b_world s1 = b_world s"
      and m: "read_to_string E path (b_world s1) = Some contents" "parse_toml E contents = Some manifest"
    show "scripted (case bootloader_table manifest of None \<Rightarrow> ret_bs config_default
        | Some table \<Rightarrow> lift_bs (parse_to_config feat table config_default)) s1 (build_failed E out)
      (\<lambda>cfg s'. b_stdout s' = out @ manifest_line E \<and> b_stderr s' = b_stderr s \<and> b_commands s' = b_commands s \<and> b_world s' = b_world s \<and>
         (\<exists>path' contents manifest. Inr path = (Inr path' :: var_error + string) \<and> read_to_string E path' (b_world s) = Some contents \<and>
            parse_toml E contents = Some manifest \<and>
            (case bootloader_table manifest of None \<Rightarrow> cfg = config_default
             | Some table \<Rightarrow> parse_to_config feat table config_default = Inr cfg)))"
    proof (cases "bootloader_table manifest")
      case None
      then show ?thesis using s1 m by (auto intro!: scripted_ret)
    next
      case (Some table)
      then show ?thesis using s1 m by (auto intro!: scripted_weaken [OF scripted_lift])
    qed
  qed
qed

lemma scripted_write:
  assumes "b_stdout s = out @ manifest_line E"
  shows "scripted (write_config E out_dir cfg) s (build_failed E out)
    (\<lambda>_ s'. quiet s s' \<and> b_commands s' = b_commands s \<and>
       (\<exists>w. file_create E (path_join out_dir ''bootloader_config.rs'') (b_world s) = (True, w) \<and>
          write_all E (path_join out_dir ''bootloader_config.rs'') (config_text cfg) w = (True, b_world s')))"
  unfolding write_config_def Let_def
  by (rule scripted_bind [OF scripted_world], simp add: assms, rule scripted_weaken [OF scripted_world]) (auto simp: assms)

definition link_lines :: "string \<Rightarrow> string \<Rightarrow> string \<Rightarrow> string" where
  "link_lines out_dir kernel_file name =
     ''cargo:rustc-link-search=native='' @ out_dir @ nl @ ''cargo:rustc-link-lib=static=kernel_bin-'' @ name @ nl @
     ''cargo:rerun-if-env-changed=KERNEL'' @ nl @ ''cargo:rerun-if-env-changed=KERNEL_MANIFEST'' @ nl @
     ''cargo:rerun-if-changed='' @ kernel_file @ nl @ ''cargo:rerun-if-changed=build.rs'' @ nl"

lemma scripted_link:
  "scripted (link_arguments out_dir k name) s P (\<lambda>_ s'. s' = s\<lparr>b_stdout := b_stdout s @ link_lines out_dir k name\<rparr>)"
  by (simp add: scripted_def link_arguments_def bind_bs_def println_bs_def link_lines_def)

subsection \<open>The generated constants\<close>

lemma split_unique:
  assumes "xs @ c # r = ys @ c # r'" and "c \<notin> set xs" and "c \<notin> set ys"
  shows "xs = ys \<and> r = r'"
  using assms
proof (induction xs arbitrary: ys)
  case Nil
  then show ?case by (cases ys) auto
next
  case (Cons x xs)
  then show ?case by (cases ys) auto
qed

lemma show_nat_inject [simp]: "show_nat m = show_nat n \<longleftrightarrow> m = n"
  using digits_value_show_nat by metis

lemma digit_not_semicolon: "is_digit c \<Longrightarrow> c \<noteq> CHR '';'' \<and> c \<noteq> CHR ''N'' \<and> c \<noteq> CHR '')''"
  by (auto simp: is_digit_def)

lemma show_nat_no_semicolon: "CHR '';'' \<notin> set (show_nat n)" "CHR '')'' \<notin> set (show_nat n)"
  using show_nat_digits [of n] digit_not_semicolon by (auto simp: list_all_iff)

lemma debug_option_no_semicolon: "CHR '';'' \<notin> set (debug_option x)"
  using show_nat_no_semicolon by (auto simp: debug_option_def split: option.splits)

lemma debug_option_inject: "debug_option x = debug_option y \<longleftrightarrow> x = y"
  by (auto simp: debug_option_def split: option.splits)

lemma field_unique:
  assumes "pre @ debug_option x @ '';'' @ r = pre @ debug_option y @ '';'' @ r'"
  shows "x = y \<and> r = r'"
  using assms split_unique [of "debug_option x" "CHR '';''" r "debug_option y" r'] debug_option_no_semicolon
  by (auto simp: debug_option_inject)

lemma size_unique:
  assumes "pre @ show_nat m @ '';'' @ r = pre @ show_nat n @ '';'' @ r'"
  shows "m = n \<and> r = r'"
  using assms split_unique [of "show_nat m" "CHR '';''" r "show_nat n" r'] show_nat_no_semicolon by auto

subsection \<open>Properties\<close>

text \<open>
  What a finished build has done: the target and the tools were right, the kernel has code, the four commands were
  run in order and succeeded, the configuration was read out of the manifest and written, and cargo was told to link
  the archive that the last command made.
\<close>

definition build_finished :: "'w build_env \<Rightarrow> bool \<Rightarrow> 'w build \<Rightarrow> 'w build \<Rightarrow> bool" where
  "build_finished E feat s s' \<longleftrightarrow>
     (\<exists>t out_dir k name tools z objcopy ar p line rest text w1 w2 w3 cfg path contents manifest.
        env_var E ''TARGET'' = Inr t \<and> file_stem t = Some ''x86_64-bootloader'' \<and> env_var E ''OUT_DIR'' = Inr out_dir \<and>
        env_var E ''KERNEL'' = Inr k \<and> file_name k = Some name \<and> path_exists E k (b_world s) \<and>
        llvm_tools_new E = Inr tools \<and> tools (llvm_exe E ''llvm-size'') = Some z \<and>
        tools (llvm_exe E ''llvm-objcopy'') = Some objcopy \<and> tools (llvm_exe E ''llvm-ar'') = Some ar \<and>
        run_process E (size_command z k) (b_world s) = (Some p, w1) \<and>
        drop 1 (str_lines (proc_stdout p)) = line # rest \<and> split_ascii_whitespace line = text \<and> text \<noteq> [] \<and> hd text \<noteq> ''0'' \<and>
        runs_all E (archive_commands objcopy ar out_dir k name) w1 w2 \<and>
        env_var E ''KERNEL_MANIFEST'' = Inr path \<and> read_to_string E path w2 = Some contents \<and> parse_toml E contents = Some manifest \<and>
        (case bootloader_table manifest of None \<Rightarrow> cfg = config_default
         | Some table \<Rightarrow> parse_to_config feat table config_default = Inr cfg) \<and>
        file_create E (path_join out_dir ''bootloader_config.rs'') w2 = (True, w3) \<and>
        write_all E (path_join out_dir ''bootloader_config.rs'') (config_text cfg) w3 = (True, b_world s') \<and>
        b_commands s' = b_commands s @ size_command z k # archive_commands objcopy ar out_dir k name \<and>
        b_stderr s' = b_stderr s \<and>
        b_stdout s' = b_stdout s @ manifest_line E @ link_lines out_dir k name)"

text \<open>
  C38: the build script, whatever its environment does, either finishes as described by \<open>build_finished\<close>, or stops
  with a panic or exit code 1 and has then told cargo to link nothing.
\<close>

theorem build_main_outcome:
  "case build_main E True feat s of
     (Inl e, s') \<Rightarrow> build_failed E (b_stdout s) e s'
   | (Inr _, s') \<Rightarrow> build_finished E feat s s'"
proof -
  let ?out = "b_stdout s"
  have k: "scripted (kernel_path E) s (build_failed E ?out) (\<lambda>k s'. env_var E ''KERNEL'' = Inr k \<and> s' = s)"
    by (auto simp: kernel_path_def intro!: scripted_fail scripted_ret split: sum.splits)
  have ex: "scripted (check_exists E p) s (build_failed E ?out) (\<lambda>_ s'. path_exists E p (b_world s) \<and> s' = s)" for p
    by (simp add: check_exists_def scripted_def ret_bs_def panic_bs_def stop_bs_def build_failed_def)
  have ft: "scripted (find_tools E) s (build_failed E ?out)
      (\<lambda>f s'. s' = s \<and> (\<exists>tools. llvm_tools_new E = Inr tools \<and> f = (\<lambda>name. tools (llvm_exe E name))))"
    unfolding find_tools_def by (auto intro!: scripted_fail scripted_ret split: sum.splits tools_error.splits)
  have "scripted (build_main E True feat) s (build_failed E ?out) (\<lambda>_ s'. build_finished E feat s s')"
    unfolding build_main_def simp_thms if_False
  proof (rule scripted_bind [OF scripted_check_target], simp, elim conjE exE, hypsubst, rule scripted_bind [OF scripted_expect], simp,
      elim conjE, hypsubst, rule scripted_bind [OF k], elim conjE, hypsubst, rule scripted_bind [OF scripted_expect], simp,
      elim conjE, hypsubst, rule scripted_bind [OF ex], elim conjE, hypsubst, rule scripted_bind [OF ft], elim conjE exE, hypsubst,
      rule scripted_bind [OF scripted_text_size], simp, elim conjE exE, rule scripted_bind [OF scripted_archive], simp, elim conjE exE,
      rule scripted_bind [OF scripted_manifest], simp, elim conjE exE, rule scripted_bind [OF scripted_write], simp, elim conjE exE,
      rule scripted_weaken [OF scripted_link], hypsubst)
  qed (unfold build_finished_def, fastforce split: sum.splits)
  then show ?thesis by (simp add: scripted_def)
qed

text \<open>
  The constants compiled into the bootloader determine its configuration: two configurations are written as the
  same text exactly when they agree on the three addresses and on the number of stack pages, which is 512 by default.
\<close>

lemma config_text_determines:
  "config_text c = config_text d \<longleftrightarrow>
     cfg_physical_memory_offset c = cfg_physical_memory_offset d \<and> cfg_kernel_stack_address c = cfg_kernel_stack_address d \<and>
     KERNEL_STACK_SIZE c = KERNEL_STACK_SIZE d \<and> cfg_boot_info_address c = cfg_boot_info_address d"
proof
  assume "config_text c = config_text d"
  note 1 = field_unique [OF this [unfolded config_text_def Let_def]]
  note 2 = field_unique [of "[]", unfolded append_Nil, OF 1 [THEN conjunct2, unfolded same_append_eq]]
  note 3 = size_unique [of "[]", unfolded append_Nil, OF 2 [THEN conjunct2, unfolded same_append_eq]]
  note 4 = field_unique [of "[]" _ "[]" _ "[]", unfolded append_Nil append_Nil2, OF 3 [THEN conjunct2, unfolded same_append_eq]]
  from 1 2 3 4 show "cfg_physical_memory_offset c = cfg_physical_memory_offset d \<and> cfg_kernel_stack_address c = cfg_kernel_stack_address d \<and>
     KERNEL_STACK_SIZE c = KERNEL_STACK_SIZE d \<and> cfg_boot_info_address c = cfg_boot_info_address d" by blast
qed (simp add: config_text_def)

subsection \<open>An example\<close>

text \<open>
  A build on a file system that is a list of paths: every command succeeds and adds its last argument, and
  \<^verbatim>\<open>llvm-size\<close> reports some code. The manifest asks for a kernel stack of 64 pages.
\<close>

definition example_env :: "string list build_env" where
  "example_env =
     \<lparr>env_var = (\<lambda>v. if v = ''TARGET'' then Inr ''x86_64-bootloader.json'' else if v = ''OUT_DIR'' then Inr ''/out''
        else if v = ''KERNEL'' then Inr ''/t/llm-os'' else if v = ''KERNEL_MANIFEST'' then Inr ''/t/Cargo.toml'' else Inl NotPresent),
      path_exists = (\<lambda>p w. p \<in> set w),
      llvm_tools_new = Inr (\<lambda>t. Some (''/bin/'' @ t)),
      llvm_exe = (\<lambda>t. t),
      run_process = (\<lambda>c w. (Some \<lparr>proc_stdout = ''text data'' @ nl @ ''  4096 12'' @ nl, proc_success = True\<rparr>, w @ [last (arguments c)])),
      read_to_string = (\<lambda>p w. if p \<in> set w then Some ''manifest'' else None),
      parse_toml = (\<lambda>c. Some (Table [(''package'', Table [(''metadata'', Table [(''bootloader'',
        Table [(''kernel-stack-size'', Integer 64)])])])])),
      file_create = (\<lambda>p w. (True, w @ [p])),
      write_all = (\<lambda>p t w. (True, w @ [t]))\<rparr>"

definition example_build :: "string list build" where
  "example_build = \<lparr>b_world = [''/t/llm-os'', ''/t/Cargo.toml''], b_stdout = [], b_stderr = [], b_commands = []\<rparr>"

lemma example_build_finishes:
  "fst (build_main example_env True True example_build) = Inr ()"
  "map program (b_commands (snd (build_main example_env True True example_build))) =
     [''/bin/llvm-size'', ''/bin/llvm-objcopy'', ''/bin/llvm-objcopy'', ''/bin/llvm-ar'']"
  "last (b_world (snd (build_main example_env True True example_build))) =
     config_text (config_default\<lparr>cfg_kernel_stack_size := Some 64\<rparr>)"
  by code_simp+

text \<open>Without \<^verbatim>\<open>TARGET\<close> the script panics before it runs a command.\<close>

lemma example_build_no_target:
  "build_main (example_env\<lparr>env_var := \<lambda>_. Inl NotPresent\<rparr>) True True example_build =
     (Inl (Build_panic (Unwrap_failed ''TARGET not set'')), example_build)"
  by (simp add: build_main_def check_target_def bind_bs_def expect_bs_def stop_bs_def example_env_def)

end
