(* ===== verification/MapRuns.thy ===== *)
theory MapRuns
  imports FrameAlloc
begin

text \<open>
  Any sequence of operations on a memory map, with any arguments and whatever the address types of the crate
  answer: the type invariant of the map, which the indexing in \<^verbatim>\<open>Deref\<close>, \<^verbatim>\<open>add_region\<close> and the frame allocator
  relies on. The functional theorems ask for regions below the physical address bound; this one asks for nothing.

  The second part follows an allocation on a map that a marked region has left with an inverted usable range.
\<close>

datatype map_op =
    Add_region memory_region
  | Sort
  | Allocate_frame memory_region_type
  | Mark_allocated_region memory_region

definition map_step ::
  "memory_region sort_by \<Rightarrow> x86 \<Rightarrow> profile \<Rightarrow> map_op \<Rightarrow> memory_map \<Rightarrow> (u64 option \<times> memory_map) rust" where
  "map_step srt X p op m =
     (case op of
        Add_region r \<Rightarrow> bind_rust (add_region srt p r m) (\<lambda>m'. Inr (None, m'))
      | Sort \<Rightarrow> Inr (None, mm_sort srt m)
      | Allocate_frame t \<Rightarrow> allocate_frame srt X p t m
      | Mark_allocated_region r \<Rightarrow> bind_rust (mark_allocated_region srt p r m) (\<lambda>m'. Inr (None, m')))"

subsection \<open>Lengths\<close>

lemma enlarge_length: "enlarge X p t rs = Inr (r, rs') \<Longrightarrow> length rs' = length rs"
  by (induction X p t rs arbitrary: r rs' rule: enlarge.induct)
    (auto simp: bind_rust_eq_Inr split: if_splits prod.splits)

lemma split_usable_length: "split_usable_region X p rs = Inr (r, rs') \<Longrightarrow> length rs' = length rs"
  by (induction X p rs arbitrary: r rs' rule: split_usable_region.induct)
    (auto simp: bind_rust_eq_Inr split: if_splits prod.splits)

lemma split_for_length: "split_for X p t rs = Inr (r, rs') \<Longrightarrow> length rs' = length rs"
  by (auto simp: split_for_def bind_rust_eq_Inr split: if_splits prod.splits dest: split_usable_length)

lemma mm_write_shape:
  assumes "mm_shape m" and "length rs = length (mm_deref m)"
  shows "mm_shape (mm_write m rs) \<and> next_entry_index (mm_write m rs) = next_entry_index m \<and>
    length (mm_deref (mm_write m rs)) = length (mm_deref m)"
  using assms by (auto simp: mm_shape_def mm_write_def mm_deref_def)

lemma set_entry_shape:
  assumes "mm_shape m"
  shows "mm_shape (set_entry i r m) \<and> next_entry_index (set_entry i r m) = next_entry_index m"
  using mm_write_shape [OF assms, of "(mm_deref m)[i := r]"] by (simp add: set_entry_def)

subsection \<open>Every operation keeps the shape\<close>

text \<open>\<open>grown k m m'\<close>: \<open>m'\<close> has its shape and at most \<open>k\<close> regions more than \<open>m\<close>.\<close>

definition grown :: "nat \<Rightarrow> memory_map \<Rightarrow> memory_map \<Rightarrow> bool" where
  "grown k m m' \<longleftrightarrow> mm_shape m' \<and> next_entry_index m' \<le> next_entry_index m + k"

context region_sort
begin

lemma mm_sort_shape:
  assumes "mm_shape m"
  shows "grown 0 m (mm_sort srt m)"
proof -
  obtain es n where r: "mm_sort srt m = \<lparr>entries = es, next_entry_index = n\<rparr>"
    "mset es = mset (entries m)" "n \<le> length es"
    "\<forall>r \<in> set (take n es). \<not> is_empty (rng r)" "\<forall>r \<in> set (drop n es). is_empty (rng r)"
    by (rule mm_sort_result [OF assms])
  have len: "length es = length (entries m)" using r(2) by (metis size_mset)
  have "nonempty_count (take n es) = n" using r(3,4) by (simp add: nonempty_count_def)
  then have "n = nonempty_count (entries m)" using nonempty_count_split [OF r(5)] nonempty_count_mset [OF r(2)] by simp
  also have "\<dots> = nonempty_count (take (next_entry_index m) (entries m))"
    using nonempty_count_split [of "next_entry_index m" "entries m"] assms by (simp add: mm_shape_def)
  also have "\<dots> \<le> next_entry_index m"
    unfolding nonempty_count_def by (metis (no_types, lifting) le_trans length_filter_le length_take min.cobounded2)
  finally show ?thesis using assms r(3,5) len by (simp add: grown_def mm_shape_def r(1))
qed

lemma add_region_shape:
  assumes "mm_shape m" and "add_region srt p r m = Inr m'"
  shows "grown 1 m m'"
proof -
  let ?n = "next_entry_index m"
  let ?m1 = "\<lparr>entries = (entries m)[?n := r], next_entry_index = Suc ?n\<rparr>"
  have n: "?n < max_memory_map_size" and m': "m' = mm_sort srt ?m1"
    using assms(2) by (auto simp: add_region_def bind_rust_eq_Inr max_memory_map_size_def u64_bound_def split: if_splits)
  have "mm_shape ?m1"
    using assms(1) n set_drop_subset_set_drop [of ?n "Suc ?n" "entries m"]
    by (auto simp: mm_shape_def drop_update_cancel)
  then show ?thesis using mm_sort_shape [of ?m1] by (simp add: grown_def m')
qed

lemma allocate_frame_shape:
  assumes "mm_shape m" and "allocate_frame srt X p t m = Inr (r, m')"
  shows "grown 1 m m'"
proof -
  obtain enlarged rs where e: "enlarge X p t (mm_deref m) = Inr (enlarged, rs)"
    using assms(2) by (auto simp: allocate_frame_def bind_rust_eq_Inr)
  note rs = enlarge_length [OF e]
  show ?thesis
  proof (cases enlarged)
    case (Some frame)
    then have "m' = mm_write m rs" using assms(2) by (simp add: allocate_frame_def e)
    then show ?thesis using mm_write_shape [OF assms(1) rs] by (simp add: grown_def)
  next
    case None
    then obtain result rs' where s: "split_for X p t rs = Inr (result, rs')"
      using assms(2) by (auto simp: allocate_frame_def e bind_rust_eq_Inr)
    have w: "mm_shape (mm_write m rs') \<and> next_entry_index (mm_write m rs') = next_entry_index m"
      using mm_write_shape [OF assms(1), of rs'] split_for_length [OF s] rs by simp
    show ?thesis
    proof (cases result)
      case (Some ff)
      then obtain q where "add_region srt p q (mm_write m rs') = Inr m'"
        using assms(2) None by (cases ff) (auto simp: allocate_frame_def e s bind_rust_eq_Inr)
      then show ?thesis using add_region_shape w by (simp add: grown_def) metis
    next
      case None': None
      then have "m' = mm_write m rs'" using assms(2) None by (simp add: allocate_frame_def e s)
      then show ?thesis using w by (simp add: grown_def)
    qed
  qed
qed

lemma mark_allocated_region_shape:
  assumes "mm_shape m" and "mark_allocated_region srt p region m = Inr m'"
  shows "grown 2 m m'"
proof -
  note e = set_entry_shape [OF assms(1)]
  have 1: "grown 2 m m1" if "add_region srt p q (set_entry i r m) = Inr m1" for q i r m1
    using add_region_shape [OF _ that] e [of i r] by (simp add: grown_def)
  have 2: "grown 2 m m2" if a: "add_region srt p q (set_entry i r m) = Inr m1" and b: "add_region srt p q' m1 = Inr m2" for q q' i r m1 m2
  proof -
    have "grown 1 (set_entry i r m) m1" using add_region_shape [OF _ a] e [of i r] by blast
    then show ?thesis using add_region_shape [OF _ b] e [of i r] by (simp add: grown_def)
  qed
  show ?thesis
    using assms(2) 1 2 e unfolding mark_allocated_region_def
    by (auto simp: Let_def bind_rust_eq_Inr grown_def split: option.splits if_splits)
qed

lemma map_step_shape:
  assumes "mm_shape m" and "map_step srt X p op m = Inr (r, m')"
  shows "grown 2 m m'"
proof (cases op)
  case (Add_region q)
  then show ?thesis using assms add_region_shape by (fastforce simp: map_step_def bind_rust_eq_Inr grown_def)
next
  case Sort
  then show ?thesis using assms mm_sort_shape by (fastforce simp: map_step_def grown_def)
next
  case (Allocate_frame t)
  then show ?thesis using assms allocate_frame_shape by (fastforce simp: map_step_def grown_def)
next
  case (Mark_allocated_region q)
  then show ?thesis using assms mark_allocated_region_shape by (fastforce simp: map_step_def bind_rust_eq_Inr)
qed

lemma map_run_shape:
  assumes "run_steps (map_step srt X p) ops m = Inr (os, m')" and "mm_shape m"
  shows "grown (2 * length ops) m m'"
  using assms
proof (induction ops arbitrary: m os)
  case (Cons op ops)
  then obtain r m1 os' where s: "map_step srt X p op m = Inr (r, m1)" "run_steps (map_step srt X p) ops m1 = Inr (os', m')"
    by (auto simp: run_steps_Cons_Inr simp del: run_steps.simps(2))
  have "grown 2 m m1" by (rule map_step_shape [OF Cons.prems(2) s(1)])
  then show ?case using Cons.IH [OF s(2)] by (simp add: grown_def)
qed (simp add: grown_def)

end

subsection \<open>Allocating from a map whose only usable range is inverted\<close>

text \<open>
  Every usable range in \<open>rs\<close> that does not count as empty starts at frame \<open>e\<close>; nothing is said of where it ends.
\<close>

definition offers_only :: "u64 \<Rightarrow> memory_region list \<Rightarrow> bool" where
  "offers_only e rs \<longleftrightarrow>
     (\<forall>r \<in> set rs. start_frame_number (rng r) < frame_bound \<and> end_frame_number (rng r) < frame_bound \<and>
        (region_type r = Usable \<and> \<not> is_empty (rng r) \<longrightarrow> start_frame_number (rng r) = e))"

context x86_addresses
begin

lemma phys_frame_range_below:
  assumes "start_frame_number (rng r) < frame_bound" and "end_frame_number (rng r) < frame_bound"
  shows "phys_frame_range X p (rng r) = Inr (start_frame_number (rng r) * 4096, end_frame_number (rng r) * 4096)"
  using assms frame_at_valid
  by (simp add: phys_frame_range_def start_addr_def end_addr_def page_size_def u64_bound_def frame_bound_def)

lemma enlarge_offered:
  assumes "offers_only e rs"
  shows "enlarge X p t rs = Inr (None, rs) \<or> (\<exists>rs'. enlarge X p t rs = Inr (Some (e * 4096), rs'))"
  using assms
proof (induction rs rule: induct_list012)
  case (3 r n rs)
  have r: "phys_frame_range X p (rng r) = Inr (start_frame_number (rng r) * 4096, end_frame_number (rng r) * 4096)"
    using 3(3) by (intro phys_frame_range_below) (simp_all add: offers_only_def)
  show ?case
  proof (cases "region_type r = t \<and> start_frame_number (rng n) = end_frame_number (rng r) \<and> region_type n = Usable \<and> \<not> is_empty (rng n)")
    case True
    moreover have "start_frame_number (rng n) = e" "e < frame_bound" using True 3(3) by (auto simp: offers_only_def)
    ultimately show ?thesis by (simp add: r frame_bound_def u64_bound_def)
  next
    case False
    have "offers_only e (n # rs)" using 3(3) by (simp add: offers_only_def)
    from 3(2) [OF this] show ?thesis using False by auto
  qed
qed simp_all

lemma split_offered:
  assumes "offers_only e rs" and "e + 1 < frame_bound" and "\<exists>r \<in> set rs. region_type r = Usable \<and> \<not> is_empty (rng r)"
  shows "\<exists>rs'. split_usable_region X p rs = Inr (Some (e * 4096, e * 4096, (e + 1) * 4096), rs')"
  using assms
proof (induction rs)
  case (Cons r rs)
  have r: "phys_frame_range X p (rng r) = Inr (start_frame_number (rng r) * 4096, end_frame_number (rng r) * 4096)"
    using Cons(2) by (intro phys_frame_range_below) (simp_all add: offers_only_def)
  show ?case
  proof (cases "region_type r = Usable \<and> \<not> is_empty (rng r)")
    case True
    then have e: "start_frame_number (rng r) = e" using Cons(2) by (simp add: offers_only_def)
    have "frame_add X (e * 4096) 1 = Inr ((e + 1) * 4096)"
      using add_frames [of "e * 4096" 1] assms(2) by (simp add: phys_bound_def frame_bound_def)
    then show ?thesis using True r e assms(2) by (simp add: frame_bound_def u64_bound_def)
  next
    case False
    have "offers_only e rs" "\<exists>r \<in> set rs. region_type r = Usable \<and> \<not> is_empty (rng r)"
      using Cons(2,4) False by (auto simp: offers_only_def)
    from Cons(1) [OF this(1) assms(2) this(2)] show ?thesis using False by auto
  qed
qed simp

lemma split_for_offered:
  assumes "offers_only e rs" and "e + 1 < frame_bound" and "\<exists>r \<in> set rs. region_type r = Usable \<and> \<not> is_empty (rng r)"
  shows "\<exists>rs'. split_for X p t rs = Inr (Some (e * 4096, e * 4096, (e + 1) * 4096), rs')"
  using split_offered [of e rs p] split_offered [of e "rev rs" p] assms
  by (auto simp: split_for_def offers_only_def)

lemma allocate_frame_offered:
  assumes "offers_only e (mm_deref m)" and "e + 1 < frame_bound" and "next_entry_index m < max_memory_map_size"
    and "\<exists>r \<in> set (mm_deref m). region_type r = Usable \<and> \<not> is_empty (rng r)"
  shows "\<exists>m'. allocate_frame srt X p t m = Inr (Some (e * 4096), m')"
proof (cases "\<exists>rs'. enlarge X p t (mm_deref m) = Inr (Some (e * 4096), rs')")
  case True
  then show ?thesis by (auto simp: allocate_frame_def)
next
  case False
  then have none: "enlarge X p t (mm_deref m) = Inr (None, mm_deref m)" using enlarge_offered [OF assms(1), of p t] by blast
  obtain rs' where s: "split_for X p t (mm_deref m) = Inr (Some (e * 4096, e * 4096, (e + 1) * 4096), rs')"
    using split_for_offered [OF assms(1,2,4)] by blast
  have "frame_range_of p (e * 4096, (e + 1) * 4096) = Inr \<lparr>start_frame_number = e, end_frame_number = e + 1\<rparr>"
    using assms(2) by (simp add: frame_range_of_def frame_range_new_def page_size_def frame_bound_def u64_bound_def)
  moreover have "\<exists>m'. add_region srt p q (mm_write m rs') = Inr m'" for q
    using assms(3) by (simp add: add_region_def mm_write_def max_memory_map_size_def u64_bound_def)
  ultimately show ?thesis by (auto simp: allocate_frame_def none s bind_rust_eq_Inr)
qed

end

lemma usable_iff: "f \<in> usable m \<longleftrightarrow> (\<exists>r \<in> set (mm_deref m). region_type r = Usable \<and> holds r f)"
  by (auto simp: usable_def owners_def types_at_member)

subsection \<open>Properties\<close>

text \<open>
  C22: a memory map keeps its type under every sequence of operations that does not panic, for all arguments: it has
  64 slots, counts at most 64 and at most two more per operation, and every slot behind the count is empty. Indexing
  it up to the count stays inside the array.
\<close>

theorem memory_map_run_typed:
  assumes "region_sort srt" and "run_steps (map_step srt X p) ops memory_map_new = Inr (os, m)"
  shows "length (entries m) = 64 \<and> next_entry_index m \<le> min 64 (2 * length ops) \<and>
    length (mm_deref m) = next_entry_index m \<and> (\<forall>i. next_entry_index m \<le> i \<and> i < 64 \<longrightarrow> is_empty (rng (entries m ! i)))"
proof -
  have "mm_shape memory_map_new" using mm_wf_new by (simp add: mm_wf_shape)
  then have g: "mm_shape m \<and> next_entry_index m \<le> 2 * length ops"
    using region_sort.map_run_shape [OF assms] by (simp add: grown_def memory_map_new_def)
  have "is_empty (rng (entries m ! i))" if "next_entry_index m \<le> i" "i < 64" for i
  proof -
    have "entries m ! i \<in> set (drop (next_entry_index m) (entries m))"
      using that g in_set_conv_nth [of "entries m ! i" "drop (next_entry_index m) (entries m)"]
      by (auto simp: mm_shape_def max_memory_map_size_def intro!: exI [of _ "i - next_entry_index m"])
    then show ?thesis using g by (simp add: mm_shape_def)
  qed
  then show ?thesis using g by (auto simp: mm_shape_def mm_deref_def max_memory_map_size_def)
qed

theorem memory_map_run_typed_witness:
  "\<exists>os m. run_steps (map_step insertion_sort_by x86_documented Debug) [Add_region low_memory, Sort] memory_map_new = Inr (os, m) \<and>
     length (entries m) = 64 \<and> next_entry_index m \<le> 4 \<and> length (mm_deref m) = next_entry_index m"
proof -
  obtain m1 where "add_region insertion_sort_by Debug low_memory memory_map_new = Inr m1"
    by (rule inss.add_region_correct [OF mm_wf_new, of low_memory])
      (simp_all add: low_memory_def region_ok_def frame_bound_def memory_map_new_def max_memory_map_size_def)
  then obtain os m where r: "run_steps (map_step insertion_sort_by x86_documented Debug) [Add_region low_memory, Sort] memory_map_new = Inr (os, m)"
    by (simp add: map_step_def)
  then show ?thesis using memory_map_run_typed [OF inss.region_sort_axioms r] by auto
qed

text \<open>
  C30: marking a region that covers the only usable region on both sides does not take the usable region away but
  inverts it: it then starts at the end of the marked region, ends before its start, and does not count as empty. No
  frame of the resulting map is usable, yet the next allocation, of any type, succeeds and hands out the frame right
  behind the marked region, which was not usable before either.
\<close>

theorem mark_allocated_region_covering_inverts:
  assumes "frame_allocation srt X" and "mm_wf m" and "region_ok region" and "region_type region \<noteq> Usable"
    and "next_entry_index m + 2 \<le> max_memory_map_size"
    and "position (overlaps region) (mm_deref m) = Some i" and "region_type (mm_deref m ! i) = Usable"
    and "\<forall>j < length (mm_deref m). j \<noteq> i \<longrightarrow> region_type (mm_deref m ! j) \<noteq> Usable"
    and "start_frame_number (rng region) < start_frame_number (rng (mm_deref m ! i))"
    and "end_frame_number (rng (mm_deref m ! i)) < end_frame_number (rng region)"
    and "end_frame_number (rng region) + 1 < frame_bound"
  shows "\<exists>m' m''. mark_allocated_region srt p region m = Inr m' \<and> usable m' = {} \<and>
    allocate_frame srt X p t m' = Inr (Some (end_frame_number (rng region) * 4096), m'') \<and>
    end_frame_number (rng region) \<notin> usable m"
proof -
  let ?e = "end_frame_number (rng region)" and ?rs = "mm_deref m"
  let ?q = "set_start ?e (?rs ! i)"
  have rs: "region_sort srt" and xa: "x86_addresses X" using assms(1) by (auto simp: frame_allocation_def)
  have room: "next_entry_index m < max_memory_map_size" using assms(5) by simp
  obtain m' where m': "mark_allocated_region srt p region m = Inr m'" "add_region srt p region (set_entry i ?q m) = Inr m'"
    "?q \<in> set (mm_deref m')" "set (mm_deref m') \<subseteq> insert region (set (?rs[i := ?q]))"
    using region_sort.mark_allocated_region_covering [OF rs assms(2,3) room assms(6) refl assms(7,9,10)] by blast
  have i: "i < length ?rs" using assms(6) by (simp add: position_Some)
  have only: "x = ?q" if x: "x \<in> set (mm_deref m')" "region_type x = Usable" for x
  proof -
    have "x \<in> set (?rs[i := ?q])" using x assms(4) m'(4) by auto
    then obtain j where j: "j < length ?rs" "x = ?rs[i := ?q] ! j" by (auto simp: in_set_conv_nth)
    then show ?thesis using assms(8) x(2) by (cases "j = i") auto
  qed
  have below: "start_frame_number (rng x) < frame_bound \<and> end_frame_number (rng x) < frame_bound" if "x \<in> set (mm_deref m')" for x
  proof -
    have "x = region \<or> x = ?q \<or> x \<in> set ?rs" using that m'(4) set_update_subset_insert [of ?rs i ?q] by auto
    then show ?thesis using mm_deref_ok [OF assms(2)] assms(3,10,11) by (auto simp: region_ok_def)
  qed
  have q: "region_type ?q = Usable" "\<not> is_empty (rng ?q)" "\<not> holds ?q f" for f
    using assms(7,10) by (auto simp: is_empty_def holds_def)
  have offers: "offers_only ?e (mm_deref m')" unfolding offers_only_def
  proof (intro ballI conjI impI)
    fix x assume "x \<in> set (mm_deref m')" "region_type x = Usable \<and> \<not> is_empty (rng x)"
    then have "x = ?q" using only by blast
    then show "start_frame_number (rng x) = ?e" by simp
  qed (simp_all add: below)
  have "mm_shape m" using assms(2) by (simp add: mm_wf_shape)
  then have "next_entry_index m' < max_memory_map_size"
    using set_entry_shape [of m i ?q] region_sort.add_region_shape [OF rs _ m'(2)] assms(5) by (auto simp: grown_def)
  then obtain m'' where a: "allocate_frame srt X p t m' = Inr (Some (?e * 4096), m'')"
    using x86_addresses.allocate_frame_offered [OF xa offers assms(11)] m'(3) q(1,2) by blast
  have "?e \<notin> usable m"
  proof
    assume "?e \<in> usable m"
    then obtain j where j: "j < length ?rs" "region_type (?rs ! j) = Usable" "holds (?rs ! j) ?e"
      by (auto simp: usable_iff in_set_conv_nth)
    then have "j = i" using assms(8) by blast
    then show False using j(3) assms(10) by (simp add: holds_def)
  qed
  moreover have "usable m' = {}" using only q(3) by (auto simp: usable_iff)
  ultimately show ?thesis using m'(1) a by blast
qed

definition covering_area :: memory_region where
  "covering_area = \<lparr>rng = \<lparr>start_frame_number = 255, end_frame_number = 32740\<rparr>, region_type = Kernel\<rparr>"

definition gap_map :: memory_map where
  "gap_map =
     \<lparr>entries = \<lparr>rng = \<lparr>start_frame_number = 256, end_frame_number = 32736\<rparr>, region_type = Usable\<rparr>
        # replicate 63 region_empty,
      next_entry_index = 1\<rparr>"

theorem mark_allocated_region_covering_inverts_witness:
  "mm_wf gap_map \<and> usable gap_map = {256..<32736} \<and>
   (\<exists>m' m''. mark_allocated_region insertion_sort_by Debug covering_area gap_map = Inr m' \<and> usable m' = {} \<and>
     allocate_frame insertion_sort_by x86_documented Debug PageTable m' = Inr (Some (32740 * 4096), m''))"
proof -
  have deref: "mm_deref gap_map = [\<lparr>rng = \<lparr>start_frame_number = 256, end_frame_number = 32736\<rparr>, region_type = Usable\<rparr>]"
    by (simp add: mm_deref_def gap_map_def)
  have wf: "mm_wf gap_map"
    by (simp add: mm_wf_def gap_map_def max_memory_map_size_def region_empty_def is_empty_def region_ok_def frame_bound_def)
  have u: "usable gap_map = {256..<32736}"
    by (auto simp: usable_iff deref holds_def)
  have n: "next_entry_index gap_map = 1" by (simp add: gap_map_def)
  have e: "end_frame_number (rng covering_area) = 32740" by (simp add: covering_area_def)
  have "\<exists>m' m''. mark_allocated_region insertion_sort_by Debug covering_area gap_map = Inr m' \<and> usable m' = {} \<and>
    allocate_frame insertion_sort_by x86_documented Debug PageTable m' = Inr (Some (end_frame_number (rng covering_area) * 4096), m'') \<and>
    end_frame_number (rng covering_area) \<notin> usable gap_map"
    by (rule mark_allocated_region_covering_inverts [OF fa.frame_allocation_axioms wf, where i = 0])
      (simp_all add: deref covering_area_def overlaps_def region_ok_def frame_bound_def n max_memory_map_size_def)
  then show ?thesis using wf u unfolding e by blast
qed

end
