(* ===== verification/Spec2Isabelle.thy ===== *)
theory Spec2Isabelle
  imports KernelMain BootExample BuildScript MapRuns
begin

text \<open>
  \<^bold>\<open>A verified model of LLM OS\<close>

  LLM OS is a bare-metal x86-64 kernel in Rust whose only user-land program is an agent. A build script wraps the
  kernel file for the vendored bootloader (\<^verbatim>\<open>bootloader/\<close>), whose last stage reads the BIOS memory table, builds a map
  of the physical memory, loads the kernel's segments, maps its stack and the physical memory, and hands it the boot
  information. The kernel (\<^verbatim>\<open>src/\<close>) initialises the processor tables and interrupts, maps a heap, and starts the
  agent, which keeps its conversation in a bounded context window and answers input with built-in tools. This
  theory follows the whole way from the memory table to the halt loop.

  \<^bold>\<open>Conventions.\<close> A Rust function is a HOL function of the same name where HOL allows it. Unsigned
  integers are \<open>nat\<close> and signed ones \<open>int\<close> with the width written out in each operation; control registers are
  64-bit words. The build profile is an argument, since overflow panics under Cargo's debug profile and wraps under
  the release profile. A function that can panic returns \<open>panic + 'a\<close>. Mutable state is passed explicitly, console
  output is returned as a list of requests. Crates outside the repository are arguments: the sort of the standard
  library, the address types, page tables and descriptor tables of \<^verbatim>\<open>x86_64\<close>, the ELF reader, the TOML parser, the
  keyboard decoder, the font. What their documentation promises is stated in locales (\<open>unstable_sort\<close>,
  \<open>x86_addresses\<close>, \<open>mapper\<close>, \<open>kernel_loader\<close>, \<open>boot_machine\<close>, \<open>gdt_contract\<close>), each interpreted by a concrete
  instance. Interfaces between the program's own components are locales too, interpreted by the model: \<open>step_system\<close>,
  \<open>ordered_map\<close>, \<open>message_window\<close>, \<open>region_sort\<close>, \<open>frame_allocation\<close>.

  \<^bold>\<open>Theories.\<close>
  \<^item> \<open>Prelude\<close>: panics, sequencing, fixed-width arithmetic, lists, runs of a component and their
    invariants (locale \<open>step_system\<close>).
  \<^item> \<open>RustStr\<close>, \<open>FloatFmt\<close>, \<open>OrdMap\<close>: strings as UTF-8 bytes with trimming, splitting, printing and
    parsing of integers; formatting of a percentage; the ordered map behind \<^verbatim>\<open>BTreeMap\<close> (locale
    \<open>ordered_map\<close>).
  \<^item> \<open>Context\<close> (\<^verbatim>\<open>src/agent/context.rs\<close>), \<open>Tools\<close> (\<^verbatim>\<open>src/agent/tools.rs\<close>), \<open>Agent\<close>
    (\<^verbatim>\<open>src/agent/mod.rs\<close>): the window evicts the least sufficient number of oldest messages and never
    a system message; the calculator is exact or reports, and overflows only on overflow; stored pairs
    are recalled; the agent's invariant holds along every run (locale \<open>message_window\<close>), and under every profile
    the window shows the end of the whole conversation.
  \<^item> \<open>MemoryMap\<close> (\<^verbatim>\<open>bootinfo/memory_map.rs\<close>), \<open>FrameAlloc\<close> (\<^verbatim>\<open>frame_allocator.rs\<close>), \<open>MapRuns\<close>, \<open>BootInfoMap\<close>
    (\<^verbatim>\<open>boot_info.rs\<close>, \<^verbatim>\<open>bootinfo/mod.rs\<close>): the abstract view of a map is the multiset of owner types
    of each frame; sorting keeps it, adding a region adds to it, allocating a frame moves one frame
    from usable to the wanted type, a run of allocations hands out distinct frames; what marking and
    trimming do, also in the cases the code gets wrong; every sequence of operations keeps the map's type; what an
    allocation hands out after a marked region has inverted a usable one.
  \<^item> \<open>X86\<close>, \<open>Paging\<close>, \<open>Cpu\<close> (\<^verbatim>\<open>sse.rs\<close> and the register functions of \<^verbatim>\<open>bootloader/src/main.rs\<close>): the parameters for
    addresses and page tables with their locales and instances; the bits set in the control registers.
  \<^item> \<open>Level4\<close> (\<^verbatim>\<open>level4_entries.rs\<close>), \<open>Printer\<close> (\<^verbatim>\<open>printer/\<close>): reservation of level 4 entries; the
    two panic printers over unchecked video memory.
  \<^item> \<open>KernelLoad\<close> and \<open>KernelLoadCorrect\<close> (\<^verbatim>\<open>page_table.rs\<close>): the loader over page table, memory map and bytes of
    memory; every segment is loaded with its bytes, zeros and access rights and nothing else is touched, or memory
    has run out (locale \<open>kernel_loader\<close>).
  \<^item> \<open>BootMain\<close> (\<^verbatim>\<open>bootloader/src/main.rs\<close>), \<open>UsedMemory\<close>, \<open>BootCorrect\<close>, \<open>BootLoader\<close>, \<open>BootExample\<close>: the last
    stage from \<^verbatim>\<open>stage_4\<close> to the jump; marking of the memory in use; correctness of its phases over the locale
    \<open>boot_machine\<close> and their composition \<open>handed_over\<close>; a machine that satisfies the locale, and a boot on it.
  \<^item> \<open>BuildConfig\<close>, \<open>BuildScript\<close> (\<^verbatim>\<open>bootloader/build.rs\<close>): reading the configuration; the script as a whole over
    an environment of variables, files and programs; how it ends in every case.
  \<^item> \<open>KernelMemory\<close> (\<^verbatim>\<open>src/memory.rs\<close>, \<^verbatim>\<open>src/allocator.rs\<close>): the kernel's allocator walks the list of
    usable frames; the heap is mapped page by page to distinct frames.
  \<^item> \<open>VgaBuffer\<close> (\<^verbatim>\<open>src/vga_buffer.rs\<close>): the screen shows the last 25 rows of an unbounded terminal.
  \<^item> \<open>Descriptors\<close> (\<^verbatim>\<open>src/gdt.rs\<close>, tables of \<^verbatim>\<open>src/interrupts.rs\<close>), \<open>Interrupts\<close> (\<^verbatim>\<open>src/interrupts.rs\<close>,
    \<^verbatim>\<open>src/serial.rs\<close>, \<^verbatim>\<open>src/lib.rs\<close>): a step relation interleaves the kernel's thread with interrupt handlers found
    through the loaded tables; no deadlock, no interrupt before its handler is loaded, every interrupt acknowledged
    once, and the thread always gets to its halt loop.
  \<^item> \<open>KernelMain\<close> (\<^verbatim>\<open>src/main.rs\<close>, test runner of \<^verbatim>\<open>src/lib.rs\<close>): the kernel's components composed; the kernel
    boots.
  \<^item> This theory composes bootloader and kernel.

  \<^bold>\<open>Bounds.\<close> Frame numbers are below \<open>2 ^ 40\<close> (52-bit physical addresses), virtual addresses in the
  lower canonical half. The boot theorems are about the default addresses of stack, boot information and window, about
  segments below level 4 entry 31, and a memory that does not end at a multiple of 512 GiB. A map has 64 slots, so theorems about runs ask for a free slot per step or allow the panic
  that there is none. No definition uses fuel: all recursions are structural or have a termination proof. The
  infinite halt loop is the end of a run; \<open>Interrupts\<close> bounds the steps until it is reached.

  \<^bold>\<open>Not modelled.\<close> The assembly stages (real and protected mode, not Rust); port access, beyond the order of the
  calls; the layout of descriptors; the linked-list allocator behind the heap range (a library); formatting of debug
  output, which is a string argument; the lazy initialisation of statics, which are initialised from the start.
\<close>

section \<open>From the BIOS table to the halt loop\<close>

text \<open>The pages of the heap, all under entry 136 of the top-level table.\<close>

definition heap_pages :: "u64 set" where
  "heap_pages = {q. \<exists>i < 256. q * 4096 = HEAP_START + i * 4096}"

lemma heap_page_level4: "q \<in> heap_pages \<Longrightarrow> level4_of q = 136"
  by (auto simp: heap_pages_def level4_of_def HEAP_START_def intro!: div_nat_eqI)

lemma heap_page: "HEAP_START + i * 4096 = (HEAP_START div 4096 + i) * 4096"
  by (simp add: HEAP_START_def)

lemma heap_mappable:
  assumes "\<forall>q. 32 \<le> level4_of q \<and> mappable pt (q * 4096) \<longrightarrow> mappable pt' (q * 4096)" and "\<forall>i < 256. mappable pt (HEAP_START + i * 4096)"
  shows "\<forall>i < 256. mappable pt' (HEAP_START + i * 4096)"
proof (intro allI impI)
  fix i :: nat assume i: "i < 256"
  have "HEAP_START div 4096 + i \<in> heap_pages" using i heap_page [of i] by (auto simp: heap_pages_def)
  from heap_page_level4 [OF this] show "mappable pt' (HEAP_START + i * 4096)"
    using assms(1) [rule_format, of "HEAP_START div 4096 + i"] assms(2) i unfolding heap_page by simp
qed

lemma heap_keeps:
  assumes "\<forall>q. (\<forall>i < 256. q \<noteq> HEAP_START + i * 4096) \<longrightarrow> env_translate E pt' q = env_translate E (ld_pt s) q" and "sound (ld_map s)"
  shows "keeps E (\<lambda>_ _. True) (\<lambda>_ _. ()) heap_pages s (s\<lparr>ld_pt := pt'\<rparr>)"
  by (rule keepsI) (use assms in \<open>auto simp: heap_pages_def\<close>)

lemma segment_below_heap:
  assumes "segment_ok k seg" and "ph_virtual_addr seg + ph_mem_size seg < 31 * 2 ^ 39"
  shows "touched_pages seg \<inter> heap_pages = {}"
proof -
  have "level4_of q \<noteq> 136" if "q \<in> touched_pages seg" for q
  proof -
    have "(ph_virtual_addr seg + ph_mem_size seg) div 2 ^ 39 < 31" using assms(2) by (intro less_mult_imp_div_less)
    then show ?thesis using touched_level4 [OF assms(1) that] by linarith
  qed
  then show ?thesis using heap_page_level4 by blast
qed

text \<open>The kernel as the bootloader left it, in an address space that has been extended by the heap.\<close>

definition still_loaded ::
  "'pt boot_env \<Rightarrow> boot_build \<Rightarrow> boot_params \<Rightarrow> program_header list \<Rightarrow> memory_map \<Rightarrow> (u64 \<Rightarrow> nat) \<Rightarrow> 'pt handover \<Rightarrow> 'pt \<Rightarrow> u64 set \<Rightarrow> bool" where
  "still_loaded B bld P segs m mem ho pt heap_frames \<longleftrightarrow>
     (let E = be_loader B; s = (bm_ld (ho_state ho))\<lparr>ld_pt := pt\<rparr>; len = KERNEL_STACK_SIZE (bld_config bld) in
        (\<forall>seg \<in> set segs. loaded E (kernel_start P) (usable m) mem s seg) \<and>
        (\<exists>p g. ho_stack_pointer ho = (p + 1 + len) * 4096 \<and> backs E s {PRESENT, WRITABLE} g (stack_pages p len)) \<and>
        heap_frames \<subseteq> usable (ld_map s))"

lemma handed_over_still_loaded:
  fixes ho :: "'pt handover"
  assumes h: "handed_over B mappable translate_2m bld P entry_point segs m c pt mem ho"
    and rd: "boot_ready mappable entry vacant translate_2m P segs (KERNEL_STACK_SIZE (bld_config bld)) mem_top K pt"
    and t: "\<forall>q. (\<forall>i < 256. q \<noteq> HEAP_START + i * 4096) \<longrightarrow>
      env_translate (be_loader B) pt' q = env_translate (be_loader B) (ld_pt (bm_ld (ho_state ho))) q"
    and sd: "sound (ld_map (bm_ld (ho_state ho)))" and fs: "F \<subseteq> usable (bi_memory_map (ho_boot_info ho))"
  shows "still_loaded B bld P segs m mem ho pt' F"
proof -
  let ?len = "KERNEL_STACK_SIZE (bld_config bld)"
  note h = h [unfolded handed_over_def Let_def] and k = heap_keeps [OF t sd]
  have seg: "loaded (be_loader B) (kernel_start P) (usable m) mem ((bm_ld (ho_state ho))\<lparr>ld_pt := pt'\<rparr>) sg" if "sg \<in> set segs" for sg
  proof (rule loaded_keeps [OF _ k])
    have s: "segment_ok (kernel_start P) sg" "ph_virtual_addr sg + ph_mem_size sg < K * 2 ^ 39" "K \<le> 31"
      using rd that by (simp_all add: boot_ready_def)
    from s(3) have "K * 2 ^ 39 \<le> 31 * 2 ^ 39" by (rule mult_le_mono1)
    then show "touched_pages sg \<inter> heap_pages = {}" using s(2) by (intro segment_below_heap [OF s(1)]) linarith
    show "ph_type sg = Load \<longrightarrow> ph_file_size sg \<le> ph_mem_size sg" using s(1) by (simp add: segment_ok_def)
  qed (use h that in blast)
  obtain p g where st: "ho_stack_pointer ho = (p + 1 + ?len) * 4096" "p + 1 + ?len \<le> 31 * 2 ^ 27"
    "backs (be_loader B) (bm_ld (ho_state ho)) {PRESENT, WRITABLE} g (stack_pages p ?len)" using h by blast
  have "stack_pages p ?len \<inter> heap_pages = {}"
  proof -
    have "level4_of q < 31" if "q \<in> stack_pages p ?len" for q
      unfolding level4_of_def using that st(2) by (intro less_mult_imp_div_less) (auto simp: stack_pages_def)
    then show ?thesis using heap_page_level4 by fastforce
  qed
  from backs_keeps [OF st(3) k this] st(1) seg h fs show ?thesis unfolding still_loaded_def Let_def by auto
qed

text \<open>
  The page table the kernel sees at a virtual address: the active one, if the large page around the address leads
  to the frame of its top-level table, and something else otherwise.
\<close>

definition table_seen ::
  "('pt \<Rightarrow> u64 \<Rightarrow> (u64 \<times> page_flags) option) \<Rightarrow> u64 \<Rightarrow> 'pt \<Rightarrow> 'pt \<Rightarrow> u64 \<Rightarrow> 'pt" where
  "table_seen translate_2m root pt other v =
     (case translate_2m pt (v - v mod 2 ^ 21) of
        Some (frame, _) \<Rightarrow> if frame + v mod 2 ^ 21 = root then pt else other
      | None \<Rightarrow> other)"

lemma table_seen_window:
  assumes "offset mod 2 ^ 39 = 0" and "root \<le> top_addr"
    and "\<forall>j \<le> top_addr div 2 ^ 21. translate_2m pt (offset + j * 2 ^ 21) = Some (j * 2 ^ 21, fl)"
  shows "table_seen translate_2m root pt other (offset + root) = pt"
proof -
  have "offset mod 2 ^ 21 = offset mod 2 ^ 39 mod 2 ^ 21" by (intro mod_mod_cancel [symmetric] le_imp_power_dvd) simp
  then have "offset mod 2 ^ 21 = 0" unfolding assms(1) by simp
  then have m: "(offset + root) mod 2 ^ 21 = root mod 2 ^ 21" by (metis add.left_neutral mod_add_left_eq)
  have r: "root div 2 ^ 21 * 2 ^ 21 + root mod 2 ^ 21 = root" by (rule div_mult_mod_eq)
  then have "offset + root - root mod 2 ^ 21 = offset + root div 2 ^ 21 * 2 ^ 21" by linarith
  moreover have "root div 2 ^ 21 \<le> top_addr div 2 ^ 21" using assms(2) by (rule div_le_mono)
  ultimately show ?thesis using assms(3) r unfolding table_seen_def m by simp
qed

lemma handed_over_boots:
  fixes ho :: "'pt handover"
  assumes h: "handed_over B mappable translate_2m bld P entry_point segs m c pt mem ho"
    and x: "x86_addresses X" and mt: "mapper map_to (env_translate (be_loader B)) mappable"
    and feat: "map_physical_memory (bld_features bld)" and root: "root < 2 ^ 39" "root \<le> top_of m"
    and heap: "\<forall>i < 256. mappable pt (HEAP_START + i * 4096)" and enough: "1024 \<le> card (usable (bi_memory_map (ho_boot_info ho)))"
  shows "\<exists>after k fs. kernel_main info map_to X p root (table_seen translate_2m root (ld_pt (bm_ld (ho_state ho))) other) (ho_boot_info ho) =
      (banner, after, Hlt_loop k) \<and>
    agent_inv (k_agent k) \<and> messages (ctx (k_agent k)) = [new_message System system_prompt] \<and>
    k_heap k = Some (HEAP_START, HEAP_SIZE) \<and> length fs = 256 \<and> distinct fs \<and> set fs \<subseteq> usable (bi_memory_map (ho_boot_info ho)) \<and>
    (\<forall>i < 256. env_translate (be_loader B) (k_page_table k) (HEAP_START + i * 4096) = Some (fs ! i * 4096, {PRESENT, WRITABLE})) \<and>
    (\<forall>q. (\<forall>i < 256. q \<noteq> HEAP_START + i * 4096) \<longrightarrow>
       env_translate (be_loader B) (k_page_table k) q = env_translate (be_loader B) (ld_pt (bm_ld (ho_state ho))) q)"
proof -
  note h = h [unfolded handed_over_def Let_def]
  have "map_physical_memory (bld_features bld) \<longrightarrow>
      (\<exists>offset. bi_physical_memory_offset (ho_boot_info ho) = Some offset \<and> offset mod 2 ^ 39 = 0 \<and> 2 ^ 39 \<le> offset \<and> offset < 31 * 2 ^ 39 \<and>
        (\<forall>j \<le> top_of m div 2 ^ 21. translate_2m (ld_pt (bm_ld (ho_state ho))) (offset + j * 2 ^ 21) = Some (j * 2 ^ 21, {PRESENT, WRITABLE})))"
    using h by (elim conjE)
  from mp [OF this feat] obtain offset where off: "bi_physical_memory_offset (ho_boot_info ho) = Some offset" "2 ^ 39 \<le> offset" "offset < 31 * 2 ^ 39"
    "offset mod 2 ^ 39 = 0"
    "\<forall>j \<le> top_of m div 2 ^ 21. translate_2m (ld_pt (bm_ld (ho_state ho))) (offset + j * 2 ^ 21) = Some (j * 2 ^ 21, {PRESENT, WRITABLE})"
    by (elim exE conjE)
  note seen = table_seen_window [where translate_2m = translate_2m and other = other, OF off(4) root(2) off(5)]
  have "offset \<noteq> 0" "offset + root < virt_bound" using off(2,3) root(1) by (simp_all add: virt_bound_def)
  moreover have "mm_wf (bi_memory_map (ho_boot_info ho))" "sole_usable (bi_memory_map (ho_boot_info ho))"
    using h by (simp_all add: sound_def)
  moreover have "\<forall>i < 256. mappable (ld_pt (bm_ld (ho_state ho))) (HEAP_START + i * 4096)"
    by (rule heap_mappable [where mappable = mappable and pt = pt]) (use h heap in blast)+
  ultimately show ?thesis
    using kernel_main_boots [where table_at = "table_seen translate_2m root (ld_pt (bm_ld (ho_state ho))) other", OF x mt off(1) _ _ seen] enough
    by blast
qed

text \<open>
  C1: the machine boots. From the table of the BIOS and a kernel file, the bootloader's last stage either
  runs out of memory or of slots, or hands over to a kernel that finds the active page table through the window of
  the physical memory at the offset it is given, and reaches the halt loop: its heap is mapped
  page by page to distinct frames which the table reported as usable and which are neither frame zero nor
  the bootloader's, the kernel file's or the page tables'; the agent is ready; and every segment and the stack
  are still where the bootloader put them, in frames that are none of the heap's.
\<close>

theorem system_boots:
  assumes "boot_machine B mappable entry (p4_physical P) vacant translate_2m mappable_2m"
    and "boot_input B P mem entry_point segs m" and "default_addresses (bld_config bld)"
    and "boot_ready mappable entry vacant translate_2m P segs (KERNEL_STACK_SIZE (bld_config bld)) (top_of m) K pt"
    and "\<And>bi. length (be_layout B bi) \<le> 4096"
    and "mapper map_to (env_translate (be_loader B)) mappable" and "map_physical_memory (bld_features bld)"
    and "p4_physical P < 2 ^ 39" and "p4_physical P \<le> top_of m"
    and "\<forall>i < 256. mappable pt (HEAP_START + i * 4096)"
    and "boot_cost bld segs (top_of m) + 1024 \<le> card {f \<in> usable m. \<forall>x \<in> set (used_areas P). \<not> in_area f x}"
  shows "\<exists>m1. mark_used_regions (be_loader B) P m = Inr m1 \<and>
    (case bootloader_main B bld P c scr pt mem of
       Inl p \<Rightarrow> p \<in> exhausted \<and> \<not> ample (be_loader B) (boot_cost bld segs (top_of m)) m1
     | Inr ho \<Rightarrow> \<exists>after k fs.
         impl_start (kernel_main info map_to (env_x86 (be_loader B)) p (p4_physical P)
           (table_seen translate_2m (p4_physical P) (ld_pt (bm_ld (ho_state ho))) other)) (ho_boot_info ho) =
           (banner, after, Hlt_loop k) \<and>
         agent_inv (k_agent k) \<and> messages (ctx (k_agent k)) = [new_message System system_prompt] \<and>
         k_heap k = Some (HEAP_START, HEAP_SIZE) \<and> length fs = 256 \<and> distinct fs \<and>
         (\<forall>i < 256. env_translate (be_loader B) (k_page_table k) (HEAP_START + i * 4096) = Some (fs ! i * 4096, {PRESENT, WRITABLE})) \<and>
         (\<forall>f \<in> set fs. f \<in> usable m \<and> (\<forall>x \<in> set (used_areas P). \<not> in_area f x)) \<and>
         still_loaded B bld P segs m mem ho (k_page_table k) (set fs))"
proof -
  have fa: "frame_allocation (env_sort (be_loader B)) (env_x86 (be_loader B))"
    using assms(1) by (simp add: boot_machine_def kernel_loader_def)
  then have x: "x86_addresses (env_x86 (be_loader B))" by (simp add: frame_allocation_def)
  obtain m1 where m1: "mark_used_regions (be_loader B) P m = Inr m1"
    "case bootloader_main B bld P c scr pt mem of
       Inl p \<Rightarrow> p \<in> exhausted \<and> \<not> ample (be_loader B) (boot_cost bld segs (top_of m)) m1
     | Inr ho \<Rightarrow> handed_over B mappable translate_2m bld P entry_point segs m c pt mem ho \<and>
         card (usable m1) \<le> boot_cost bld segs (top_of m) + card (usable (bi_memory_map (ho_boot_info ho)))"
    using boot_machine.bootloader_main_correct [OF assms(1) refl assms(2-5)] by blast
  have ok: "used_memory_ok P m" using assms(2) by (simp add: boot_input_def Let_def)
  have u: "usable m1 = {f \<in> usable m. \<forall>x \<in> set (used_areas P). \<not> in_area f x}"
    using mark_used_regions_spec [OF fa ok] m1(1) by auto
  show ?thesis
  proof (cases "bootloader_main B bld P c scr pt mem")
    case (Inl p)
    with m1 show ?thesis by simp
  next
    case (Inr ho)
    have h: "handed_over B mappable translate_2m bld P entry_point segs m c pt mem ho"
      and e: "1024 \<le> card (usable (bi_memory_map (ho_boot_info ho)))" using m1(2) Inr u assms(11) by simp_all
    have sd: "sound (ld_map (bm_ld (ho_state ho)))" using h by (simp add: handed_over_def Let_def)
    have fr: "\<forall>f \<in> usable (bi_memory_map (ho_boot_info ho)). f \<in> usable m \<and> (\<forall>x \<in> set (used_areas P). \<not> in_area f x)"
      using h by (simp add: handed_over_def Let_def)
    from handed_over_boots [OF h x assms(6-10) e, of info p other] obtain after k fs where
      k: "kernel_main info map_to (env_x86 (be_loader B)) p (p4_physical P) (table_seen translate_2m (p4_physical P) (ld_pt (bm_ld (ho_state ho))) other)
        (ho_boot_info ho) = (banner, after, Hlt_loop k)"
      "agent_inv (k_agent k)" "messages (ctx (k_agent k)) = [new_message System system_prompt]" "k_heap k = Some (HEAP_START, HEAP_SIZE)"
      "length fs = 256" "distinct fs" "set fs \<subseteq> usable (bi_memory_map (ho_boot_info ho))"
      "\<forall>i < 256. env_translate (be_loader B) (k_page_table k) (HEAP_START + i * 4096) = Some (fs ! i * 4096, {PRESENT, WRITABLE})"
      "\<forall>q. (\<forall>i < 256. q \<noteq> HEAP_START + i * 4096) \<longrightarrow>
         env_translate (be_loader B) (k_page_table k) q = env_translate (be_loader B) (ld_pt (bm_ld (ho_state ho))) q" by blast
    have "still_loaded B bld P segs m mem ho (k_page_table k) (set fs)"
      by (rule handed_over_still_loaded [OF h assms(4) k(9) sd k(7)])
    then show ?thesis using m1(1) Inr k(1-6,8) subsetD [OF k(7)] fr by (intro exI [of _ m1]) (auto simp: impl_start_def)
  qed
qed

lemma five_mib_free:
  assumes "mm_deref m = [e820_region five_mib]"
  shows "1063 \<le> card {f \<in> usable m. \<forall>x \<in> set (used_areas boot_params_example). \<not> in_area f x}" (is "_ \<le> card ?U")
proof -
  have "{16 ..< 1024} \<union> {1030 ..< 1280} \<subseteq> ?U"
    by (auto simp: usable_def five_mib_owners [OF assms] used_areas_def boot_params_example_def example_params_def in_area_def)
  then have "card ({16 ..< 1024} \<union> {1030 ..< (1280::nat)}) \<le> card ?U"
    by (intro card_mono finite_subset [OF _ usable_finite [of m]]) auto
  then show ?thesis by (simp add: card_Un_disjoint)
qed

theorem system_boots_witness:
  "mapper bt_map_to (env_translate (be_loader boot_env_example)) bt_mappable \<and>
   (\<exists>m ho after k. boot_input boot_env_example boot_params_example boot_memory 2097408 [example_segment] m \<and>
      bootloader_main boot_env_example boot_build_example boot_params_example \<lparr>efer = 0, cr0 = 0, cr4 = 0\<rparr>
        (Text \<lparr>text_mem = Map.empty, current_offset = 0\<rparr>) boot_tables_example boot_memory = Inr ho \<and>
      kernel_main (\<lambda>_. '''') bt_map_to x86_documented Debug 4096
        (table_seen bt_translate_2m 4096 (ld_pt (bm_ld (ho_state ho))) boot_tables_example) (ho_boot_info ho) = (banner, after, Hlt_loop k) \<and>
      k_heap k = Some (HEAP_START, HEAP_SIZE) \<and> agent_inv (k_agent k))"
proof -
  note env = boot_example_loader
  have mp: "mapper bt_map_to (env_translate (be_loader boot_env_example)) bt_mappable" using bt_mapper by (simp add: env)
  have bld: "map_physical_memory (bld_features boot_build_example)" and p4: "p4_physical boot_params_example = 4096"
    by (simp_all add: boot_build_example_def boot_params_example_def example_params_def)
  have heap: "\<forall>i < 256. bt_mappable boot_tables_example (HEAP_START + i * 4096)"
    by (auto simp: bt_mappable_def shut_def boot_tables_example_def large_of_def HEAP_START_def)
  let ?ho = "bootloader_main boot_env_example boot_build_example boot_params_example \<lparr>efer = 0, cr0 = 0, cr4 = 0\<rparr>
        (Text \<lparr>text_mem = Map.empty, current_offset = 0\<rparr>) boot_tables_example boot_memory"
  obtain m where m: "create_from insertion_sort_by Debug [five_mib] = Inr m" "mm_wf m" "mm_deref m = [e820_region five_mib]" "next_entry_index m = 1"
    by (rule five_mib_map)
  have u: "used_memory_ok boot_params_example m" by (rule boot_example_used_memory [OF m(2-)])
  note i = boot_example_input [OF m(1) u] and tp = boot_example_top [OF m(3)]
  have rd: "boot_ready bt_mappable bt_entry bt_blank bt_translate_2m boot_params_example [example_segment]
      (KERNEL_STACK_SIZE (bld_config boot_build_example)) (top_of m) 1 boot_tables_example"
    using boot_example_ready boot_example_config(2) tp by simp
  have fits: "boot_cost boot_build_example [example_segment] (top_of m) + 1024 \<le>
      card {f \<in> usable m. \<forall>x \<in> set (used_areas boot_params_example). \<not> in_area f x}"
    using five_mib_free [OF m(3)] by (simp add: tp boot_example_cost)
  have lt: "p4_physical boot_params_example < 2 ^ 39" "p4_physical boot_params_example \<le> top_of m" by (simp_all add: p4 tp)
  note boots = system_boots [where c = "\<lparr>efer = 0, cr0 = 0, cr4 = 0\<rparr>" and scr = "Text \<lparr>text_mem = Map.empty, current_offset = 0\<rparr>" and
      info = "\<lambda>_. ''''" and p = Debug and other = boot_tables_example, OF boot_example_machine i boot_example_config(1) rd boot_env_example_layout mp bld lt heap fits]
  from boots obtain m1 where m1: "mark_used_regions (boot_loader_env Debug) boot_params_example m = Inr m1" unfolding env by blast
  note am = boot_example_ample [OF u m(3,4) m1]
  obtain ho where ho: "?ho = Inr ho" using boots m1 am unfolding env tp by (cases ?ho) auto
  obtain after k where "kernel_main (\<lambda>_. '''') bt_map_to x86_documented Debug 4096
        (table_seen bt_translate_2m 4096 (ld_pt (bm_ld (ho_state ho))) boot_tables_example) (ho_boot_info ho) = (banner, after, Hlt_loop k)" "k_heap k = Some (HEAP_START, HEAP_SIZE)" "agent_inv (k_agent k)"
    using boots unfolding env p4 ho impl_start_def by auto
  then show ?thesis using mp i ho by blast
qed

end
